(* ===== verification/Prelude.thy ===== *)
theory Prelude
  imports
    Complex_Main
    "HOL-Library.Signed_Division"
    "HOL-Library.Char_ord"
    "HOL-Library.List_Lexorder"
    "HOL-Library.Product_Lexorder"
    "HOL-Library.AList"
begin

text \<open>
  Shared vocabulary of the development.

  A Rust \<open>Result<T, E>\<close> is the sum \<open>'e + 'a\<close> (\<open>Inl\<close> the error); the operator
  \<open>?\<close> is \<open>rbind\<close>, \<open>map_err\<close> keeps its name, an early \<open>return Err(e)\<close> behind a
  condition is \<open>ensure\<close>, and the three shapes a fallible \<open>for\<close> loop takes in the
  sources (a running value, a collected vector, a check of each element) are \<open>fold_result\<close>,
  \<open>map_result\<close> and \<open>each_result\<close>.  A \<open>BTreeMap\<close> is an association list kept sorted by
  \<open>btree_insert\<close>; a \<open>HashMap\<close> whose iteration order the code never observes is an
  association list written by \<open>AList.update\<close>.  The locale \<open>keyed_store\<close> states what the
  clients rely on for either.
\<close>

named_theorems result_simps \<open>equations that run the result operators\<close>

section \<open>Results\<close>

definition rbind :: "'e + 'a \<Rightarrow> ('a \<Rightarrow> 'e + 'b) \<Rightarrow> 'e + 'b" where
  "rbind m f = (case m of Inl e \<Rightarrow> Inl e | Inr x \<Rightarrow> f x)"

definition map_err :: "('e \<Rightarrow> 'f) \<Rightarrow> 'e + 'a \<Rightarrow> 'f + 'a" where
  "map_err g m = (case m of Inl e \<Rightarrow> Inl (g e) | Inr x \<Rightarrow> Inr x)"

definition ensure :: "bool \<Rightarrow> 'e \<Rightarrow> 'e + unit" where
  "ensure b e = (if b then Inr () else Inl e)"

definition ok_or :: "'e \<Rightarrow> 'a option \<Rightarrow> 'e + 'a" where
  "ok_or e x = (case x of None \<Rightarrow> Inl e | Some v \<Rightarrow> Inr v)"

primrec fold_result :: "('x \<Rightarrow> 'a \<Rightarrow> 'e + 'a) \<Rightarrow> 'x list \<Rightarrow> 'a \<Rightarrow> 'e + 'a" where
  "fold_result f [] a = Inr a"
| "fold_result f (x # xs) a = rbind (f x a) (fold_result f xs)"

primrec map_result :: "('x \<Rightarrow> 'e + 'y) \<Rightarrow> 'x list \<Rightarrow> 'e + 'y list" where
  "map_result f [] = Inr []"
| "map_result f (x # xs) = rbind (f x) (\<lambda>y. rbind (map_result f xs) (\<lambda>ys. Inr (y # ys)))"

primrec each_result :: "('x \<Rightarrow> 'e + unit) \<Rightarrow> 'x list \<Rightarrow> 'e + unit" where
  "each_result f [] = Inr ()"
| "each_result f (x # xs) = rbind (f x) (\<lambda>_. each_result f xs)"

lemma rbind_simps [simp, result_simps]:
  "rbind (Inl e) f = Inl e" "rbind (Inr x) f = f x"
  by (simp_all add: rbind_def)

lemma map_err_simps [simp, result_simps]:
  "map_err g (Inl e) = Inl (g e)" "map_err g (Inr x) = Inr x"
  by (simp_all add: map_err_def)

lemma ensure_simps [simp, result_simps]:
  "ensure True e = Inr ()" "ensure False e = Inl e"
  by (simp_all add: ensure_def)

lemma ok_or_simps [simp, result_simps]:
  "ok_or e None = Inl e" "ok_or e (Some v) = Inr v"
  by (simp_all add: ok_or_def)

lemma rbind_eq_Inr [simp]: "rbind m f = Inr y \<longleftrightarrow> (\<exists>x. m = Inr x \<and> f x = Inr y)"
  by (cases m) auto

lemma Inr_eq_rbind [simp]: "Inr y = rbind m f \<longleftrightarrow> (\<exists>x. m = Inr x \<and> f x = Inr y)"
  by (cases m) auto

lemma rbind_eq_Inl: "rbind m f = Inl e \<longleftrightarrow> m = Inl e \<or> (\<exists>x. m = Inr x \<and> f x = Inl e)"
  by (cases m) auto

lemma map_err_eq_Inr [simp]: "map_err g m = Inr y \<longleftrightarrow> m = Inr y"
  by (cases m) auto

lemma map_err_eq_Inl: "map_err g m = Inl e' \<longleftrightarrow> (\<exists>e. m = Inl e \<and> e' = g e)"
  by (cases m) auto

lemma ensure_eq_Inr [simp]: "ensure b e = Inr u \<longleftrightarrow> b"
  by (simp add: ensure_def)

lemma ensure_eq_Inl [simp]: "ensure b e = Inl e' \<longleftrightarrow> \<not> b \<and> e' = e"
  by (auto simp: ensure_def)

lemma ok_or_eq_Inr [simp]: "ok_or e x = Inr v \<longleftrightarrow> x = Some v"
  by (cases x) auto

lemma rbind_cong [fundef_cong]:
  "m = m' \<Longrightarrow> (\<And>x. m' = Inr x \<Longrightarrow> f x = g x) \<Longrightarrow> rbind m f = rbind m' g"
  by (cases m') auto

lemma map_result_Inr_iff:
  "map_result f xs = Inr ys \<longleftrightarrow> list_all2 (\<lambda>x y. f x = Inr y) xs ys"
  by (induction xs arbitrary: ys) (auto simp: list_all2_Cons1)

lemma each_result_Inr_iff [simp]:
  "each_result f xs = Inr u \<longleftrightarrow> (\<forall>x\<in>set xs. f x = Inr ())"
  by (induction xs) auto

lemma each_result_ok: "(\<And>x. x \<in> set xs \<Longrightarrow> f x = Inr ()) \<Longrightarrow> each_result f xs = Inr ()"
  by simp

lemma map_result_cong_Inr: "(\<And>x. x \<in> set xs \<Longrightarrow> f x = Inr (g x)) \<Longrightarrow> map_result f xs = Inr (map g xs)"
  by (induction xs) auto

lemma each_result_Inl:
  "each_result f xs = Inl e \<Longrightarrow> \<exists>x\<in>set xs. f x = Inl e"
  by (induction xs) (auto simp: rbind_eq_Inl)

lemma fold_result_append:
  "fold_result f (xs @ ys) a = rbind (fold_result f xs a) (fold_result f ys)"
  by (induction xs arbitrary: a) (auto simp: rbind_def split: sum.splits)

text \<open>The loop rule: an invariant indexed by the elements already consumed.\<close>

lemma fold_result_invariant:
  assumes "fold_result f xs a = Inr b"
    and "P [] a"
    and "\<And>ys x zs a b. xs = ys @ x # zs \<Longrightarrow> P ys a \<Longrightarrow> f x a = Inr b \<Longrightarrow> P (ys @ [x]) b"
  shows "P xs b"
  using assms
proof (induction xs arbitrary: b rule: rev_induct)
  case Nil
  then show ?case by simp
next
  case (snoc x xs)
  then obtain c where c: "fold_result f xs a = Inr c" "f x c = Inr b"
    by (auto simp: fold_result_append)
  have "P xs c"
    by (rule snoc.IH [OF c(1)]) (use snoc.prems in auto)
  with c snoc.prems(3) [of xs x "[]"] show ?case by simp
qed

lemma fold_result_total:
  assumes "Q 0 a"
    and "\<And>i x a. i < length xs \<Longrightarrow> x \<in> set xs \<Longrightarrow> Q i a \<Longrightarrow> \<exists>b. f x a = Inr b \<and> Q (Suc i) b"
  shows "\<exists>b. fold_result f xs a = Inr b \<and> Q (length xs) b"
  using assms
proof (induction xs rule: rev_induct)
  case Nil
  then show ?case by simp
next
  case (snoc x xs)
  have "\<exists>b. fold_result f xs a = Inr b \<and> Q (length xs) b"
    by (rule snoc.IH) (use snoc.prems in auto)
  then obtain b where b: "fold_result f xs a = Inr b" "Q (length xs) b" by blast
  from snoc.prems(2) [OF _ _ b(2), of x] obtain c where "f x b = Inr c" "Q (Suc (length xs)) c"
    by auto
  with b show ?case by (simp add: fold_result_append)
qed

section \<open>Keyed stores\<close>

fun btree_insert :: "'k::linorder \<Rightarrow> 'v \<Rightarrow> ('k \<times> 'v) list \<Rightarrow> ('k \<times> 'v) list" where
  "btree_insert k v [] = [(k, v)]"
| "btree_insert k v ((k', v') # m) =
     (if k < k' then (k, v) # (k', v') # m
      else if k = k' then (k, v) # m
      else (k', v') # btree_insert k v m)"

abbreviation sorted_keys :: "('k::linorder \<times> 'v) list \<Rightarrow> bool" where
  "sorted_keys m \<equiv> sorted_wrt (<) (map fst m)"

lemma set_fst_btree_insert [simp]: "fst ` set (btree_insert k v m) = insert k (fst ` set m)"
  by (induction k v m rule: btree_insert.induct) auto

lemma btree_insert_sorted: "sorted_keys m \<Longrightarrow> sorted_keys (btree_insert k v m)"
proof (induction k v m rule: btree_insert.induct)
  case (2 k v k' v' m)
  moreover have "set (map fst (btree_insert k v m)) = insert k (fst ` set m)" by simp
  ultimately show ?case by (auto simp: less_trans)
qed simp

lemma map_of_btree_insert:
  "sorted_keys m \<Longrightarrow> map_of (btree_insert k v m) = (map_of m)(k \<mapsto> v)"
proof (induction k v m rule: btree_insert.induct)
  case (2 k v k' v' m)
  then show ?case by (auto simp: fun_eq_iff)
qed (simp add: fun_eq_iff)

text \<open>
  What the ledger relies on from a map it writes one key at a time: a write is a map update,
  the keys stay distinct, and a total over the values moves by the difference of the one value
  written.
\<close>

locale keyed_store =
  fixes put :: "'k \<Rightarrow> 'v \<Rightarrow> ('k \<times> 'v) list \<Rightarrow> ('k \<times> 'v) list"
    and inv :: "('k \<times> 'v) list \<Rightarrow> bool"
  assumes inv_empty: "inv []"
    and inv_put: "inv m \<Longrightarrow> inv (put k v m)"
    and inv_distinct: "inv m \<Longrightarrow> distinct (map fst m)"
    and map_of_put: "inv m \<Longrightarrow> map_of (put k v m) = (map_of m)(k \<mapsto> v)"
begin

lemma keys_put: "inv m \<Longrightarrow> fst ` set (put k v m) = insert k (fst ` set m)"
  using map_of_put [of m k v] by (metis dom_fun_upd dom_map_of_conv_image_fst option.distinct(1))

lemma values_by_keys:
  fixes g :: "'k \<Rightarrow> 'v \<Rightarrow> 'a::comm_monoid_add"
  assumes "inv m"
  shows "(\<Sum>(k, v)\<leftarrow>m. g k v) = (\<Sum>k\<in>dom (map_of m). g k (the (map_of m k)))"
proof -
  have d: "distinct (map fst m)" using assms by (rule inv_distinct)
  have inj: "inj_on fst (set m)" using d by (simp add: distinct_map)
  have "(\<Sum>(k, v)\<leftarrow>m. g k v) = (\<Sum>p\<in>set m. g (fst p) (snd p))"
    using d by (simp add: sum_list_distinct_conv_sum_set distinct_map case_prod_beta)
  also have "\<dots> = (\<Sum>p\<in>set m. g (fst p) (the (map_of m (fst p))))"
    using d by (intro sum.cong refl) (auto simp: map_of_is_SomeI)
  also have "\<dots> = (\<Sum>k\<in>fst ` set m. g k (the (map_of m k)))"
    using inj by (simp add: sum.reindex)
  finally show ?thesis by (simp add: dom_map_of_conv_image_fst)
qed

lemma sum_put:
  fixes g :: "'k \<Rightarrow> 'v \<Rightarrow> 'a::ab_group_add"
  assumes m: "inv m"
  shows "(\<Sum>(k', v')\<leftarrow>put k v m. g k' v') =
    (\<Sum>(k', v')\<leftarrow>m. g k' v') + g k v - (case map_of m k of None \<Rightarrow> 0 | Some w \<Rightarrow> g k w)"
proof -
  let ?s = "\<lambda>f A. (\<Sum>k'\<in>A. g k' (the (f k')))"
  have fin: "finite (dom (map_of m))" by (rule finite_dom_map_of)
  have rest: "?s ((map_of m)(k \<mapsto> v)) (dom (map_of m) - {k}) = ?s (map_of m) (dom (map_of m) - {k})"
    by (intro sum.cong) auto
  have "?s ((map_of m)(k \<mapsto> v)) (insert k (dom (map_of m))) =
      g k v + ?s (map_of m) (dom (map_of m) - {k})"
    using fin rest by (simp add: sum.insert_remove)
  moreover have "?s (map_of m) (dom (map_of m)) =
      (case map_of m k of None \<Rightarrow> 0 | Some w \<Rightarrow> g k w) + ?s (map_of m) (dom (map_of m) - {k})"
  proof (cases "map_of m k")
    case None
    then have "dom (map_of m) - {k} = dom (map_of m)" by auto
    with None show ?thesis by simp
  next
    case (Some w)
    then have "k \<in> dom (map_of m)" by auto
    with fin Some show ?thesis by (simp add: sum.remove)
  qed
  ultimately show ?thesis
    using m by (simp add: values_by_keys inv_put map_of_put)
qed

end

interpretation btree: keyed_store "btree_insert :: 'k::linorder \<Rightarrow> 'v \<Rightarrow> _" "\<lambda>m. sorted_keys m"
proof unfold_locales
  fix m :: "('k \<times> 'v) list" and k v
  assume m: "sorted_keys m"
  show "sorted_keys (btree_insert k v m)" using m by (rule btree_insert_sorted)
  show "distinct (map fst m)" using m by (simp only: strict_sorted_iff)
  show "map_of (btree_insert k v m) = (map_of m)(k \<mapsto> v)" using m by (rule map_of_btree_insert)
qed simp

interpretation hash: keyed_store AList.update "\<lambda>m. distinct (map fst m)"
  by unfold_locales (auto simp: distinct_update update_conv')

end
