(* ===== verification/Decimal_Carrier.thy ===== *)
theory Decimal_Carrier
  imports Prelude
begin

text \<open>
  The decimal carrier of the money crates, \<open>rust_decimal::Decimal\<close>, and the interface through
  which the sources use it.

  The crate is third-party code.  Its value is data (a sign, a 96-bit coefficient and a scale of at
  most 28), so it is a type here, with the accessors \<open>mantissa()\<close> and \<open>scale()\<close>.  What the
  crate computes (normalising, comparing, negating, parsing, printing, building from an \<open>i128\<close>) is the
  record \<open>decimal_ops\<close>, an argument of every definition that calls it, and the documented
  behaviour the sources rely on is the predicate \<open>decimal_contract\<close>, a hypothesis of the theorems
  that need it.  \<open>reference_decimal\<close> is a concrete carrier that meets the contract; the witnesses
  run the model with it.
\<close>

section \<open>The carrier\<close>

typedef decimal = "{(neg :: bool, n :: nat, s :: nat). n < 2 ^ 96 \<and> s \<le> 28}"
  by (rule exI [of _ "(False, 0, 0)"]) simp

setup_lifting type_definition_decimal

lift_definition dec_negative :: "decimal \<Rightarrow> bool" is fst .
lift_definition dec_magnitude :: "decimal \<Rightarrow> nat" is "\<lambda>(_, n, _). n" .
lift_definition dec_scale :: "decimal \<Rightarrow> nat" is "\<lambda>(_, _, s). s" .

definition mantissa :: "decimal \<Rightarrow> int" where
  "mantissa d = (if dec_negative d then - int (dec_magnitude d) else int (dec_magnitude d))"

definition dec_fits :: "int \<Rightarrow> nat \<Rightarrow> bool" where
  "dec_fits m s \<longleftrightarrow> \<bar>m\<bar> < 2 ^ 96 \<and> s \<le> 28"

lift_definition Decimal :: "int \<Rightarrow> nat \<Rightarrow> decimal" is
  "\<lambda>m s. if dec_fits m s then (m < 0, nat \<bar>m\<bar>, s) else (False, 0, 0)"
  by (auto simp: dec_fits_def nat_less_iff)

abbreviation dec_zero :: decimal where
  "dec_zero \<equiv> Decimal 0 0"

definition dval :: "decimal \<Rightarrow> rat" where
  "dval d = of_int (mantissa d) / 10 ^ dec_scale d"

lemma dec_scale_le: "dec_scale d \<le> 28"
  by transfer auto

lemma dec_magnitude_less: "dec_magnitude d < 2 ^ 96"
  by transfer auto

lemma mantissa_bound: "\<bar>mantissa d\<bar> < 2 ^ 96"
proof -
  have "int (dec_magnitude d) < 2 ^ 96"
    using dec_magnitude_less [of d] by (metis of_nat_less_iff of_nat_numeral of_nat_power)
  then show ?thesis by (auto simp: mantissa_def)
qed

lemma dec_fits_mantissa [simp]: "dec_fits (mantissa d) (dec_scale d)"
  by (simp only: dec_fits_def mantissa_bound dec_scale_le)

lemma dec_fits_numeric:
  "dec_fits m s \<longleftrightarrow> \<bar>m\<bar> < 79228162514264337593543950336 \<and> s \<le> 28"
  by (simp add: dec_fits_def)

lemma Decimal_parts [simp]:
  assumes "dec_fits m s"
  shows "mantissa (Decimal m s) = m" and "dec_scale (Decimal m s) = s"
    and "dec_negative (Decimal m s) \<longleftrightarrow> m < 0"
proof -
  have n: "dec_negative (Decimal m s) \<longleftrightarrow> m < 0" and "dec_magnitude (Decimal m s) = nat \<bar>m\<bar>"
    using assms by (transfer, simp)+
  then show "mantissa (Decimal m s) = m" by (simp add: mantissa_def)
  show "dec_negative (Decimal m s) \<longleftrightarrow> m < 0" by (rule n)
  show "dec_scale (Decimal m s) = s" using assms by transfer simp
qed

lemma dval_Decimal [simp]: "dec_fits m s \<Longrightarrow> dval (Decimal m s) = of_int m / 10 ^ s"
  by (simp add: dval_def)

lemma dec_fits_zero [simp]: "dec_fits 0 0"
  by (simp add: dec_fits_def)

lemma dec_zero_parts [simp]: "mantissa dec_zero = 0" "dec_scale dec_zero = 0" "dval dec_zero = 0"
  by simp_all

lemma decimal_eq_iff:
  "a = b \<longleftrightarrow> dec_negative a = dec_negative b \<and> mantissa a = mantissa b \<and> dec_scale a = dec_scale b"
proof -
  have "mantissa a = mantissa b \<and> dec_negative a = dec_negative b \<Longrightarrow> dec_magnitude a = dec_magnitude b"
    by (auto simp: mantissa_def split: if_splits)
  moreover have "dec_negative a = dec_negative b \<Longrightarrow> dec_magnitude a = dec_magnitude b \<Longrightarrow>
      dec_scale a = dec_scale b \<Longrightarrow> a = b"
    by transfer auto
  ultimately show ?thesis by auto
qed

text \<open>Equality of carriers is decided by their parts.\<close>

instantiation decimal :: equal
begin

definition equal_decimal :: "decimal \<Rightarrow> decimal \<Rightarrow> bool" where
  "equal_decimal a b \<longleftrightarrow>
     dec_negative a = dec_negative b \<and> mantissa a = mantissa b \<and> dec_scale a = dec_scale b"

instance
  by standard (simp add: equal_decimal_def decimal_eq_iff)

end

section \<open>Canonical carriers\<close>

definition dec_canonical :: "decimal \<Rightarrow> bool" where
  "dec_canonical d \<longleftrightarrow>
     (dec_scale d = 0 \<or> \<not> 10 dvd mantissa d) \<and> (mantissa d = 0 \<longrightarrow> \<not> dec_negative d)"

lemma dec_negative_canonical: "dec_canonical d \<Longrightarrow> dec_negative d \<longleftrightarrow> mantissa d < 0"
  by (auto simp: dec_canonical_def mantissa_def split: if_splits)

lemma scaled_eq_cancel:
  fixes m n :: int
  assumes "of_int m / 10 ^ s = (of_int n / 10 ^ t :: rat)" and "s \<le> t"
  shows "n = m * 10 ^ (t - s)"
proof -
  have "(of_int n :: rat) = of_int m * 10 ^ t / 10 ^ s"
    using assms(1) by (simp add: field_simps)
  also have "\<dots> = of_int m * 10 ^ (t - s)"
    using assms(2) by (simp add: power_diff)
  also have "\<dots> = of_int (m * 10 ^ (t - s))" by simp
  finally show ?thesis by (simp only: of_int_eq_iff)
qed

lemma scaled_shift:
  "s \<le> t \<Longrightarrow> (of_int m / 10 ^ s :: rat) = of_int (m * 10 ^ (t - s)) / 10 ^ t"
  by (simp add: field_simps flip: power_add)

lemma canonical_scale_le:
  assumes "dec_canonical b" and "dval a = dval b"
  shows "dec_scale b \<le> dec_scale a"
proof (rule ccontr)
  assume "\<not> ?thesis"
  then have lt: "dec_scale a < dec_scale b" by simp
  with assms(2) have "mantissa b = mantissa a * 10 ^ (dec_scale b - dec_scale a)"
    by (intro scaled_eq_cancel) (auto simp: dval_def)
  moreover have "(10::int) dvd 10 ^ (dec_scale b - dec_scale a)"
    using lt by (intro dvd_power) simp
  ultimately have "10 dvd mantissa b" by simp
  with assms(1) lt show False by (simp add: dec_canonical_def)
qed

lemma canonical_unique:
  assumes "dec_canonical a" "dec_canonical b" "dval a = dval b"
  shows "a = b"
proof -
  have s: "dec_scale a = dec_scale b"
    using canonical_scale_le [OF assms(2,3)] canonical_scale_le [OF assms(1) assms(3) [symmetric]]
    by simp
  with assms(3) have "mantissa a = mantissa b" by (simp add: dval_def)
  with s assms(1,2) show ?thesis by (simp add: decimal_eq_iff dec_negative_canonical)
qed

section \<open>The operations the sources call\<close>

datatype ordering = Less | Equal | Greater

definition rat_cmp :: "rat \<Rightarrow> rat \<Rightarrow> ordering" where
  "rat_cmp a b = (if a < b then Less else if a = b then Equal else Greater)"

record decimal_ops =
  normalize :: "decimal \<Rightarrow> decimal"
  dec_cmp :: "decimal \<Rightarrow> decimal \<Rightarrow> ordering"
  is_zero :: "decimal \<Rightarrow> bool"
  try_from_i128_with_scale :: "int \<Rightarrow> nat \<Rightarrow> decimal option"
  from_str_exact :: "string \<Rightarrow> decimal option"
  dec_text :: "decimal \<Rightarrow> string"
  dec_neg :: "decimal \<Rightarrow> decimal"

abbreviation dec_lt :: "decimal_ops \<Rightarrow> decimal \<Rightarrow> decimal \<Rightarrow> bool" where
  "dec_lt D a b \<equiv> dec_cmp D a b = Less"

abbreviation dec_le :: "decimal_ops \<Rightarrow> decimal \<Rightarrow> decimal \<Rightarrow> bool" where
  "dec_le D a b \<equiv> dec_cmp D a b \<noteq> Greater"

abbreviation dec_eq :: "decimal_ops \<Rightarrow> decimal \<Rightarrow> decimal \<Rightarrow> bool" where
  "dec_eq D a b \<equiv> dec_cmp D a b = Equal"

definition decimal_contract :: "decimal_ops \<Rightarrow> bool" where
  "decimal_contract D \<longleftrightarrow>
     (\<forall>d. dval (normalize D d) = dval d \<and> dec_canonical (normalize D d)) \<and>
     (\<forall>a b. dec_cmp D a b = rat_cmp (dval a) (dval b)) \<and>
     (\<forall>d. is_zero D d \<longleftrightarrow> dval d = 0) \<and>
     (\<forall>c s. try_from_i128_with_scale D c s = (if dec_fits c s then Some (Decimal c s) else None)) \<and>
     (\<forall>d. dval (dec_neg D d) = - dval d)"

named_theorems decimal_rules \<open>what a carrier that meets its contract computes\<close>

lemma contract_normalize [decimal_rules]:
  assumes "decimal_contract D"
  shows "dval (normalize D d) = dval d" and "dec_canonical (normalize D d)"
  using assms by (simp_all add: decimal_contract_def)

lemma contract_compare [decimal_rules]:
  assumes "decimal_contract D"
  shows "dec_cmp D a b = Less \<longleftrightarrow> dval a < dval b"
    and "dec_cmp D a b = Greater \<longleftrightarrow> dval b < dval a"
    and "dec_cmp D a b = Equal \<longleftrightarrow> dval a = dval b"
  using assms by (auto simp: decimal_contract_def rat_cmp_def)

lemma contract_is_zero [decimal_rules]: "decimal_contract D \<Longrightarrow> is_zero D d \<longleftrightarrow> dval d = 0"
  by (simp add: decimal_contract_def)

lemma contract_try_from [decimal_rules]:
  "decimal_contract D \<Longrightarrow>
   try_from_i128_with_scale D c s = (if dec_fits c s then Some (Decimal c s) else None)"
  by (simp add: decimal_contract_def)

lemma contract_neg [decimal_rules]: "decimal_contract D \<Longrightarrow> dval (dec_neg D d) = - dval d"
  by (simp add: decimal_contract_def)

lemma normalize_canonical:
  "decimal_contract D \<Longrightarrow> dec_canonical d \<Longrightarrow> normalize D d = d"
  by (rule canonical_unique) (simp_all add: contract_normalize)

lemma normalize_idem: "decimal_contract D \<Longrightarrow> normalize D (normalize D d) = normalize D d"
  by (simp add: normalize_canonical contract_normalize)

end
