(* ===== verification/Digits.thy ===== *)
theory Digits
  imports Prelude
begin

text \<open>
  Decimal digits in text, as the standard library formats and parses integers: \<open>show_nat\<close> and
  \<open>show_int\<close> are \<open>to_string\<close>, \<open>pad_zero\<close> is the \<open>{:0w}\<close> format, \<open>digits_val\<close> reads a
  run of ASCII digits and \<open>parse_nat\<close>/\<open>parse_int\<close> are \<open>str::parse\<close> (which accept one leading
  sign).  Text is a list of bytes, as \<open>str::as_bytes\<close> gives it.
\<close>

definition is_ascii_digit :: "char \<Rightarrow> bool" where
  "is_ascii_digit c \<longleftrightarrow> 48 \<le> (of_char c :: nat) \<and> (of_char c :: nat) \<le> 57"

definition is_ascii_uppercase :: "char \<Rightarrow> bool" where
  "is_ascii_uppercase c \<longleftrightarrow> 65 \<le> (of_char c :: nat) \<and> (of_char c :: nat) \<le> 90"

definition digit_val :: "char \<Rightarrow> nat" where
  "digit_val c = of_char c - 48"

definition digit_char :: "nat \<Rightarrow> char" where
  "digit_char n = char_of (48 + n)"

definition digits_val :: "string \<Rightarrow> nat" where
  "digits_val = foldl (\<lambda>acc c. acc * 10 + digit_val c) 0"

fun show_nat :: "nat \<Rightarrow> string" where
  "show_nat n = (if n < 10 then [digit_char n] else show_nat (n div 10) @ [digit_char (n mod 10)])"

declare show_nat.simps [simp del]

definition show_int :: "int \<Rightarrow> string" where
  "show_int k = (if k < 0 then ''-'' @ show_nat (nat (- k)) else show_nat (nat k))"

definition zeros :: "nat \<Rightarrow> string" where
  "zeros n = replicate n CHR ''0''"

lemma digit_char_props [simp]:
  assumes "n < 10"
  shows "is_ascii_digit (digit_char n)" and "digit_val (digit_char n) = n"
proof -
  have "of_char (char_of (48 + n) :: char) = (48 + n :: nat)"
    using assms by (simp add: take_bit_eq_mod)
  with assms show "is_ascii_digit (digit_char n)" "digit_val (digit_char n) = n"
    by (simp_all add: digit_char_def is_ascii_digit_def digit_val_def)
qed

lemma digit_val_less: "is_ascii_digit c \<Longrightarrow> digit_val c < 10"
  by (auto simp: is_ascii_digit_def digit_val_def)

lemma digit_char_val: "is_ascii_digit c \<Longrightarrow> digit_char (digit_val c) = c"
  by (simp add: is_ascii_digit_def digit_val_def digit_char_def)

lemma digits_val_Nil [simp]: "digits_val [] = 0"
  by (simp add: digits_val_def)

lemma digits_val_snoc [simp]: "digits_val (s @ [c]) = digits_val s * 10 + digit_val c"
  by (simp add: digits_val_def)

lemma digits_val_append: "digits_val (s @ t) = digits_val s * 10 ^ length t + digits_val t"
proof (induction t rule: rev_induct)
  case (snoc c t)
  have "digits_val (s @ t @ [c]) = digits_val ((s @ t) @ [c])" by simp
  also have "\<dots> = digits_val (s @ t) * 10 + digit_val c" by (rule digits_val_snoc)
  finally show ?case using snoc by (simp add: algebra_simps)
qed simp

lemma digits_val_Cons: "digits_val (c # s) = digit_val c * 10 ^ length s + digits_val s"
  using digits_val_append [of "[c]" s] by (simp add: digits_val_def)

lemma digits_val_less: "list_all is_ascii_digit s \<Longrightarrow> digits_val s < 10 ^ length s"
proof (induction s rule: rev_induct)
  case (snoc c s)
  then have "digits_val s < 10 ^ length s" "digit_val c < 10" by (auto simp: digit_val_less)
  then show ?case by simp
qed simp

lemma show_nat_digits: "list_all is_ascii_digit (show_nat n)"
proof (induction n rule: show_nat.induct)
  case (1 n)
  then show ?case by (subst show_nat.simps) simp
qed

lemma show_nat_nonempty [simp]: "show_nat n \<noteq> []"
  by (subst show_nat.simps) simp

lemma digits_val_show_nat [simp]: "digits_val (show_nat n) = n"
proof (induction n rule: show_nat.induct)
  case (1 n)
  show ?case
  proof (cases "n < 10")
    case True
    then show ?thesis by (subst show_nat.simps) (simp add: digits_val_def)
  next
    case False
    with 1 show ?thesis by (subst show_nat.simps) simp
  qed
qed

lemma digit_char_zero [simp]: "digit_char 0 = CHR ''0''"
  by code_simp

lemma show_nat_zero [simp]: "show_nat 0 = ''0''"
  by (subst show_nat.simps) simp

lemma show_nat_no_leading_zero: "0 < n \<Longrightarrow> hd (show_nat n) \<noteq> CHR ''0''"
proof (induction n rule: show_nat.induct)
  case (1 n)
  show ?case
  proof (cases "n < 10")
    case True
    have "digit_val (CHR ''0'') = 0" by (simp add: digit_val_def)
    with True 1(2) show ?thesis
      by (subst show_nat.simps) (metis digit_char_props(2) if_P list.sel(1) not_less_zero)
  next
    case False
    with 1 show ?thesis by (subst show_nat.simps) simp
  qed
qed

text \<open>The canonical digit strings are exactly the printed ones.\<close>

definition plain_digits :: "string \<Rightarrow> bool" where
  "plain_digits s \<longleftrightarrow> s \<noteq> [] \<and> list_all is_ascii_digit s \<and> (1 < length s \<longrightarrow> hd s \<noteq> CHR ''0'')"

lemma plain_digits_show_nat [simp]: "plain_digits (show_nat n)"
proof (cases "n = 0")
  case True
  then show ?thesis by (simp add: plain_digits_def is_ascii_digit_def)
next
  case False
  then show ?thesis by (simp add: plain_digits_def show_nat_digits show_nat_no_leading_zero)
qed

lemma digit_val_pos: "is_ascii_digit c \<Longrightarrow> c \<noteq> CHR ''0'' \<Longrightarrow> 0 < digit_val c"
  by (metis digit_char_val digit_char_zero gr0I)

lemma show_nat_digits_val: "plain_digits s \<Longrightarrow> show_nat (digits_val s) = s"
proof (induction s rule: rev_induct)
  case Nil
  then show ?case by (simp add: plain_digits_def)
next
  case (snoc c s)
  have c: "is_ascii_digit c" using snoc.prems by (simp add: plain_digits_def)
  show ?case
  proof (cases "s = []")
    case True
    with c show ?thesis
      by (subst show_nat.simps) (simp add: digits_val_def digit_val_less digit_char_val)
  next
    case False
    with snoc.prems have p: "plain_digits s" by (auto simp: plain_digits_def)
    have "0 < digits_val s"
    proof -
      from False snoc.prems obtain d t where s: "s = d # t" "d \<noteq> CHR ''0''" "is_ascii_digit d"
        by (cases s) (auto simp: plain_digits_def)
      then show ?thesis by (simp add: digits_val_Cons digit_val_pos)
    qed
    with snoc.IH [OF p] c digit_val_less [OF c] show ?thesis
      by (subst show_nat.simps) (simp add: digit_char_val)
  qed
qed

lemma plain_digits_inj: "plain_digits s \<Longrightarrow> plain_digits t \<Longrightarrow> digits_val s = digits_val t \<Longrightarrow> s = t"
  by (metis show_nat_digits_val)

section \<open>Parsing integers\<close>

definition parse_digits_nat :: "string \<Rightarrow> nat option" where
  "parse_digits_nat s = (if s \<noteq> [] \<and> list_all is_ascii_digit s then Some (digits_val s) else None)"

text \<open>\<open>str::parse\<close> of an unsigned integer: one \<open>+\<close> may come first.\<close>

definition parse_nat :: "string \<Rightarrow> nat option" where
  "parse_nat s = (case s of [] \<Rightarrow> None
     | c # t \<Rightarrow> if c = CHR ''+'' then parse_digits_nat t else parse_digits_nat s)"

definition parse_int :: "string \<Rightarrow> int option" where
  "parse_int s = (case s of [] \<Rightarrow> None
     | c # t \<Rightarrow>
         if c = CHR ''-'' then map_option (\<lambda>n. - int n) (parse_digits_nat t)
         else map_option int (parse_nat s))"

lemma parse_nat_digits: "s \<noteq> [] \<Longrightarrow> list_all is_ascii_digit s \<Longrightarrow> parse_nat s = Some (digits_val s)"
  by (cases s) (auto simp: parse_nat_def parse_digits_nat_def is_ascii_digit_def)

lemma parse_int_digits: "s \<noteq> [] \<Longrightarrow> list_all is_ascii_digit s \<Longrightarrow> parse_int s = Some (int (digits_val s))"
  by (cases s) (auto simp: parse_int_def parse_nat_digits is_ascii_digit_def)

text \<open>The width-\<open>w\<close> zero-padded format of an integer; the sign counts towards the width.\<close>

definition pad_zero :: "nat \<Rightarrow> int \<Rightarrow> string" where
  "pad_zero w k =
     (if k < 0 then ''-'' @ (let t = show_nat (nat (- k)) in zeros (w - 1 - length t) @ t)
      else (let t = show_nat (nat k) in zeros (w - length t) @ t))"

lemma zeros_digits [simp]: "list_all is_ascii_digit (zeros n)"
  by (induction n) (auto simp: zeros_def is_ascii_digit_def)

lemma length_zeros [simp]: "length (zeros n) = n"
  by (simp add: zeros_def)

lemma digits_val_zeros [simp]: "digits_val (zeros n) = 0"
  by (induction n) (auto simp: zeros_def digits_val_Cons digit_val_def)

lemma length_show_nat_le: "n < 10 ^ w \<Longrightarrow> 0 < w \<Longrightarrow> length (show_nat n) \<le> w"
proof (induction n arbitrary: w rule: show_nat.induct)
  case (1 n)
  show ?case
  proof (cases "n < 10")
    case True
    with 1(3) show ?thesis by (subst show_nat.simps) simp
  next
    case False
    then have "1 < w" using 1(2,3) by (cases w; cases "w - 1") auto
    then obtain v where w: "w = Suc v" "0 < v" by (cases w) auto
    have "n div 10 < 10 ^ v" using 1(2) w by (simp add: less_mult_imp_div_less mult.commute)
    with 1(1) [of v] False w show ?thesis by (subst show_nat.simps) simp
  qed
qed

lemma pad_zero_facts:
  assumes "n < 10 ^ w" and "0 < w"
  shows "length (pad_zero w (int n)) = w" "list_all is_ascii_digit (pad_zero w (int n))"
    "digits_val (pad_zero w (int n)) = n"
  using length_show_nat_le [OF assms]
  by (simp_all add: pad_zero_def Let_def show_nat_digits digits_val_append)

end
