(* ===== verification/Money.thy ===== *)
theory Money
  imports Decimal_Carrier Digits
begin

text \<open>
  \<open>gears/bss/libs/money/src/money.rs\<close>: validated decimal money in major units.  \<open>money_error\<close>,
  \<open>currency_spec\<close> and \<open>posted_money\<close> are the crate's types; \<open>currency_try_new\<close>,
  \<open>ensure_same\<close>, \<open>validate_amount\<close>, \<open>posted_try_new\<close>, \<open>split_decimal\<close>,
  \<open>parse_decimal\<close> and \<open>canonical_decimal\<close> its operations.  \<open>spec_ok\<close> and \<open>posted_ok\<close> are
  the invariants the private fields keep: every value the constructors return satisfies them.
\<close>

section \<open>Types\<close>

datatype money_error =
    InvalidDecimal
  | InvalidCurrency
  | ScaleOutOfRange
  | MoneyOutOfRange
  | InvalidPostingIncrement
  | CurrencyMismatch
  | ScaleMismatch

record currency_spec =
  code :: string
  cur_scale :: nat

record posted_money =
  amount :: decimal
  currency :: currency_spec

definition COEFFICIENT_LIMIT :: int where
  "COEFFICIENT_LIMIT = 10 ^ 28"

definition MAX_DECIMAL_BYTES :: nat where
  "MAX_DECIMAL_BYTES = 64"

section \<open>Operations\<close>

definition currency_try_new :: "string \<Rightarrow> nat \<Rightarrow> money_error + currency_spec" where
  "currency_try_new c s =
     (if c = [] \<or> 16 < length c \<or> \<not> list_all (\<lambda>b. is_ascii_uppercase b \<or> is_ascii_digit b) c
      then Inl InvalidCurrency
      else if 28 < s then Inl ScaleOutOfRange
      else Inr \<lparr>code = c, cur_scale = s\<rparr>)"

definition ensure_same :: "currency_spec \<Rightarrow> currency_spec \<Rightarrow> money_error + unit" where
  "ensure_same a b =
     (if code a \<noteq> code b then Inl CurrencyMismatch
      else if cur_scale a \<noteq> cur_scale b then Inl ScaleMismatch
      else Inr ())"

definition validate_amount :: "decimal_ops \<Rightarrow> decimal \<Rightarrow> money_error + decimal" where
  "validate_amount D v =
     (let a = normalize D v
      in if \<bar>mantissa a\<bar> \<ge> COEFFICIENT_LIMIT then Inl MoneyOutOfRange else Inr a)"

definition posted_try_new :: "decimal_ops \<Rightarrow> decimal \<Rightarrow> currency_spec \<Rightarrow> money_error + posted_money" where
  "posted_try_new D v cur =
     rbind (validate_amount D v) (\<lambda>a.
       if dec_scale a > cur_scale cur then Inl InvalidPostingIncrement
       else Inr \<lparr>amount = a, currency = cur\<rparr>)"

record decimal_parts =
  negative :: bool
  integer :: string
  fraction :: string

definition trim_zeros :: "string \<Rightarrow> string" where
  "trim_zeros s = rev (dropWhile (\<lambda>c. c = CHR ''0'') (rev s))"

definition split_once_point :: "string \<Rightarrow> string \<times> string option" where
  "split_once_point s =
     (let i = takeWhile (\<lambda>c. c \<noteq> CHR ''.'') s
      in if CHR ''.'' \<in> set s then (i, Some (drop (Suc (length i)) s)) else (s, None))"

definition split_decimal :: "string \<Rightarrow> money_error + decimal_parts" where
  "split_decimal t =
     (let (neg, unsigned) =
            (case t of [] \<Rightarrow> (False, t) | c # r \<Rightarrow> if c = CHR ''-'' then (True, r) else (False, t));
          (i, f) = split_once_point unsigned
      in if i = [] \<or> \<not> list_all is_ascii_digit i \<or> (1 < length i \<and> hd i = CHR ''0'') \<or>
            (case f of None \<Rightarrow> False | Some g \<Rightarrow> g = [] \<or> \<not> list_all is_ascii_digit g)
         then Inl InvalidDecimal
         else let g = (case f of None \<Rightarrow> [] | Some g \<Rightarrow> trim_zeros g)
              in if neg \<and> i = ''0'' \<and> g = [] then Inl InvalidDecimal
                 else Inr \<lparr>negative = neg, integer = i, fraction = g\<rparr>)"

definition parse_decimal :: "decimal_ops \<Rightarrow> string \<Rightarrow> money_error + decimal" where
  "parse_decimal D t =
     (if length t > MAX_DECIMAL_BYTES then Inl InvalidDecimal
      else rbind (split_decimal t) (\<lambda>p.
        let point_and_fraction = (if fraction p = [] then 0 else 1 + length (fraction p));
            significant = (if negative p then 1 else 0) + length (integer p) + point_and_fraction
        in if significant > length t then Inl InvalidDecimal
           else (case from_str_exact D (take significant t) of
                   None \<Rightarrow> if length (fraction p) > 28 then Inl InvalidDecimal else Inl MoneyOutOfRange
                 | Some a \<Rightarrow> validate_amount D a)))"

definition canonical_decimal :: "decimal_ops \<Rightarrow> decimal \<Rightarrow> string" where
  "canonical_decimal D v = dec_text D (normalize D v)"

section \<open>Invariants of the private fields\<close>

definition spec_ok :: "currency_spec \<Rightarrow> bool" where
  "spec_ok c \<longleftrightarrow> code c \<noteq> [] \<and> length (code c) \<le> 16 \<and>
     list_all (\<lambda>b. is_ascii_uppercase b \<or> is_ascii_digit b) (code c) \<and> cur_scale c \<le> 28"

definition posted_ok :: "posted_money \<Rightarrow> bool" where
  "posted_ok m \<longleftrightarrow> dec_canonical (amount m) \<and> \<bar>mantissa (amount m)\<bar> < 10 ^ 28 \<and>
     dec_scale (amount m) \<le> cur_scale (currency m)"

abbreviation mval :: "posted_money \<Rightarrow> rat" where
  "mval m \<equiv> dval (amount m)"

lemma currency_try_new_Inr:
  "currency_try_new c s = Inr cur \<longleftrightarrow> cur = \<lparr>code = c, cur_scale = s\<rparr> \<and> spec_ok cur"
  by (auto simp: currency_try_new_def spec_ok_def)

lemma ensure_same_Inr [simp]: "ensure_same a b = Inr u \<longleftrightarrow> a = b"
  by (auto simp: ensure_same_def)

lemma ensure_same_refl [simp]: "ensure_same a a = Inr ()"
  by (simp add: ensure_same_def)

lemma validate_amount_Inr:
  assumes "decimal_contract D" and "validate_amount D v = Inr a"
  shows "dec_canonical a" "dval a = dval v" "\<bar>mantissa a\<bar> < 10 ^ 28"
  using assms by (auto simp: validate_amount_def Let_def COEFFICIENT_LIMIT_def decimal_rules split: if_splits)

lemma posted_try_new_Inr:
  assumes "decimal_contract D" and "posted_try_new D v cur = Inr m"
  shows "posted_ok m" "mval m = dval v" "currency m = cur"
  using assms validate_amount_Inr [OF assms(1)]
  by (auto simp: posted_try_new_def posted_ok_def split: if_splits)

text \<open>A validated amount is determined by its value: the constructor returns it unchanged.\<close>

lemma posted_try_new_ok:
  assumes "decimal_contract D" and "posted_ok m"
  shows "posted_try_new D (amount m) (currency m) = Inr m"
  using assms
  by (auto simp: posted_try_new_def validate_amount_def posted_ok_def normalize_canonical COEFFICIENT_LIMIT_def)

lemma posted_ok_unique:
  assumes "posted_ok a" "posted_ok b" "mval a = mval b" "currency a = currency b"
  shows "a = b"
  using assms canonical_unique [of "amount a" "amount b"]
  by (auto simp: posted_ok_def intro: posted_money.equality)

text \<open>Constructing at a value that is exact at the currency's scale succeeds.\<close>

lemma posted_try_new_complete:
  assumes D: "decimal_contract D" and v: "\<bar>mantissa v\<bar> < 10 ^ 28" "dec_scale v \<le> cur_scale cur"
  shows "\<exists>m. posted_try_new D v cur = Inr m \<and> mval m = dval v \<and> currency m = cur \<and> posted_ok m"
proof -
  let ?a = "normalize D v"
  have eq: "dval ?a = dval v" and can: "dec_canonical ?a" using D by (simp_all add: decimal_rules)
  have le: "dec_scale ?a \<le> dec_scale v" using canonical_scale_le [OF can eq [symmetric]] .
  have "mantissa v = mantissa ?a * 10 ^ (dec_scale v - dec_scale ?a)"
    using eq le by (intro scaled_eq_cancel) (simp_all add: dval_def)
  then have "\<bar>mantissa v\<bar> = \<bar>mantissa ?a\<bar> * 10 ^ (dec_scale v - dec_scale ?a)"
    by (simp add: abs_mult)
  moreover have "\<bar>mantissa ?a\<bar> * 1 \<le> \<bar>mantissa ?a\<bar> * 10 ^ (dec_scale v - dec_scale ?a)"
    by (intro mult_left_mono) simp_all
  ultimately have "\<bar>mantissa ?a\<bar> < 10 ^ 28" using v by simp
  then have "posted_try_new D v cur = Inr \<lparr>amount = ?a, currency = cur\<rparr>"
    using le v(2) by (simp add: posted_try_new_def validate_amount_def COEFFICIENT_LIMIT_def Let_def)
  then show ?thesis using posted_try_new_Inr [OF D] by blast
qed

end
