(* ===== verification/Exact.thy ===== *)
theory Exact
  imports Money
begin

text \<open>
  \<open>gears/bss/libs/money/src/exact.rs\<close>: bounded exact fractions.  \<open>exact_amount\<close> is the reduced
  fraction over big integers (a \<open>BigInt\<close> is an \<open>int\<close>; its \<open>/\<close> and \<open>%\<close> truncate, so
  they are \<open>sdiv\<close> and \<open>smod\<close>), with the crate's arithmetic, rounding and narrowing to a
  \<open>posted_money\<close>.

  \<open>narrow\<close> is the specification: the reduced fraction of a rational number when it fits the
  256-digit budget, else \<open>ArithmeticLimit\<close>.  The four operations are proved equal to \<open>narrow\<close>
  of the rational operation, so everything above this theory reasons with rational numbers.
\<close>

section \<open>Types and bounds\<close>

datatype exact_error =
    MoneyErr money_error
  | ArithmeticLimit
  | DivisionByZero
  | EmptyWeights
  | NegativeWeight
  | TooManyTerms
  | CarrierPanic \<comment> \<open>not a variant of the source: the panic of \<open>Decimal::from_i128_with_scale\<close>\<close>

record exact_amount =
  numerator :: int
  denominator :: int

definition digit_bound :: "nat \<Rightarrow> int" where
  "digit_bound digits = 10 ^ digits"

definition ten_pow :: "nat \<Rightarrow> int" where
  "ten_pow s = 10 ^ s"

definition FINAL_BOUND :: int where "FINAL_BOUND = digit_bound 256"
definition PRODUCT_BOUND :: int where "PRODUCT_BOUND = digit_bound 512"
definition SUM_BOUND :: int where "SUM_BOUND = digit_bound 513"

section \<open>Operations\<close>

definition check_digits :: "int \<Rightarrow> int \<Rightarrow> exact_error + unit" where
  "check_digits v bound = (if \<bar>v\<bar> \<ge> bound then Inl ArithmeticLimit else Inr ())"

definition product :: "int \<Rightarrow> int \<Rightarrow> exact_error + int" where
  "product l r = (let v = l * r in rbind (check_digits v PRODUCT_BOUND) (\<lambda>_. Inr v))"

function gcd_loop :: "int \<Rightarrow> int \<Rightarrow> int" where
  "gcd_loop divisor remainder =
     (if remainder = 0 then divisor else gcd_loop remainder (divisor smod remainder))"
  by pat_completeness auto
termination
  by (relation "measure (\<lambda>(_, r). nat \<bar>r\<bar>)") (auto simp: signed_modulo_int_def abs_mult sgn_if)

declare gcd_loop.simps [simp del]

definition big_gcd :: "int \<Rightarrow> int \<Rightarrow> int" where
  "big_gcd l r = gcd_loop \<bar>l\<bar> \<bar>r\<bar>"

definition frac_normalize :: "int \<Rightarrow> int \<Rightarrow> exact_amount" where
  "frac_normalize n d =
     (if n = 0 then \<lparr>numerator = 0, denominator = 1\<rparr>
      else let (n', d') = (if d < 0 then (- n, - d) else (n, d));
               g = big_gcd n' d'
           in \<lparr>numerator = n' sdiv g, denominator = d' sdiv g\<rparr>)"

definition check_budget :: "exact_amount \<Rightarrow> exact_error + unit" where
  "check_budget e =
     rbind (check_digits (numerator e) FINAL_BOUND) (\<lambda>_. check_digits (denominator e) FINAL_BOUND)"

definition check_operands :: "exact_amount \<Rightarrow> exact_amount \<Rightarrow> exact_error + unit" where
  "check_operands a b = rbind (check_budget a) (\<lambda>_. check_budget b)"

definition reduce :: "int \<Rightarrow> int \<Rightarrow> exact_error + exact_amount" where
  "reduce n d =
     (if d = 0 then Inl DivisionByZero
      else rbind (check_digits n SUM_BOUND) (\<lambda>_.
        rbind (check_digits d PRODUCT_BOUND) (\<lambda>_.
          let result = frac_normalize n d
          in rbind (check_budget result) (\<lambda>_. Inr result))))"

definition from_decimal :: "decimal \<Rightarrow> exact_amount" where
  "from_decimal v = frac_normalize (mantissa v) (ten_pow (dec_scale v))"

definition from_coefficient :: "int \<Rightarrow> nat \<Rightarrow> exact_amount" where
  "from_coefficient c s = frac_normalize c (ten_pow s)"

definition from_parts :: "int \<Rightarrow> int \<Rightarrow> exact_error + exact_amount" where
  "from_parts n d = reduce n d"

definition exact_negative :: "exact_amount \<Rightarrow> bool" where
  "exact_negative e \<longleftrightarrow> numerator e < 0"

definition combine :: "exact_amount \<Rightarrow> exact_amount \<Rightarrow> bool \<Rightarrow> exact_error + exact_amount" where
  "combine a b subtract =
     rbind (check_operands a b) (\<lambda>_.
     rbind (product (numerator a) (denominator b)) (\<lambda>left.
     rbind (product (numerator b) (denominator a)) (\<lambda>right.
       let n = (if subtract then left - right else left + right)
       in rbind (check_digits n SUM_BOUND) (\<lambda>_.
            rbind (product (denominator a) (denominator b)) (\<lambda>d. reduce n d)))))"

definition checked_add :: "exact_amount \<Rightarrow> exact_amount \<Rightarrow> exact_error + exact_amount" where
  "checked_add a b = combine a b False"

definition checked_sub :: "exact_amount \<Rightarrow> exact_amount \<Rightarrow> exact_error + exact_amount" where
  "checked_sub a b = combine a b True"

definition checked_mul :: "exact_amount \<Rightarrow> exact_amount \<Rightarrow> exact_error + exact_amount" where
  "checked_mul a b =
     rbind (check_operands a b) (\<lambda>_.
     rbind (product (numerator a) (numerator b)) (\<lambda>n.
     rbind (product (denominator a) (denominator b)) (\<lambda>d. reduce n d)))"

definition checked_div :: "exact_amount \<Rightarrow> exact_amount \<Rightarrow> exact_error + exact_amount" where
  "checked_div a b =
     (if numerator b = 0 then Inl DivisionByZero
      else rbind (check_operands a b) (\<lambda>_.
           rbind (product (numerator a) (denominator b)) (\<lambda>n.
           rbind (product (denominator a) (numerator b)) (\<lambda>d. reduce n d))))"

definition exact_ceil :: "exact_amount \<Rightarrow> exact_error + exact_amount" where
  "exact_ceil e =
     rbind (check_budget e) (\<lambda>_.
       let whole = numerator e sdiv denominator e;
           whole' = (if 0 < numerator e \<and> numerator e smod denominator e \<noteq> 0 then whole + 1 else whole)
       in reduce whole' 1)"

definition exact_floor :: "exact_amount \<Rightarrow> exact_error + exact_amount" where
  "exact_floor e =
     rbind (check_budget e) (\<lambda>_.
       let whole = numerator e sdiv denominator e;
           whole' = (if numerator e < 0 \<and> numerator e smod denominator e \<noteq> 0 then whole - 1 else whole)
       in reduce whole' 1)"

text \<open>\<open>Ord::cmp\<close> and \<open>PartialEq\<close> compare the cross products.\<close>

definition exact_cmp :: "exact_amount \<Rightarrow> exact_amount \<Rightarrow> ordering" where
  "exact_cmp a b =
     (let l = numerator a * denominator b; r = numerator b * denominator a
      in if l < r then Less else if l = r then Equal else Greater)"

definition exact_eq :: "exact_amount \<Rightarrow> exact_amount \<Rightarrow> bool" where
  "exact_eq a b \<longleftrightarrow> exact_cmp a b = Equal"

text \<open>The \<open>while\<close> loop of \<open>posted\<close>, which drops trailing zeros of the coefficient.\<close>

fun posted_strip :: "int \<Rightarrow> nat \<Rightarrow> int \<times> nat" where
  "posted_strip c 0 = (c, 0)"
| "posted_strip c (Suc s) = (if c smod 10 = 0 then posted_strip (c sdiv 10) s else (c, Suc s))"

definition fits_i128 :: "int \<Rightarrow> bool" where
  "fits_i128 k \<longleftrightarrow> - (2 ^ 127) \<le> k \<and> k < 2 ^ 127"

definition posted :: "decimal_ops \<Rightarrow> int \<Rightarrow> currency_spec \<Rightarrow> exact_error + posted_money" where
  "posted D c0 cur =
     (let (c, s) = posted_strip c0 (cur_scale cur)
      in if \<bar>c\<bar> \<ge> ten_pow 28 then Inl (MoneyErr MoneyOutOfRange)
         else if \<not> fits_i128 c then Inl (MoneyErr MoneyOutOfRange)
         else (case try_from_i128_with_scale D c s of
                 None \<Rightarrow> Inl CarrierPanic
               | Some v \<Rightarrow> map_err MoneyErr (posted_try_new D v cur)))"

definition into_posted_exact :: "decimal_ops \<Rightarrow> exact_amount \<Rightarrow> currency_spec \<Rightarrow> exact_error + posted_money" where
  "into_posted_exact D e cur =
     rbind (check_budget e) (\<lambda>_.
     rbind (product (numerator e) (ten_pow (cur_scale cur))) (\<lambda>scaled.
       if scaled smod denominator e \<noteq> 0 then Inl (MoneyErr InvalidPostingIncrement)
       else posted D (scaled sdiv denominator e) cur))"

definition round_half_even_exact :: "exact_amount \<Rightarrow> nat \<Rightarrow> exact_error + exact_amount" where
  "round_half_even_exact e s =
     (if 28 < s then Inl (MoneyErr ScaleOutOfRange)
      else rbind (check_budget e) (\<lambda>_.
           rbind (product \<bar>numerator e\<bar> (ten_pow s)) (\<lambda>scaled.
             let quotient = scaled sdiv denominator e;
                 remainder = scaled smod denominator e
             in rbind (product remainder 2) (\<lambda>twice.
                  let q = (if twice > denominator e \<or> (twice = denominator e \<and> quotient smod 2 \<noteq> 0)
                           then quotient + 1 else quotient);
                      q' = (if numerator e < 0 then - q else q)
                  in reduce q' (ten_pow s)))))"

definition round_half_even :: "decimal_ops \<Rightarrow> exact_amount \<Rightarrow> currency_spec \<Rightarrow> exact_error + posted_money" where
  "round_half_even D e cur =
     rbind (round_half_even_exact e (cur_scale cur)) (\<lambda>r. into_posted_exact D r cur)"

definition sum_posted :: "decimal_ops \<Rightarrow> posted_money list \<Rightarrow> currency_spec \<Rightarrow> exact_error + posted_money" where
  "sum_posted D values cur =
     rbind (each_result (\<lambda>v. map_err MoneyErr (ensure_same (currency v) cur)) values) (\<lambda>_.
     rbind (fold_result (\<lambda>v total. checked_add total (from_decimal (amount v))) values
              (from_decimal dec_zero)) (\<lambda>total.
       into_posted_exact D total cur))"

section \<open>Fractions as rational numbers\<close>

definition exval :: "exact_amount \<Rightarrow> rat" where
  "exval e = of_int (numerator e) / of_int (denominator e)"

definition exact_ok :: "exact_amount \<Rightarrow> bool" where
  "exact_ok e \<longleftrightarrow> 0 < denominator e \<and> coprime (numerator e) (denominator e)"

definition in_budget :: "exact_amount \<Rightarrow> bool" where
  "in_budget e \<longleftrightarrow> \<bar>numerator e\<bar> < FINAL_BOUND \<and> \<bar>denominator e\<bar> < FINAL_BOUND"

definition exact_ready :: "exact_amount \<Rightarrow> bool" where
  "exact_ready e \<longleftrightarrow> exact_ok e \<and> in_budget e"

definition amount_of :: "rat \<Rightarrow> exact_amount" where
  "amount_of q = \<lparr>numerator = fst (quotient_of q), denominator = snd (quotient_of q)\<rparr>"

definition narrow :: "rat \<Rightarrow> exact_error + exact_amount" where
  "narrow q = (if in_budget (amount_of q) then Inr (amount_of q) else Inl ArithmeticLimit)"

lemma exact_ok_amount_of [simp]: "exact_ok (amount_of q)"
  using quotient_of_denom_pos' [of q] quotient_of_coprime [of q "fst (quotient_of q)" "snd (quotient_of q)"]
  by (simp add: exact_ok_def amount_of_def)

lemma exval_amount_of [simp]: "exval (amount_of q) = q"
  using quotient_of_div [of q "fst (quotient_of q)" "snd (quotient_of q)"]
  by (simp add: exval_def amount_of_def)

lemma amount_of_quotient:
  "0 < d \<Longrightarrow> coprime n d \<Longrightarrow> amount_of (of_int n / of_int d) = \<lparr>numerator = n, denominator = d\<rparr>"
  by (simp add: amount_of_def flip: Fract_of_int_quotient)
    (simp add: quotient_of_Fract Rat.normalize_def)

lemma amount_of_exval: "exact_ok e \<Longrightarrow> amount_of (exval e) = e"
  by (simp add: exval_def exact_ok_def amount_of_quotient)

lemma exact_ok_unique: "exact_ok a \<Longrightarrow> exact_ok b \<Longrightarrow> exval a = exval b \<Longrightarrow> a = b"
  by (metis amount_of_exval)

lemma narrow_Inr: "narrow q = Inr e \<longleftrightarrow> e = amount_of q \<and> in_budget e"
  by (auto simp: narrow_def)

lemma narrow_ready: "narrow q = Inr e \<Longrightarrow> exact_ready e \<and> exval e = q"
  by (auto simp: narrow_Inr exact_ready_def)

section \<open>Euclid's algorithm and reduction\<close>

lemma gcd_loop_gcd: "0 \<le> a \<Longrightarrow> 0 \<le> b \<Longrightarrow> gcd_loop a b = gcd a b"
proof (induction a b rule: gcd_loop.induct)
  case (1 a b)
  show ?case
  proof (cases "b = 0")
    case True
    then show ?thesis using 1 by (simp add: gcd_loop.simps)
  next
    case False
    then have m: "a smod b = a mod b" using 1 by (simp add: signed_modulo_int_def sgn_if)
    with False 1 show ?thesis by (subst gcd_loop.simps) (simp add: gcd_red_int [of a b])
  qed
qed

lemma big_gcd_gcd [simp]: "big_gcd a b = gcd a b"
  by (simp add: big_gcd_def gcd_loop_gcd)

lemma sdiv_exact: "(g::int) dvd n \<Longrightarrow> n sdiv g = n div g"
proof (cases "g = 0")
  case False
  assume "g dvd n"
  then obtain k where "n = g * k" by (rule dvdE)
  moreover have "sgn g * sgn g = 1" using False by (simp add: sgn_if)
  ultimately show ?thesis
    using False mult_sgn_abs [of k]
    by (simp add: signed_divide_int_def sgn_mult abs_mult mult.assoc mult.left_commute [of "sgn g"])
qed (simp add: signed_divide_int_def)

lemma smod_zero_dvd [simp]: "(n::int) smod d = 0 \<longleftrightarrow> d dvd n"
  by (auto simp: signed_modulo_int_def sgn_if dvd_eq_mod_eq_0 [symmetric])

lemma frac_normalize_amount_of:
  assumes "d \<noteq> 0"
  shows "frac_normalize n d = amount_of (of_int n / of_int d)"
proof -
  have neg: "n div - gcd n d = (- n) div gcd n d" "d div - gcd n d = (- d) div gcd n d" for n d :: int
    by (simp_all add: div_minus_right)
  show ?thesis
    using assms
    by (simp add: amount_of_def flip: Fract_of_int_quotient)
      (auto simp: quotient_of_Fract Rat.normalize_def frac_normalize_def Let_def sdiv_exact neg)
qed

lemma bounds_positive [simp]: "0 < FINAL_BOUND" "0 < PRODUCT_BOUND" "0 < SUM_BOUND"
  by (simp_all add: FINAL_BOUND_def PRODUCT_BOUND_def SUM_BOUND_def digit_bound_def)

lemma bounds_related:
  "FINAL_BOUND * FINAL_BOUND = PRODUCT_BOUND" "2 * PRODUCT_BOUND \<le> SUM_BOUND"
proof -
  have "(256::nat) + 256 = 512" "(513::nat) = Suc 512" by simp_all
  then show "FINAL_BOUND * FINAL_BOUND = PRODUCT_BOUND" "2 * PRODUCT_BOUND \<le> SUM_BOUND"
    by (simp_all only: FINAL_BOUND_def PRODUCT_BOUND_def SUM_BOUND_def digit_bound_def
        power_add [symmetric] power_Suc mult_right_mono zero_le_power)
qed

lemma power_le_bounds: "s \<le> 256 \<Longrightarrow> 10 ^ s \<le> FINAL_BOUND"
  by (simp only: FINAL_BOUND_def digit_bound_def) (rule power_increasing, simp_all)

lemma check_digits_Inr [simp]: "check_digits v b = Inr u \<longleftrightarrow> \<bar>v\<bar> < b"
  by (simp add: check_digits_def)

lemma check_digits_ok: "\<bar>v\<bar> < b \<Longrightarrow> check_digits v b = Inr ()"
  by simp

lemma check_budget_eq: "check_budget e = (if in_budget e then Inr () else Inl ArithmeticLimit)"
  by (auto simp: check_budget_def in_budget_def check_digits_def)

lemma product_ok: "\<bar>l\<bar> < FINAL_BOUND \<Longrightarrow> \<bar>r\<bar> < FINAL_BOUND \<Longrightarrow> product l r = Inr (l * r)"
  using mult_strict_mono' [of "\<bar>l\<bar>" FINAL_BOUND "\<bar>r\<bar>" FINAL_BOUND]
  by (simp add: product_def check_digits_def abs_mult bounds_related)

lemma product_bound: "\<bar>l\<bar> < FINAL_BOUND \<Longrightarrow> \<bar>r\<bar> < FINAL_BOUND \<Longrightarrow> \<bar>l * r\<bar> < PRODUCT_BOUND"
  using mult_strict_mono' [of "\<bar>l\<bar>" FINAL_BOUND "\<bar>r\<bar>" FINAL_BOUND]
  by (simp add: abs_mult bounds_related)

lemma reduce_narrow:
  assumes "d \<noteq> 0" "\<bar>n\<bar> < SUM_BOUND" "\<bar>d\<bar> < PRODUCT_BOUND"
  shows "reduce n d = narrow (of_int n / of_int d)"
  using assms
  by (simp add: reduce_def check_digits_ok check_budget_eq frac_normalize_amount_of narrow_def Let_def)

section \<open>The operations refine rational arithmetic\<close>

lemma ready_facts:
  assumes "exact_ready e"
  shows "0 < denominator e" "denominator e \<noteq> 0" "\<bar>numerator e\<bar> < FINAL_BOUND"
    "\<bar>denominator e\<bar> < FINAL_BOUND" "check_budget e = Inr ()"
  using assms by (auto simp: exact_ready_def exact_ok_def in_budget_def check_budget_eq)

lemma combine_narrow:
  assumes a: "exact_ready a" and b: "exact_ready b"
  shows "combine a b sub = narrow (if sub then exval a - exval b else exval a + exval b)"
proof -
  note F = ready_facts [OF a] ready_facts [OF b]
  let ?l = "numerator a * denominator b" and ?r = "numerator b * denominator a"
  let ?n = "if sub then ?l - ?r else ?l + ?r" and ?d = "denominator a * denominator b"
  have "\<bar>?l\<bar> < PRODUCT_BOUND" "\<bar>?r\<bar> < PRODUCT_BOUND" using F by (simp_all add: product_bound)
  then have n: "\<bar>?n\<bar> < SUM_BOUND" using bounds_related(2) by auto
  have d: "\<bar>?d\<bar> < PRODUCT_BOUND" by (rule product_bound) (rule F)+
  have "combine a b sub = reduce ?n ?d"
    using F n by (simp add: combine_def check_operands_def product_ok check_digits_ok Let_def)
  also have "\<dots> = narrow (of_int ?n / of_int ?d)"
    using F(2,7) n d by (intro reduce_narrow) simp_all
  also have "of_int ?n / of_int ?d = (if sub then exval a - exval b else exval a + exval b)"
    using F by (simp add: exval_def field_simps)
  finally show ?thesis .
qed

lemma checked_add_narrow:
  "exact_ready a \<Longrightarrow> exact_ready b \<Longrightarrow> checked_add a b = narrow (exval a + exval b)"
  by (simp add: checked_add_def combine_narrow)

lemma checked_sub_narrow:
  "exact_ready a \<Longrightarrow> exact_ready b \<Longrightarrow> checked_sub a b = narrow (exval a - exval b)"
  by (simp add: checked_sub_def combine_narrow)

lemma product_sum_bound: "\<bar>l\<bar> < FINAL_BOUND \<Longrightarrow> \<bar>r\<bar> < FINAL_BOUND \<Longrightarrow> \<bar>l * r\<bar> < SUM_BOUND"
  using product_bound [of l r] bounds_related(2) bounds_positive(2) by linarith

lemma checked_mul_narrow:
  assumes a: "exact_ready a" and b: "exact_ready b"
  shows "checked_mul a b = narrow (exval a * exval b)"
proof -
  note F = ready_facts [OF a] ready_facts [OF b]
  have "\<bar>denominator a * denominator b\<bar> < PRODUCT_BOUND" "\<bar>numerator a * numerator b\<bar> < SUM_BOUND"
    by (rule product_bound product_sum_bound, (rule F)+)+
  with F show ?thesis
    by (simp add: checked_mul_def check_operands_def product_ok reduce_narrow exval_def)
qed

lemma checked_div_narrow:
  assumes a: "exact_ready a" and b: "exact_ready b"
  shows "checked_div a b = (if exval b = 0 then Inl DivisionByZero else narrow (exval a / exval b))"
proof -
  note F = ready_facts [OF a] ready_facts [OF b]
  have "\<bar>denominator a * numerator b\<bar> < PRODUCT_BOUND" "\<bar>numerator a * denominator b\<bar> < SUM_BOUND"
    by (rule product_bound product_sum_bound, (rule F)+)+
  with F show ?thesis
    by (simp add: checked_div_def check_operands_def product_ok reduce_narrow exval_def)
qed

section \<open>Sources of fractions\<close>

lemma amount_of_parts:
  assumes "d \<noteq> 0"
  shows "\<bar>numerator (amount_of (of_int n / of_int d))\<bar> \<le> \<bar>n\<bar>"
    and "\<bar>denominator (amount_of (of_int n / of_int d))\<bar> \<le> \<bar>d\<bar>"
    and "denominator (amount_of (of_int n / of_int d)) dvd d"
proof -
  let ?e = "amount_of (of_int n / of_int d)"
  have ok: "0 < denominator ?e" "coprime (numerator ?e) (denominator ?e)"
    using exact_ok_amount_of by (simp_all add: exact_ok_def)
  have "exval ?e = of_int n / of_int d" by simp
  then have "of_int (numerator ?e * d) = (of_int (n * denominator ?e) :: rat)"
    using ok(1) assms by (simp add: exval_def frac_eq_eq)
  then have cross: "numerator ?e * d = n * denominator ?e" by (simp only: of_int_eq_iff)
  then show dvd: "denominator ?e dvd d"
    using ok(2) by (metis coprime_commute coprime_dvd_mult_right_iff dvd_triv_right)
  then show "\<bar>denominator ?e\<bar> \<le> \<bar>d\<bar>" using assms by (intro dvd_imp_le_int)
  have "numerator ?e dvd n"
    using ok(2) cross by (metis coprime_dvd_mult_left_iff dvd_triv_left)
  moreover have "n = 0 \<Longrightarrow> numerator ?e = 0" using cross assms by simp
  ultimately show "\<bar>numerator ?e\<bar> \<le> \<bar>n\<bar>" by (cases "n = 0") (auto intro: dvd_imp_le_int)
qed

lemma in_budget_parts:
  assumes "d \<noteq> 0" "\<bar>n\<bar> < FINAL_BOUND" "\<bar>d\<bar> < FINAL_BOUND"
  shows "in_budget (amount_of (of_int n / of_int d))"
  using amount_of_parts(1,2) [OF assms(1), of n] assms(2,3) by (simp only: in_budget_def) linarith

lemma narrow_parts:
  assumes "d \<noteq> 0" "\<bar>n\<bar> < FINAL_BOUND" "\<bar>d\<bar> < FINAL_BOUND"
  shows "narrow (of_int n / of_int d) = Inr (amount_of (of_int n / of_int d))"
  using in_budget_parts [OF assms] by (simp add: narrow_def)

lemma power_less_bounds: "s < 256 \<Longrightarrow> 10 ^ s < FINAL_BOUND"
  by (simp only: FINAL_BOUND_def digit_bound_def) (rule power_strict_increasing, simp_all)

lemma i128_bound:
  assumes "fits_i128 c"
  shows "\<bar>c\<bar> < FINAL_BOUND"
proof -
  have "\<bar>c\<bar> \<le> 2 ^ 127" using assms by (auto simp: fits_i128_def)
  also have "\<dots> \<le> (10::int) ^ 127" by (rule power_mono) simp_all
  also have "\<dots> < FINAL_BOUND" by (rule power_less_bounds) simp
  finally show ?thesis .
qed

lemma ten_pow_bound: "s < 256 \<Longrightarrow> \<bar>ten_pow s\<bar> < FINAL_BOUND"
  using power_less_bounds [of s] by (simp add: ten_pow_def)

lemma ten_pow_nonzero [simp]: "ten_pow s \<noteq> 0" "0 < ten_pow s"
  by (simp_all add: ten_pow_def)

lemma from_coefficient_facts:
  assumes "fits_i128 c" "s < 256"
  shows "exact_ready (from_coefficient c s)" "exval (from_coefficient c s) = of_int c / 10 ^ s"
    "from_coefficient c s = amount_of (of_int c / 10 ^ s)"
  using in_budget_parts [OF ten_pow_nonzero(1) i128_bound [OF assms(1)] ten_pow_bound [OF assms(2)]]
  by (simp_all add: from_coefficient_def frac_normalize_amount_of exact_ready_def)
    (simp_all add: ten_pow_def)

lemma mantissa_i128: "fits_i128 (mantissa d)"
  using mantissa_bound [of d] by (simp add: fits_i128_def abs_less_iff)

lemma from_decimal_coefficient: "from_decimal d = from_coefficient (mantissa d) (dec_scale d)"
  by (simp add: from_decimal_def from_coefficient_def)

lemma from_decimal_facts [simp]:
  "exact_ready (from_decimal d)" "exval (from_decimal d) = dval d"
  using from_coefficient_facts [OF mantissa_i128 [of d], of "dec_scale d"] dec_scale_le [of d]
  by (simp_all add: from_decimal_coefficient dval_def)

lemma from_decimal_amount_of: "from_decimal d = amount_of (dval d)"
  by (metis amount_of_exval exact_ready_def from_decimal_facts)

section \<open>Whole numbers\<close>

lemma sdiv_nonneg: "0 \<le> (n::int) \<Longrightarrow> 0 < d \<Longrightarrow> n sdiv d = n div d"
  by (auto simp: signed_divide_int_def sgn_if)

lemma smod_nonneg: "0 \<le> (n::int) \<Longrightarrow> 0 < d \<Longrightarrow> n smod d = n mod d"
  by (simp add: signed_modulo_int_def sgn_if)

lemma sdiv_neg: "(n::int) < 0 \<Longrightarrow> 0 < d \<Longrightarrow> n sdiv d = - ((- n) div d)"
  by (simp add: signed_divide_int_def sgn_if)

lemma abs_div_le: "0 < (d::int) \<Longrightarrow> \<bar>n div d\<bar> \<le> \<bar>n\<bar>"
proof (cases "0 \<le> n")
  case True
  assume "0 < d"
  with True zdiv_mono2 [of n 1 d] show ?thesis by (simp add: pos_imp_zdiv_nonneg_iff)
next
  case False
  assume d: "0 < d"
  then have "n div d < 0" using False by (simp add: pos_imp_zdiv_neg_iff)
  moreover have "n \<le> n div d"
    using d False zdiv_mono2_neg [of n 1 d] by simp
  ultimately show ?thesis using False by simp
qed

lemma reduce_whole:
  assumes "\<bar>w\<bar> < FINAL_BOUND"
  shows "reduce w 1 = Inr (amount_of (of_int w))"
proof -
  have one: "\<bar>1\<bar> < FINAL_BOUND" using power_less_bounds [of 0] by simp
  then have "\<bar>w * 1\<bar> < SUM_BOUND" "\<bar>1 * 1\<bar> < PRODUCT_BOUND"
    by (intro product_sum_bound product_bound assms; assumption)+
  then show ?thesis
    using reduce_narrow [of 1 w] narrow_parts [OF _ assms one] by simp
qed

lemma exact_floor_value:
  assumes "exact_ready e"
  shows "exact_floor e = Inr (amount_of (of_int \<lfloor>exval e\<rfloor>))"
proof -
  note F = ready_facts [OF assms]
  let ?n = "numerator e" and ?d = "denominator e"
  have fl: "\<lfloor>exval e\<rfloor> = ?n div ?d" by (simp add: exval_def floor_divide_of_int_eq)
  have "(if ?n < 0 \<and> \<not> ?d dvd ?n then ?n sdiv ?d - 1 else ?n sdiv ?d) = ?n div ?d"
    using F(1) zdiv_zminus1_eq_if [of ?d "- ?n"]
    by (auto simp: sdiv_nonneg sdiv_neg sdiv_exact dvd_eq_mod_eq_0 [symmetric] not_less)
  then have "exact_floor e = reduce (?n div ?d) 1"
    using F(5) by (simp add: exact_floor_def Let_def)
  moreover have "\<bar>?n div ?d\<bar> < FINAL_BOUND" using abs_div_le [OF F(1), of ?n] F(3) by linarith
  ultimately show ?thesis by (simp add: reduce_whole fl)
qed

lemma exact_ceil_value:
  assumes "exact_ready e"
  shows "exact_ceil e = Inr (amount_of (of_int \<lceil>exval e\<rceil>))"
proof -
  note F = ready_facts [OF assms]
  let ?n = "numerator e" and ?d = "denominator e"
  have ce: "\<lceil>exval e\<rceil> = - ((- ?n) div ?d)"
    by (simp add: exval_def ceiling_divide_eq_div)
  have "(if 0 < ?n \<and> \<not> ?d dvd ?n then ?n sdiv ?d + 1 else ?n sdiv ?d) = - ((- ?n) div ?d)"
    using F(1) zdiv_zminus1_eq_if [of ?d ?n]
    by (auto simp: sdiv_nonneg sdiv_neg sdiv_exact dvd_eq_mod_eq_0 [symmetric] not_less le_less)
  then have "exact_ceil e = reduce (- ((- ?n) div ?d)) 1"
    using F(5) by (simp add: exact_ceil_def Let_def)
  moreover have "\<bar>- ((- ?n) div ?d)\<bar> < FINAL_BOUND" using abs_div_le [OF F(1), of "- ?n"] F(3) by linarith
  ultimately show ?thesis by (simp only: reduce_whole ce)
qed

end
