(* ===== verification/Rounding.thy ===== *)
theory Rounding
  imports Exact
begin

text \<open>
  The narrowing side of \<open>gears/bss/libs/money/src/exact.rs\<close>: \<open>round_half_even_exact\<close> against
  the mathematical round-half-to-even \<open>half_even\<close>, \<open>into_posted_exact\<close> against the validated
  amount of a rational value, and \<open>sum_posted\<close> against the sum of the values.
\<close>

section \<open>Rounding\<close>

text \<open>Rounding to the nearest integer, a tie to the even one.\<close>

definition half_even :: "rat \<Rightarrow> int" where
  "half_even q =
     (let f = \<lfloor>q\<rfloor>; r = q - of_int f
      in if r < 1 / 2 \<or> (r = 1 / 2 \<and> even f) then f else f + 1)"

lemma half_even_cases:
  obtains (down) "half_even q = \<lfloor>q\<rfloor>" "of_int \<lfloor>q\<rfloor> \<le> q" "q - of_int \<lfloor>q\<rfloor> < 1 / 2"
  | (up) "half_even q = \<lfloor>q\<rfloor> + 1" "q < of_int \<lfloor>q\<rfloor> + 1" "1 / 2 < q - of_int \<lfloor>q\<rfloor>"
  | (tie) "even (half_even q)" "\<bar>q - of_int (half_even q)\<bar> = 1 / 2"
proof -
  have "q < of_int \<lfloor>q\<rfloor> + 1" using floor_correct [of q] by simp
  moreover have "\<bar>q - (of_int \<lfloor>q\<rfloor> + 1)\<bar> = 1 / 2" if "q - of_int \<lfloor>q\<rfloor> = 1 / 2"
    using that by linarith
  ultimately show ?thesis
  proof (cases "q - of_int \<lfloor>q\<rfloor>" "1 / 2 :: rat" rule: linorder_cases)
    case less
    then show ?thesis by (intro down) (simp_all add: half_even_def Let_def)
  next
    case equal
    then show ?thesis
      using \<open>q - of_int \<lfloor>q\<rfloor> = 1 / 2 \<Longrightarrow> _\<close> by (intro tie) (auto simp: half_even_def Let_def)
  next
    case greater
    then show ?thesis
      using \<open>q < of_int \<lfloor>q\<rfloor> + 1\<close> by (intro up) (simp_all add: half_even_def Let_def)
  qed
qed

lemma half_even_nearest: "\<bar>q - of_int (half_even q)\<bar> \<le> 1 / 2"
  by (cases q rule: half_even_cases) simp_all

lemma half_even_tie: "\<bar>q - of_int (half_even q)\<bar> = 1 / 2 \<Longrightarrow> even (half_even q)"
  by (cases q rule: half_even_cases) simp_all

lemma half_even_unique:
  assumes near: "\<bar>q - of_int k\<bar> \<le> 1 / 2" and tie: "\<bar>q - of_int k\<bar> = 1 / 2 \<Longrightarrow> even k"
  shows "half_even q = k"
proof (rule ccontr)
  let ?h = "half_even q"
  assume ne: "?h \<noteq> k"
  have "\<bar>of_int ?h - of_int k :: rat\<bar> \<le> 1"
    using near half_even_nearest [of q] by linarith
  then have "of_int \<bar>?h - k\<bar> \<le> (1 :: rat)" by simp
  then have "\<bar>?h - k\<bar> \<le> 1" by (simp only: of_int_le_1_iff)
  with ne have one: "?h = k + 1 \<or> ?h = k - 1" by auto
  then have "\<bar>q - of_int k\<bar> = 1 / 2 \<and> \<bar>q - of_int ?h\<bar> = 1 / 2"
    using near half_even_nearest [of q] by (elim disjE) (simp; linarith)+
  then have "even k" "even ?h" using tie half_even_tie [of q] by blast+
  with one show False by auto
qed

lemma half_even_minus: "half_even (- q) = - half_even q"
proof (rule half_even_unique)
  have eq: "\<bar>- q - of_int (- half_even q)\<bar> = \<bar>q - of_int (half_even q)\<bar>"
    by (simp add: abs_minus_commute)
  show "\<bar>- q - of_int (- half_even q)\<bar> \<le> 1 / 2" unfolding eq by (rule half_even_nearest)
  show "even (- half_even q)" if "\<bar>- q - of_int (- half_even q)\<bar> = 1 / 2"
    using that half_even_tie [of q] unfolding eq by simp
qed

lemma half_even_div:
  assumes n: "0 \<le> n" and d: "0 < (d::int)"
  shows "half_even (of_int n / of_int d) =
    (if n mod d * 2 > d \<or> (n mod d * 2 = d \<and> odd (n div d)) then n div d + 1 else n div d)"
proof -
  have fl: "\<lfloor>of_int n / of_int d :: rat\<rfloor> = n div d" by (rule floor_divide_of_int_eq)
  have "of_int n = (of_int (n div d) * of_int d + of_int (n mod d) :: rat)"
    by (metis div_mult_mod_eq of_int_add of_int_mult)
  then have r: "of_int n / of_int d - of_int (n div d) = (of_int (n mod d) / of_int d :: rat)"
    using d by (simp add: field_simps)
  have dr: "0 < (of_int d :: rat)" using d by simp
  have "of_int (n mod d) / of_int d < (1 / 2 :: rat) \<longleftrightarrow> (of_int (n mod d * 2) :: rat) < of_int d"
    using dr by (simp add: divide_less_eq)
  then have lt: "of_int (n mod d) / of_int d < (1 / 2 :: rat) \<longleftrightarrow> n mod d * 2 < d"
    by (simp only: of_int_less_iff)
  have "of_int (n mod d) / of_int d = (1 / 2 :: rat) \<longleftrightarrow> (of_int (n mod d * 2) :: rat) = of_int d"
    using dr by (auto simp: frac_eq_eq)
  then have eq: "of_int (n mod d) / of_int d = (1 / 2 :: rat) \<longleftrightarrow> n mod d * 2 = d"
    by (simp only: of_int_eq_iff)
  show ?thesis unfolding half_even_def Let_def fl r lt eq by auto
qed

lemma round_half_even_exact_run:
  assumes e: "exact_ready e" and s: "s \<le> 28"
  shows "round_half_even_exact e s =
    reduce (half_even (of_int (numerator e * ten_pow s) / of_int (denominator e))) (ten_pow s)"
proof -
  note F = ready_facts [OF e]
  define N where "N = \<bar>numerator e\<bar> * ten_pow s"
  define d where "d = denominator e"
  have d: "0 < d" using F(1) by (simp add: d_def)
  have N: "0 \<le> N" by (simp add: N_def ten_pow_def)
  have P1: "product \<bar>numerator e\<bar> (ten_pow s) = Inr N"
    unfolding N_def by (rule product_ok) (use F(3) s ten_pow_bound [of s] in simp_all)
  have "\<bar>N mod d\<bar> < FINAL_BOUND" 
    using F(4) pos_mod_bound [OF d, of N] pos_mod_sign [OF d, of N] unfolding d_def by linarith
  then have P2: "product (N mod d) 2 = Inr (N mod d * 2)"
    by (rule product_ok) (use power_less_bounds [of 1] in simp)
  have odd: "N div d smod 2 \<noteq> 0 \<longleftrightarrow> odd (N div d)" by simp
  have H: "half_even (of_int N / of_int d) =
      (if N mod d * 2 > d \<or> (N mod d * 2 = d \<and> odd (N div d)) then N div d + 1 else N div d)"
    by (rule half_even_div [OF N d])
  have "numerator e * ten_pow s = (if numerator e < 0 then - N else N)" by (simp add: N_def)
  then have "half_even (of_int (numerator e * ten_pow s) / of_int d) =
      (if numerator e < 0 then - half_even (of_int N / of_int d) else half_even (of_int N / of_int d))"
    by (simp add: half_even_minus)
  then show ?thesis
    unfolding round_half_even_exact_def F(5) P1 rbind_simps Let_def d_def [symmetric]
      sdiv_nonneg [OF N d] smod_nonneg [OF N d] P2 odd H
    using s by simp
qed

lemma half_even_quotient_bound:
  assumes "0 < (d::int)"
  shows "\<bar>half_even (of_int n / of_int d)\<bar> \<le> \<bar>n\<bar> + 1"
proof -
  have fl: "\<lfloor>of_int n / of_int d :: rat\<rfloor> = n div d" by (rule floor_divide_of_int_eq)
  have "half_even (of_int n / of_int d) = n div d \<or> half_even (of_int n / of_int d) = n div d + 1"
    unfolding half_even_def Let_def fl by (auto split: if_splits)
  then show ?thesis using abs_div_le [OF assms, of n] by linarith
qed

lemma round_half_even_exact_narrow:
  assumes e: "exact_ready e" and s: "s \<le> 28"
  shows "round_half_even_exact e s = narrow (of_int (half_even (exval e * 10 ^ s)) / 10 ^ s)"
proof -
  note F = ready_facts [OF e]
  have small: "\<bar>ten_pow s\<bar> < FINAL_BOUND" using s by (intro ten_pow_bound) simp
  have N: "\<bar>numerator e * ten_pow s\<bar> < PRODUCT_BOUND" by (rule product_bound [OF F(3) small])
  have T: "\<bar>ten_pow s * 1\<bar> < PRODUCT_BOUND"
    by (rule product_bound [OF small]) (use power_less_bounds [of 0] in simp)
  let ?w = "half_even (of_int (numerator e * ten_pow s) / of_int (denominator e))"
  have "\<bar>?w\<bar> < SUM_BOUND"
    using half_even_quotient_bound [OF F(1), of "numerator e * ten_pow s"] N
      bounds_related(2) bounds_positive(2) by linarith
  then have "reduce ?w (ten_pow s) = narrow (of_int ?w / of_int (ten_pow s))"
    using T by (intro reduce_narrow) simp_all
  moreover have "of_int (numerator e * ten_pow s) / of_int (denominator e) = exval e * 10 ^ s"
    by (simp add: exval_def ten_pow_def)
  ultimately show ?thesis
    using round_half_even_exact_run [OF e s] by (simp add: ten_pow_def)
qed

section \<open>Narrowing to a posted amount\<close>

lemma posted_strip_facts:
  assumes "posted_strip c s = (c', s')"
  shows "s' \<le> s" "c = c' * 10 ^ (s - s')" "s' = 0 \<or> \<not> 10 dvd c'"
proof -
  have "s' \<le> s \<and> c = c' * 10 ^ (s - s') \<and> (s' = 0 \<or> \<not> 10 dvd c')"
    using assms
  proof (induction c s rule: posted_strip.induct)
    case (2 c s)
    show ?case
    proof (cases "10 dvd c")
      case True
      with 2 have IH: "s' \<le> s" "c sdiv 10 = c' * 10 ^ (s - s')" "s' = 0 \<or> \<not> 10 dvd c'" by auto
      from True have "c = (c sdiv 10) * 10" by (simp add: sdiv_exact)
      with IH show ?thesis by (simp add: Suc_diff_le)
    qed (use 2 in auto)
  qed simp
  then show "s' \<le> s" "c = c' * 10 ^ (s - s')" "s' = 0 \<or> \<not> 10 dvd c'" by simp_all
qed

lemma stripped_value:
  assumes "posted_strip c s = (c', s')"
  shows "of_int c / 10 ^ s = (of_int c' / 10 ^ s' :: rat)"
proof -
  note P = posted_strip_facts [OF assms]
  have "(10::rat) ^ s = 10 ^ (s - s') * 10 ^ s'" using P(1) by (simp flip: power_add)
  then show ?thesis by (simp add: P(2))
qed

lemma stripped_mantissa:
  assumes "posted_strip c s = (c', s')" and "dec_canonical a" and "dval a = of_int c / 10 ^ s"
  shows "mantissa a = c'"
proof -
  note P = posted_strip_facts [OF assms(1)]
  let ?t = "dec_scale a"
  have v: "of_int (mantissa a) / 10 ^ ?t = (of_int c' / 10 ^ s' :: rat)"
    using assms(3) stripped_value [OF assms(1)] by (simp add: dval_def)
  have "?t = s'"
  proof (rule ccontr)
    assume "?t \<noteq> s'"
    then consider "?t < s'" | "s' < ?t" by linarith
    then show False
    proof cases
      case 1
      then have "c' = mantissa a * 10 ^ (s' - ?t)" using scaled_eq_cancel [OF v] by simp
      moreover have "(10::int) dvd 10 ^ (s' - ?t)" using 1 by (intro dvd_power) simp
      ultimately show False using P(3) 1 by auto
    next
      case 2
      then have "mantissa a = c' * 10 ^ (?t - s')" using scaled_eq_cancel [OF v [symmetric]] by simp
      moreover have "(10::int) dvd 10 ^ (?t - s')" using 2 by (intro dvd_power) simp
      ultimately show False using assms(2) 2 by (auto simp: dec_canonical_def)
    qed
  qed
  with v show ?thesis by simp
qed

text \<open>The validated amount of value \<open>q\<close> in a currency, and when it exists.\<close>

definition represents :: "posted_money \<Rightarrow> currency_spec \<Rightarrow> rat \<Rightarrow> bool" where
  "represents m cur q \<longleftrightarrow> posted_ok m \<and> currency m = cur \<and> mval m = q"

lemma represents_unique: "represents a cur q \<Longrightarrow> represents b cur q \<Longrightarrow> a = b"
  by (simp add: represents_def posted_ok_unique)

lemma posted_try_new_represents:
  assumes D: "decimal_contract D"
  shows "posted_try_new D v cur = Inr m \<longleftrightarrow> represents m cur (dval v)"
proof
  assume r: "represents m cur (dval v)"
  have "normalize D v = normalize D (amount m)"
    using r by (intro canonical_unique) (simp_all add: contract_normalize [OF D] represents_def)
  then have "posted_try_new D v cur = posted_try_new D (amount m) (currency m)"
    using r by (simp add: posted_try_new_def validate_amount_def represents_def)
  then show "posted_try_new D v cur = Inr m" using posted_try_new_ok [OF D, of m] r by (simp add: represents_def)
qed (use posted_try_new_Inr [OF D] in \<open>simp add: represents_def\<close>)

lemma posted_cases:
  assumes D: "decimal_contract D" and s: "cur_scale cur \<le> 28"
  shows "(\<exists>m. posted D c cur = Inr m \<and> represents m cur (of_int c / 10 ^ cur_scale cur)) \<or>
    (posted D c cur = Inl (MoneyErr MoneyOutOfRange) \<and>
     \<not> (\<exists>m. represents m cur (of_int c / 10 ^ cur_scale cur)))"
proof -
  obtain c' s' where p: "posted_strip c (cur_scale cur) = (c', s')" by fastforce
  note P = posted_strip_facts [OF p]
  show ?thesis
  proof (cases "\<bar>c'\<bar> < 10 ^ 28")
    case True
    then have fits: "dec_fits c' s'" "fits_i128 c'"
      using P(1) s by (simp_all add: dec_fits_def fits_i128_def abs_less_iff)
    have "\<exists>m. posted_try_new D (Decimal c' s') cur = Inr m \<and> mval m = dval (Decimal c' s') \<and>
        currency m = cur \<and> posted_ok m"
      using fits True P(1) by (intro posted_try_new_complete [OF D]) simp_all
    then obtain m where m: "posted_try_new D (Decimal c' s') cur = Inr m" "mval m = of_int c' / 10 ^ s'"
        "currency m = cur" "posted_ok m"
      using fits by auto
    then have "posted D c cur = Inr m"
      using p fits True by (simp add: posted_def ten_pow_def contract_try_from [OF D])
    with m stripped_value [OF p] show ?thesis by (auto simp: represents_def)
  next
    case False
    then have "posted D c cur = Inl (MoneyErr MoneyOutOfRange)"
      using p by (simp add: posted_def ten_pow_def)
    moreover have "\<not> represents m cur (of_int c / 10 ^ cur_scale cur)" for m
      using stripped_mantissa [OF p, of "amount m"] False by (auto simp: represents_def posted_ok_def)
    ultimately show ?thesis by blast
  qed
qed

definition on_grid :: "rat \<Rightarrow> nat \<Rightarrow> bool" where
  "on_grid q s \<longleftrightarrow> q * 10 ^ s \<in> \<int>"

lemma represents_on_grid:
  assumes "represents m cur q"
  shows "on_grid q (cur_scale cur)"
proof -
  let ?a = "amount m"
  have le: "dec_scale ?a \<le> cur_scale cur" and q: "q = of_int (mantissa ?a) / 10 ^ dec_scale ?a"
    using assms by (auto simp: represents_def posted_ok_def dval_def)
  have "q * 10 ^ cur_scale cur = of_int (mantissa ?a * 10 ^ (cur_scale cur - dec_scale ?a))"
    unfolding q scaled_shift [OF le] by simp
  then show ?thesis unfolding on_grid_def by (metis Ints_of_int)
qed

lemma exval_grid:
  assumes "exact_ok e"
  shows "denominator e dvd numerator e * 10 ^ s \<longleftrightarrow> on_grid (exval e) s"
proof
  have d: "denominator e \<noteq> 0" using assms by (simp add: exact_ok_def)
  {
    assume "denominator e dvd numerator e * 10 ^ s"
    then obtain k where "numerator e * 10 ^ s = denominator e * k" by (rule dvdE)
    then have "of_int (numerator e) * 10 ^ s = (of_int (denominator e) * of_int k :: rat)"
      by (metis of_int_mult of_int_numeral of_int_power)
    then have "exval e * 10 ^ s = of_int k" using d by (simp add: exval_def field_simps)
    then show "on_grid (exval e) s" by (simp add: on_grid_def)
  next
    assume "on_grid (exval e) s"
    then obtain k where "exval e * 10 ^ s = of_int k" by (auto simp: on_grid_def elim: Ints_cases)
    then have "of_int (numerator e * 10 ^ s) = (of_int (denominator e * k) :: rat)"
      using d by (simp add: exval_def field_simps)
    then show "denominator e dvd numerator e * 10 ^ s" by (simp only: of_int_eq_iff dvd_triv_left)
  }
qed

lemma into_posted_exact_cases:
  assumes D: "decimal_contract D" and e: "exact_ready e" and s: "cur_scale cur \<le> 28"
  shows "(\<exists>m. into_posted_exact D e cur = Inr m \<and> represents m cur (exval e)) \<or>
    (\<not> (\<exists>m. represents m cur (exval e)) \<and> into_posted_exact D e cur =
       Inl (MoneyErr (if on_grid (exval e) (cur_scale cur) then MoneyOutOfRange else InvalidPostingIncrement)))"
proof -
  note F = ready_facts [OF e]
  let ?s = "cur_scale cur" and ?d = "denominator e"
  let ?n = "numerator e * 10 ^ ?s"
  have "product (numerator e) (ten_pow ?s) = Inr ?n"
    using product_ok [OF F(3) ten_pow_bound, of ?s] s by (simp add: ten_pow_def)
  then have run: "into_posted_exact D e cur =
      (if \<not> ?d dvd ?n then Inl (MoneyErr InvalidPostingIncrement) else posted D (?n sdiv ?d) cur)"
    using F(5) by (simp add: into_posted_exact_def)
  show ?thesis
  proof (cases "?d dvd ?n")
    case True
    then have "of_int (?n div ?d) = (of_int ?n / of_int ?d :: rat)" by (rule of_int_div)
    then have "of_int (?n div ?d) / 10 ^ ?s = exval e" by (simp add: exval_def)
    moreover have "on_grid (exval e) ?s" using True e exval_grid by (simp add: exact_ready_def)
    ultimately show ?thesis using posted_cases [OF D s, of "?n div ?d"] True run by (auto simp: sdiv_exact)
  next
    case False
    then have "\<not> on_grid (exval e) ?s" using e exval_grid by (simp add: exact_ready_def)
    with False run represents_on_grid show ?thesis by auto
  qed
qed

lemma into_posted_exact_Inr:
  assumes "decimal_contract D" "exact_ready e" "cur_scale cur \<le> 28"
  shows "into_posted_exact D e cur = Inr m \<longleftrightarrow> represents m cur (exval e)"
  using into_posted_exact_cases [OF assms] represents_unique by fastforce

lemma into_posted_exact_Inl:
  assumes "decimal_contract D" "exact_ready e" "cur_scale cur \<le> 28"
  shows "into_posted_exact D e cur = Inl err \<longleftrightarrow>
    (\<forall>m. \<not> represents m cur (exval e)) \<and>
    err = MoneyErr (if on_grid (exval e) (cur_scale cur) then MoneyOutOfRange else InvalidPostingIncrement)"
  using into_posted_exact_cases [OF assms] by fastforce

section \<open>Sums of carriers stay within the budget\<close>

text \<open>A sum of \<open>k\<close> carriers: a multiple of \<open>10^-28\<close> of bounded size.\<close>

definition dec_grid :: "nat \<Rightarrow> rat \<Rightarrow> bool" where
  "dec_grid k q \<longleftrightarrow> (\<exists>n. q = of_int n / 10 ^ 28 \<and> \<bar>n\<bar> \<le> int k * 10 ^ 57)"

lemma dec_grid_zero [simp]: "dec_grid k 0"
  unfolding dec_grid_def by (rule exI [of _ 0]) simp

lemma dec_grid_dval: "dec_grid 1 (dval d)"
proof -
  let ?n = "mantissa d * 10 ^ (28 - dec_scale d)"
  have "dval d = of_int ?n / 10 ^ 28"
    unfolding dval_def scaled_shift [OF dec_scale_le] ..
  moreover have "(10::int) ^ (28 - dec_scale d) \<le> 10 ^ 28" by (rule power_increasing) simp_all
  then have "\<bar>?n\<bar> \<le> 10 ^ 29 * 10 ^ 28"
    unfolding abs_mult using mantissa_bound [of d] by (intro mult_mono) simp_all
  ultimately show ?thesis unfolding dec_grid_def by (intro exI [of _ ?n]) simp
qed

lemma dec_grid_add:
  assumes "dec_grid j p" "dec_grid k q"
  shows "dec_grid (j + k) (p + q)"
proof -
  obtain m n where "p = of_int m / 10 ^ 28" "q = of_int n / 10 ^ 28"
      and "\<bar>m\<bar> \<le> int j * 10 ^ 57" "\<bar>n\<bar> \<le> int k * 10 ^ 57"
    using assms unfolding dec_grid_def by blast
  then have "p + q = of_int (m + n) / 10 ^ 28" "\<bar>m + n\<bar> \<le> int (j + k) * 10 ^ 57"
    by (simp_all add: add_divide_distrib distrib_right)
  then show ?thesis unfolding dec_grid_def by blast
qed

lemma dec_grid_minus [simp]: "dec_grid k (- q) \<longleftrightarrow> dec_grid k q"
proof -
  have "dec_grid k (- q)" if "dec_grid k q" for q
    using that unfolding dec_grid_def by (metis abs_minus_cancel minus_divide_left of_int_minus)
  from this [of q] this [of "- q"] show ?thesis by auto
qed

lemma dec_grid_narrow:
  assumes "dec_grid k q" "k \<le> 2 ^ 128"
  shows "narrow q = Inr (amount_of q)"
proof -
  obtain n where n: "q = of_int n / of_int (10 ^ 28)" "\<bar>n\<bar> \<le> int k * 10 ^ 57"
    using assms(1) by (auto simp: dec_grid_def)
  have "int k \<le> 2 ^ 128" using assms(2) by (metis of_nat_le_iff of_nat_numeral of_nat_power)
  also have "\<dots> \<le> (10::int) ^ 39" by simp
  finally have "int k * 10 ^ 57 \<le> 10 ^ 39 * 10 ^ 57" by (intro mult_right_mono) simp_all
  also have "\<dots> = (10::int) ^ 96" by simp
  also have "\<dots> < FINAL_BOUND" by (rule power_less_bounds) simp
  finally have "\<bar>n\<bar> < FINAL_BOUND" using n(2) by linarith
  moreover have "\<bar>10 ^ 28\<bar> < FINAL_BOUND" using power_less_bounds [of 28] by simp
  ultimately show ?thesis unfolding n(1) by (intro narrow_parts) simp_all
qed

lemma dec_grid_ready:
  assumes "dec_grid k q" "k \<le> 2 ^ 128"
  shows "exact_ready (amount_of q)"
  using narrow_ready [OF dec_grid_narrow [OF assms]] by simp

lemma fold_add_value:
  assumes "length xs \<le> 2 ^ 64"
  shows "fold_result (\<lambda>v total. checked_add total (from_decimal (f v))) xs (from_decimal dec_zero) =
    Inr (amount_of (\<Sum>v\<leftarrow>xs. dval (f v))) \<and> dec_grid (length xs) (\<Sum>v\<leftarrow>xs. dval (f v))"
  using assms
proof (induction xs rule: rev_induct)
  case Nil
  then show ?case by (simp add: from_decimal_amount_of)
next
  case (snoc x xs)
  let ?q = "\<Sum>v\<leftarrow>xs. dval (f v)"
  have IH: "dec_grid (length xs) ?q" using snoc by simp
  have g: "dec_grid (length xs + 1) (?q + dval (f x))" by (intro dec_grid_add IH dec_grid_dval)
  have len: "length xs + 1 \<le> 2 ^ 128" "length xs \<le> 2 ^ 128" using snoc.prems by simp_all
  have "checked_add (amount_of ?q) (from_decimal (f x)) = narrow (?q + dval (f x))"
    using dec_grid_ready [OF IH len(2)] by (simp add: checked_add_narrow)
  with snoc g dec_grid_narrow [OF g len(1)] show ?case by (simp add: fold_result_append)
qed

lemma sum_posted_run:
  assumes "length xs \<le> 2 ^ 64" and "\<forall>v\<in>set xs. currency v = cur"
  shows "sum_posted D xs cur = into_posted_exact D (amount_of (\<Sum>v\<leftarrow>xs. mval v)) cur"
  using fold_add_value [OF assms(1), of amount] assms(2) by (simp add: sum_posted_def each_result_ok)

lemma sum_posted_Inr:
  assumes D: "decimal_contract D" and s: "cur_scale cur \<le> 28" and len: "length xs \<le> 2 ^ 64"
  shows "sum_posted D xs cur = Inr m \<longleftrightarrow>
    (\<forall>v\<in>set xs. currency v = cur) \<and> represents m cur (\<Sum>v\<leftarrow>xs. mval v)"
proof (cases "\<forall>v\<in>set xs. currency v = cur")
  case True
  have "exact_ready (amount_of (\<Sum>v\<leftarrow>xs. mval v))"
    using fold_add_value [OF len, of amount] len by (intro dec_grid_ready [of "length xs"]) simp_all
  with True show ?thesis
    by (simp add: sum_posted_run [OF len] into_posted_exact_Inr [OF D _ s])
next
  case False
  then show ?thesis by (auto simp: sum_posted_def)
qed

end
