(* ===== verification/Exact_Text.thy ===== *)
theory Exact_Text
  imports Rounding
begin

text \<open>
  The text forms of \<open>gears/bss/libs/money/src/exact.rs\<close>: \<open>parse_decimal\<close> (here
  \<open>exact_parse_decimal\<close>), \<open>canonical_integer\<close>, \<open>parse_fraction\<close>, \<open>canonical_fraction\<close>,
  \<open>canonical_at_scale\<close> and \<open>Display\<close> (here \<open>exact_display\<close>).  A reduced fraction has one text and
  \<open>parse_fraction\<close> accepts that text and no other; a terminating fraction printed at a scale is read
  back by \<open>exact_parse_decimal\<close>.
\<close>

section \<open>Operations\<close>

definition INTEGER_TEXT_DIGITS :: nat where "INTEGER_TEXT_DIGITS = 256"
definition DECIMAL_INTEGER_DIGITS :: nat where "DECIMAL_INTEGER_DIGITS = 60"
definition DECIMAL_FRACTION_DIGITS :: nat where "DECIMAL_FRACTION_DIGITS = 28"
definition DECIMAL_TEXT_BYTES :: nat where "DECIMAL_TEXT_BYTES = 128"

text \<open>\<open>BigInt::parse_bytes(_, 10)\<close> on the digits its callers have validated.\<close>

definition parse_digits :: "string \<Rightarrow> exact_error + int" where
  "parse_digits t = ok_or (MoneyErr InvalidDecimal) (map_option int (parse_digits_nat t))"

definition exact_parse_decimal :: "string \<Rightarrow> exact_error + exact_amount" where
  "exact_parse_decimal t =
     (if length t > DECIMAL_TEXT_BYTES then Inl (MoneyErr InvalidDecimal)
      else rbind (map_err MoneyErr (split_decimal t)) (\<lambda>parts.
        let s = length (fraction parts)
        in if s > DECIMAL_FRACTION_DIGITS then Inl (MoneyErr InvalidDecimal)
           else if length (integer parts) > DECIMAL_INTEGER_DIGITS then Inl (MoneyErr MoneyOutOfRange)
           else rbind (parse_digits (integer parts @ fraction parts)) (\<lambda>magnitude.
             let n = (if negative parts then - magnitude else magnitude)
             in Inr (frac_normalize n (ten_pow s)))))"

definition strip_minus :: "string \<Rightarrow> string" where
  "strip_minus t = (case t of [] \<Rightarrow> [] | c # r \<Rightarrow> if c = CHR ''-'' then r else t)"

definition canonical_integer :: "string \<Rightarrow> exact_error + int" where
  "canonical_integer t =
     (let digits = strip_minus t
      in if length digits > INTEGER_TEXT_DIGITS
         then (if hd digits \<noteq> CHR ''0'' \<and> list_all is_ascii_digit digits
               then Inl ArithmeticLimit else Inl (MoneyErr InvalidDecimal))
         else if CHR ''.'' \<in> set t then Inl (MoneyErr InvalidDecimal)
         else rbind (map_err MoneyErr (split_decimal t)) (\<lambda>parts.
           rbind (parse_digits (integer parts)) (\<lambda>magnitude.
             Inr (if negative parts then - magnitude else magnitude))))"

definition parse_fraction :: "string \<Rightarrow> string \<Rightarrow> exact_error + exact_amount" where
  "parse_fraction nt dt =
     rbind (canonical_integer nt) (\<lambda>n.
     rbind (canonical_integer dt) (\<lambda>d.
       if d = 0 then Inl DivisionByZero
       else if d < 0 \<or> big_gcd n d \<noteq> 1 then Inl (MoneyErr InvalidDecimal)
       else Inr \<lparr>numerator = n, denominator = d\<rparr>))"

definition canonical_fraction :: "exact_amount \<Rightarrow> string \<times> string" where
  "canonical_fraction e = (show_int (numerator e), show_int (denominator e))"

definition canonical_at_scale :: "exact_amount \<Rightarrow> nat \<Rightarrow> exact_error + string" where
  "canonical_at_scale e s =
     (if s > 28 then Inl (MoneyErr ScaleOutOfRange)
      else rbind (check_budget e) (\<lambda>_.
        rbind (product (numerator e) (ten_pow s)) (\<lambda>scaled.
          if scaled smod denominator e \<noteq> 0 then Inl (MoneyErr InvalidPostingIncrement)
          else
            let coefficient = scaled sdiv denominator e;
                digits = show_nat (nat \<bar>coefficient\<bar>)
            in if coefficient = 0 then Inr ''0''
               else
                 let sign = (if coefficient < 0 then ''-'' else [])
                 in if s = 0 then Inr (sign @ digits)
                    else
                      let padded = (if length digits \<le> s then zeros (s + 1 - length digits) @ digits
                                    else digits);
                          whole = take (length padded - s) padded;
                          frac = trim_zeros (drop (length padded - s) padded)
                      in if frac = [] then Inr (sign @ whole)
                         else Inr (sign @ whole @ ''.'' @ frac))))"

text \<open>The scales \<open>0..=28\<close> are tried in order.\<close>

primrec display_from :: "exact_amount \<Rightarrow> nat list \<Rightarrow> string" where
  "display_from e [] = show_int (numerator e) @ ''/'' @ show_int (denominator e)"
| "display_from e (s # ss) =
     (case canonical_at_scale e s of Inr t \<Rightarrow> t | Inl _ \<Rightarrow> display_from e ss)"

definition exact_display :: "exact_amount \<Rightarrow> string" where
  "exact_display e = display_from e [0..<29]"

section \<open>Plain decimal text\<close>

definition plain_text :: "bool \<Rightarrow> string \<Rightarrow> string \<Rightarrow> string" where
  "plain_text neg i f = (if neg then ''-'' else []) @ i @ (if f = [] then [] else CHR ''.'' # f)"

definition plain_parts :: "bool \<Rightarrow> string \<Rightarrow> string \<Rightarrow> bool" where
  "plain_parts neg i f \<longleftrightarrow> plain_digits i \<and> list_all is_ascii_digit f \<and>
     (f \<noteq> [] \<longrightarrow> last f \<noteq> CHR ''0'') \<and> \<not> (neg \<and> i = ''0'' \<and> f = [])"

lemma digit_not_sign: "is_ascii_digit c \<Longrightarrow> c \<noteq> CHR ''-'' \<and> c \<noteq> CHR ''.''"
  by (auto simp: is_ascii_digit_def)

lemma digits_no_point: "list_all is_ascii_digit s \<Longrightarrow> CHR ''.'' \<notin> set s"
  using digit_not_sign by (auto simp: list_all_iff)

lemma takeWhile_no_point:
  "list_all is_ascii_digit i \<Longrightarrow> takeWhile (\<lambda>c. c \<noteq> CHR ''.'') (i @ CHR ''.'' # f) = i"
  using digits_no_point by (subst takeWhile_append2) auto

lemma split_once_point_plain:
  assumes "list_all is_ascii_digit i"
  shows "split_once_point i = (i, None)" "split_once_point (i @ CHR ''.'' # f) = (i, Some f)"
  using digits_no_point [OF assms] takeWhile_no_point [OF assms] by (simp_all add: split_once_point_def Let_def)

lemma trim_zeros_id: "f \<noteq> [] \<Longrightarrow> last f \<noteq> CHR ''0'' \<Longrightarrow> trim_zeros f = f"
  by (cases f rule: rev_cases) (simp_all add: trim_zeros_def)

lemma trim_zeros_facts:
  obtains k where "f = trim_zeros f @ zeros k" "trim_zeros f \<noteq> [] \<longrightarrow> last (trim_zeros f) \<noteq> CHR ''0''"
proof -
  let ?z = "\<lambda>c. c = CHR ''0''"
  have "rev f = takeWhile ?z (rev f) @ dropWhile ?z (rev f)" by simp
  then have "f = trim_zeros f @ rev (takeWhile ?z (rev f))"
    unfolding trim_zeros_def by (metis rev_append rev_rev_ident)
  moreover have "rev (takeWhile ?z (rev f)) = zeros (length (takeWhile ?z (rev f)))"
    unfolding zeros_def by (rule replicate_eqI) (auto dest: set_takeWhileD)
  moreover have "trim_zeros f \<noteq> [] \<longrightarrow> last (trim_zeros f) \<noteq> CHR ''0''"
    using hd_dropWhile [of ?z "rev f"] by (simp add: trim_zeros_def last_rev)
  ultimately show ?thesis using that by metis
qed

lemma split_decimal_plain:
  assumes "plain_parts neg i f"
  shows "split_decimal (plain_text neg i f) = Inr \<lparr>negative = neg, integer = i, fraction = f\<rparr>"
proof -
  have i: "i \<noteq> []" "list_all is_ascii_digit i" "\<not> (1 < length i \<and> hd i = CHR ''0'')"
    using assms by (auto simp: plain_parts_def plain_digits_def)
  from i obtain c r where cr: "i = c # r" "c \<noteq> CHR ''-''" using digit_not_sign by (cases i) auto
  show ?thesis
    using assms i cr split_once_point_plain [OF i(2)] trim_zeros_id [of f]
    by (cases "f = []") (auto simp: split_decimal_def plain_text_def plain_parts_def Let_def)
qed

text \<open>Conversely, accepted text without a point is the sign and the digits it is split into.\<close>

lemma split_decimal_integer:
  assumes "split_decimal t = Inr p" "CHR ''.'' \<notin> set t"
  shows "t = plain_text (negative p) (integer p) []" "plain_parts (negative p) (integer p) []"
    "fraction p = []"
proof -
  have "split_once_point u = (u, None)" if "CHR ''.'' \<notin> set u" for u
    using that by (simp add: split_once_point_def)
  with assms show "t = plain_text (negative p) (integer p) []"
      "plain_parts (negative p) (integer p) []" "fraction p = []"
    by (auto simp: split_decimal_def plain_text_def plain_parts_def plain_digits_def Let_def
        split: if_splits list.splits)
qed

section \<open>Integers and fractions\<close>

lemma parse_digits_plain: "s \<noteq> [] \<Longrightarrow> list_all is_ascii_digit s \<Longrightarrow> parse_digits s = Inr (int (digits_val s))"
  by (simp add: parse_digits_def parse_digits_nat_def)

lemma plain_digits_length:
  assumes "plain_digits s" "digits_val s < 10 ^ w" "0 < w"
  shows "length s \<le> w"
  using length_show_nat_le [OF assms(2,3)] show_nat_digits_val [OF assms(1)] by simp

lemma nat_less_power: "\<bar>k\<bar> < 10 ^ w \<Longrightarrow> nat \<bar>k\<bar> < 10 ^ w"
  by (simp add: nat_less_iff)

lemma show_int_plain:
  "show_int k = plain_text (k < 0) (show_nat (nat \<bar>k\<bar>)) []" "plain_parts (k < 0) (show_nat (nat \<bar>k\<bar>)) []"
proof -
  have "show_nat n \<noteq> ''0''" if "0 < n" for n using show_nat_no_leading_zero [OF that] by auto
  then show "plain_parts (k < 0) (show_nat (nat \<bar>k\<bar>)) []" by (auto simp: plain_parts_def)
qed (simp add: show_int_def plain_text_def)

lemma plain_text_show_int:
  assumes "plain_parts neg i []"
  shows "plain_text neg i [] = show_int (if neg then - int (digits_val i) else int (digits_val i))"
proof -
  have i: "show_nat (digits_val i) = i" using assms by (simp add: plain_parts_def show_nat_digits_val)
  have "neg \<Longrightarrow> digits_val i \<noteq> 0" using assms i show_nat_zero by (metis plain_parts_def)
  with i show ?thesis by (auto simp: plain_text_def show_int_def)
qed

lemma strip_minus_plain:
  assumes "list_all is_ascii_digit i" "i \<noteq> []"
  shows "strip_minus (plain_text neg i []) = i" "CHR ''.'' \<notin> set (plain_text neg i [])"
  using assms digit_not_sign digits_no_point [OF assms(1)]
  by (cases i; auto simp: strip_minus_def plain_text_def)+

lemma canonical_integer_show:
  assumes "\<bar>k\<bar> < FINAL_BOUND"
  shows "canonical_integer (show_int k) = Inr k"
proof -
  let ?i = "show_nat (nat \<bar>k\<bar>)"
  have "nat \<bar>k\<bar> < 10 ^ 256"
    using assms by (intro nat_less_power) (simp only: FINAL_BOUND_def digit_bound_def)
  then have len: "length ?i \<le> 256" by (rule length_show_nat_le) simp
  have "strip_minus (show_int k) = ?i" "CHR ''.'' \<notin> set (show_int k)"
      "split_decimal (show_int k) = Inr \<lparr>negative = k < 0, integer = ?i, fraction = []\<rparr>"
    unfolding show_int_plain(1) using split_decimal_plain [OF show_int_plain(2)]
    by (simp_all add: strip_minus_plain show_nat_digits)
  then show ?thesis
    using len parse_digits_plain [OF show_nat_nonempty show_nat_digits, of "nat \<bar>k\<bar>"]
    by (simp add: canonical_integer_def INTEGER_TEXT_DIGITS_def Let_def)
qed

lemma canonical_integer_Inr:
  "canonical_integer t = Inr k \<longleftrightarrow> \<bar>k\<bar> < FINAL_BOUND \<and> t = show_int k"
proof
  assume L: "canonical_integer t = Inr k"
  then obtain p m where no: "CHR ''.'' \<notin> set t" and p: "split_decimal t = Inr p"
      and len: "length (strip_minus t) \<le> 256" and m: "parse_digits (integer p) = Inr m"
      and k: "k = (if negative p then - m else m)"
    by (auto simp: canonical_integer_def INTEGER_TEXT_DIGITS_def Let_def split: if_splits)
  note S = split_decimal_integer [OF p no]
  have i: "integer p \<noteq> []" "list_all is_ascii_digit (integer p)"
    using S(2) by (simp_all add: plain_parts_def plain_digits_def)
  have m': "m = int (digits_val (integer p))" using m parse_digits_plain [OF i] by simp
  have "t = show_int k" using S(1) plain_text_show_int [OF S(2)] by (simp add: k m')
  moreover have "length (integer p) \<le> 256" using len strip_minus_plain [OF i(2,1)] S(1) by metis
  then have "10 ^ length (integer p) \<le> FINAL_BOUND" by (rule power_le_bounds)
  moreover have "int (digits_val (integer p)) < int (10 ^ length (integer p))"
    using digits_val_less [OF i(2)] by (simp only: of_nat_less_iff)
  then have "int (digits_val (integer p)) < 10 ^ length (integer p)" by (simp only: of_nat_power of_nat_numeral)
  ultimately have "t = show_int k" "int (digits_val (integer p)) < FINAL_BOUND" by linarith+
  then show "\<bar>k\<bar> < FINAL_BOUND \<and> t = show_int k" by (simp add: k m')
qed (auto simp: canonical_integer_show)

lemma parse_fraction_Inr:
  "parse_fraction nt dt = Inr e \<longleftrightarrow> exact_ready e \<and> canonical_fraction e = (nt, dt)"
proof -
  have "parse_fraction nt dt = Inr e \<longleftrightarrow>
      canonical_integer nt = Inr (numerator e) \<and> canonical_integer dt = Inr (denominator e) \<and> exact_ok e"
    by (cases e) (fastforce simp: parse_fraction_def exact_ok_def coprime_iff_gcd_eq_1 split: if_splits)
  then show ?thesis
    unfolding canonical_integer_Inr canonical_fraction_def exact_ready_def in_budget_def by blast
qed

section \<open>Decimal text at a scale\<close>

text \<open>The digits of a positive coefficient, padded so that one digit stays before the point.\<close>

definition padded_digits :: "nat \<Rightarrow> nat \<Rightarrow> string" where
  "padded_digits n s =
     (let digits = show_nat n
      in if length digits \<le> s then zeros (s + 1 - length digits) @ digits else digits)"

lemma padded_digits_split:
  fixes n s
  defines "p \<equiv> padded_digits n s"
  defines "whole \<equiv> take (length p - s) p" and "tail \<equiv> drop (length p - s) p"
  shows "plain_digits whole" "list_all is_ascii_digit tail" "length tail = s" "digits_val (whole @ tail) = n"
proof -
  let ?d = "show_nat n"
  have all: "list_all is_ascii_digit p" by (simp add: p_def padded_digits_def Let_def show_nat_digits)
  have long: "s < length p" by (simp add: p_def padded_digits_def Let_def)
  then show "length tail = s" by (simp add: tail_def)
  show "list_all is_ascii_digit tail"
    using all unfolding tail_def list_all_iff by (meson in_set_dropD)
  have w: "list_all is_ascii_digit whole"
    using all unfolding whole_def list_all_iff by (meson in_set_takeD)
  have "digits_val p = n" by (simp add: p_def padded_digits_def Let_def digits_val_append)
  then show "digits_val (whole @ tail) = n" by (simp add: whole_def tail_def)
  have "hd whole \<noteq> CHR ''0''" if "1 < length whole"
  proof -
    from that have "\<not> length ?d \<le> s" by (auto simp: whole_def p_def padded_digits_def Let_def split: if_splits)
    then have "p = ?d" by (simp add: p_def padded_digits_def)
    moreover have "1 < length ?d" using that \<open>p = ?d\<close> by (simp add: whole_def)
    ultimately have "hd p \<noteq> CHR ''0''" using plain_digits_show_nat [of n] by (simp add: plain_digits_def)
    then show ?thesis using long by (simp add: whole_def hd_take)
  qed
  moreover have "whole \<noteq> []" using long by (auto simp: whole_def)
  ultimately show "plain_digits whole" using w by (simp add: plain_digits_def)
qed

definition scale_text :: "int \<Rightarrow> nat \<Rightarrow> string" where
  "scale_text c s =
     (let p = padded_digits (nat \<bar>c\<bar>) s
      in plain_text (c < 0) (take (length p - s) p) (trim_zeros (drop (length p - s) p)))"

lemma scale_text_parts:
  obtains i f where "scale_text c s = plain_text (c < 0) i f" "plain_parts (c < 0) i f"
    "length f \<le> s" "digits_val (i @ f) * 10 ^ (s - length f) = nat \<bar>c\<bar>"
proof -
  define p where "p = padded_digits (nat \<bar>c\<bar>) s"
  define i where "i = take (length p - s) p"
  define g where "g = drop (length p - s) p"
  note S = padded_digits_split [of "nat \<bar>c\<bar>" s, folded p_def, folded i_def g_def]
  obtain k where g: "g = trim_zeros g @ zeros k" and
      l: "trim_zeros g \<noteq> [] \<longrightarrow> last (trim_zeros g) \<noteq> CHR ''0''"
    by (rule trim_zeros_facts)
  let ?f = "trim_zeros g"
  have len: "length ?f + k = s" using S(3) g by (metis length_append length_zeros)
  have "digits_val ((i @ ?f) @ zeros k) = nat \<bar>c\<bar>" using S(4) g by (metis append_assoc)
  then have v: "digits_val (i @ ?f) * 10 ^ (s - length ?f) = nat \<bar>c\<bar>"
    using len by (simp only: digits_val_append [of "i @ ?f" "zeros k"]) auto
  have f: "list_all is_ascii_digit ?f" using S(2) g by (metis list_all_append)
  have "\<not> (c < 0 \<and> i = ''0'' \<and> ?f = [])" using v by (auto simp: digits_val_def digit_val_def)
  with S(1) f l have "plain_parts (c < 0) i ?f" by (simp add: plain_parts_def)
  with that [of i ?f] v len show thesis by (simp add: scale_text_def Let_def p_def i_def g_def)
qed

lemma scale_text_code:
  "scale_text c s =
     (let digits = show_nat (nat \<bar>c\<bar>); sign = (if c < 0 then ''-'' else [])
      in if c = 0 then ''0''
         else if s = 0 then sign @ digits
         else let padded = (if length digits \<le> s then zeros (s + 1 - length digits) @ digits else digits);
                  whole = take (length padded - s) padded;
                  tail = trim_zeros (drop (length padded - s) padded)
              in if tail = [] then sign @ whole else sign @ whole @ ''.'' @ tail)"
proof -
  consider "c = 0" | "c \<noteq> 0" "s = 0" | "c \<noteq> 0" "0 < s" by blast
  then show ?thesis
  proof cases
    case 1
    then show ?thesis
      by (simp add: scale_text_def padded_digits_def Let_def plain_text_def trim_zeros_def zeros_def)
  next
    case 2
    then show ?thesis by (simp add: scale_text_def padded_digits_def Let_def plain_text_def trim_zeros_def)
  next
    case 3
    have eq: "(if length (show_nat n) \<le> s then zeros (s + 1 - length (show_nat n)) @ show_nat n
        else show_nat n) = padded_digits n s" for n
      by (simp add: padded_digits_def Let_def)
    from 3 show ?thesis unfolding scale_text_def plain_text_def Let_def eq by simp
  qed
qed

lemma canonical_at_scale_run:
  assumes e: "exact_ready e" and s: "s \<le> 28"
  shows "canonical_at_scale e s =
    (if on_grid (exval e) s then Inr (scale_text (numerator e * 10 ^ s div denominator e) s)
     else Inl (MoneyErr InvalidPostingIncrement))"
proof -
  note F = ready_facts [OF e]
  let ?n = "numerator e * 10 ^ s" and ?d = "denominator e"
  have pr: "product (numerator e) (ten_pow s) = Inr ?n"
    using product_ok [OF F(3) ten_pow_bound, of s] s by (simp add: ten_pow_def)
  have grid: "?d dvd ?n \<longleftrightarrow> on_grid (exval e) s" using e exval_grid by (simp add: exact_ready_def)
  have "canonical_at_scale e s =
      (if \<not> on_grid (exval e) s then Inl (MoneyErr InvalidPostingIncrement)
       else Inr (scale_text (?n sdiv ?d) s))"
    unfolding canonical_at_scale_def pr F(5) rbind_simps smod_zero_dvd grid scale_text_code Let_def
    using s by (simp only: if_distrib [of Inr] not_less [symmetric] if_False not_not cong: if_cong)
  then show ?thesis by (simp add: grid [symmetric] sdiv_exact)
qed

lemma exact_parse_plain:
  assumes p: "plain_parts neg i f" and f: "length f \<le> 28" and i: "length i \<le> 60"
  shows "exact_parse_decimal (plain_text neg i f) =
    Inr (amount_of ((if neg then - 1 else 1) * of_nat (digits_val (i @ f)) / 10 ^ length f))"
proof -
  have d: "i @ f \<noteq> []" "list_all is_ascii_digit (i @ f)"
    using p by (auto simp: plain_parts_def plain_digits_def)
  have len: "length (plain_text neg i f) \<le> 128" using f i by (simp add: plain_text_def)
  show ?thesis
    using f i len
    by (simp add: exact_parse_decimal_def split_decimal_plain [OF p] parse_digits_plain [OF d] Let_def
        DECIMAL_TEXT_BYTES_def DECIMAL_FRACTION_DIGITS_def DECIMAL_INTEGER_DIGITS_def
        frac_normalize_amount_of ten_pow_def)
qed

lemma exact_parse_scale_text:
  assumes s: "s \<le> 28" and c: "\<bar>c\<bar> < 10 ^ (60 + s)"
  shows "exact_parse_decimal (scale_text c s) = Inr (amount_of (of_int c / 10 ^ s))"
proof -
  obtain i f where t: "scale_text c s = plain_text (c < 0) i f" and p: "plain_parts (c < 0) i f"
      and f: "length f \<le> s" and v: "digits_val (i @ f) * 10 ^ (s - length f) = nat \<bar>c\<bar>"
    by (rule scale_text_parts)
  have "(digits_val i * 10 ^ length f + digits_val f) * 10 ^ (s - length f) < 10 ^ (60 + s)"
    using v c by (simp add: digits_val_append [symmetric] nat_less_iff)
  moreover have "(10::nat) ^ (60 + s) = (10 ^ 60 * 10 ^ length f) * 10 ^ (s - length f)"
    using f by (simp only: power_add [symmetric]) simp
  ultimately have "digits_val i * 10 ^ length f + digits_val f < 10 ^ 60 * 10 ^ length f"
    by (simp only: mult_less_cancel2)
  then have "digits_val i * 10 ^ length f < 10 ^ 60 * 10 ^ length f" by linarith
  then have "digits_val i < 10 ^ 60" by (simp only: mult_less_cancel2)
  then have i: "length i \<le> 60" using p by (intro plain_digits_length) (simp_all add: plain_parts_def)
  have "(if c < 0 then - 1 else 1) * of_nat (nat \<bar>c\<bar>) = (of_int c :: rat)" by simp
  then have "of_int c / 10 ^ s =
      (if c < 0 then - 1 else 1) * of_nat (digits_val (i @ f)) * 10 ^ (s - length f) / (10 ^ s :: rat)"
    unfolding v [symmetric] by (simp add: algebra_simps)
  also have "\<dots> = (if c < 0 then - 1 else 1) * of_nat (digits_val (i @ f)) / 10 ^ length f"
    using f by (simp add: power_diff)
  finally show ?thesis using exact_parse_plain [OF p _ i] f s by (simp add: t)
qed

lemma canonical_at_scale_parse:
  assumes e: "exact_ready e" and s: "s \<le> 28" and g: "on_grid (exval e) s" and b: "\<bar>exval e\<bar> < 10 ^ 60"
  shows "\<exists>t. canonical_at_scale e s = Inr t \<and> exact_parse_decimal t = Inr e"
proof -
  let ?c = "numerator e * 10 ^ s div denominator e"
  have ok: "exact_ok e" using e by (simp add: exact_ready_def)
  have "denominator e dvd numerator e * 10 ^ s" using g exval_grid [OF ok] by simp
  then have "of_int ?c = (of_int (numerator e * 10 ^ s) / of_int (denominator e) :: rat)" by (rule of_int_div)
  then have c: "of_int ?c = exval e * 10 ^ s" by (simp add: exval_def)
  then have "of_int \<bar>?c\<bar> = \<bar>exval e\<bar> * 10 ^ s" by (simp add: abs_mult)
  also have "\<dots> < 10 ^ 60 * 10 ^ s" using b by (intro mult_strict_right_mono) simp_all
  also have "\<dots> = of_int (10 ^ (60 + s))" by (simp add: power_add)
  finally have "\<bar>?c\<bar> < 10 ^ (60 + s)" by (simp only: of_int_less_iff)
  then have "exact_parse_decimal (scale_text ?c s) = Inr (amount_of (of_int ?c / 10 ^ s))"
    by (rule exact_parse_scale_text [OF s])
  moreover have "of_int ?c / 10 ^ s = exval e" using c by simp
  ultimately show ?thesis using g canonical_at_scale_run [OF e s] ok by (simp add: amount_of_exval)
qed

end
