(* ===== verification/Money_Text.thy ===== *)
theory Money_Text
  imports Exact_Text
begin

text \<open>
  The text form of a validated amount (\<open>parse_decimal\<close> and \<open>canonical_decimal\<close> of
  \<open>gears/bss/libs/money/src/money.rs\<close>).  \<open>text_contract\<close> is what the decimal carrier documents
  of \<open>from_str_exact\<close> and \<open>Display\<close> on plain decimal text; under it printing and parsing are
  inverse, and the carrier parser agrees with the exact one.
\<close>

definition text_contract :: "decimal_ops \<Rightarrow> bool" where
  "text_contract D \<longleftrightarrow>
     (\<forall>d. dec_canonical d \<longrightarrow> dec_text D d = scale_text (mantissa d) (dec_scale d)) \<and>
     (\<forall>neg i f. plain_parts neg i f \<longrightarrow>
        from_str_exact D (plain_text neg i f) =
          (let m = (if neg then - int (digits_val (i @ f)) else int (digits_val (i @ f)))
           in if dec_fits m (length f) then Some (Decimal m (length f)) else None))"

lemma contract_text:
  assumes "text_contract D"
  shows "dec_canonical d \<Longrightarrow> dec_text D d = scale_text (mantissa d) (dec_scale d)"
    and "plain_parts neg i f \<Longrightarrow> from_str_exact D (plain_text neg i f) =
      (let m = (if neg then - int (digits_val (i @ f)) else int (digits_val (i @ f)))
       in if dec_fits m (length f) then Some (Decimal m (length f)) else None)"
  using assms unfolding text_contract_def by blast+

text \<open>The significant prefix of accepted text is the plain text of its parts.\<close>

definition significant :: "decimal_parts \<Rightarrow> nat" where
  "significant p = (if negative p then 1 else 0) + length (integer p) +
     (if fraction p = [] then 0 else 1 + length (fraction p))"

lemma split_once_point_Some:
  assumes "split_once_point u = (i, Some g)"
  shows "u = i @ CHR ''.'' # g"
proof -
  let ?P = "\<lambda>c. c \<noteq> CHR ''.''"
  from assms have m: "CHR ''.'' \<in> set u" and i: "i = takeWhile ?P u" and g: "g = drop (Suc (length i)) u"
    by (auto simp: split_once_point_def Let_def split: if_splits)
  have ne: "dropWhile ?P u \<noteq> []" using m by auto
  have dr: "drop (length i) u = dropWhile ?P u" by (simp add: i dropWhile_eq_drop)
  have "g = tl (dropWhile ?P u)" by (simp only: g drop_Suc tl_drop [symmetric] dr)
  moreover have "hd (dropWhile ?P u) = CHR ''.''" using hd_dropWhile [OF ne] by simp
  ultimately have "dropWhile ?P u = CHR ''.'' # g" using list.collapse [OF ne] by simp
  then show ?thesis using takeWhile_dropWhile_id [of ?P u] i by simp
qed

lemma split_once_point_None: "split_once_point u = (i, None) \<Longrightarrow> u = i"
  by (simp add: split_once_point_def Let_def split: if_splits)

lemma split_decimal_significant:
  assumes "split_decimal t = Inr p"
  shows "plain_parts (negative p) (integer p) (fraction p)"
    and "take (significant p) t = plain_text (negative p) (integer p) (fraction p)"
    and "significant p \<le> length t"
proof -
  define u where "u = strip_minus t"
  define neg where "neg \<longleftrightarrow> t \<noteq> [] \<and> hd t = CHR ''-''"
  obtain i f where sp: "split_once_point u = (i, f)" by fastforce
  let ?g = "case f of None \<Rightarrow> [] | Some g \<Rightarrow> trim_zeros g"
  have sign: "(case t of [] \<Rightarrow> (False, t) | c # r \<Rightarrow> if c = CHR ''-'' then (True, r) else (False, t)) = (neg, u)"
    and t: "t = (if neg then ''-'' else []) @ u"
    by (cases t; simp add: neg_def u_def strip_minus_def)+
  have P: "p = \<lparr>negative = neg, integer = i, fraction = ?g\<rparr>"
    and i: "plain_digits i" and f: "case f of None \<Rightarrow> True | Some g \<Rightarrow> g \<noteq> [] \<and> list_all is_ascii_digit g"
    and z: "\<not> (neg \<and> i = ''0'' \<and> ?g = [])"
    using assms unfolding split_decimal_def sign Let_def
    by (auto simp: sp plain_digits_def split: if_splits option.splits)
  have p: "negative p = neg" "integer p = i" "fraction p = ?g" by (simp_all add: P)
  have "\<exists>k. (case f of None \<Rightarrow> True | Some g \<Rightarrow> ?g @ zeros k = g) \<and> (?g \<noteq> [] \<longrightarrow> last ?g \<noteq> CHR ''0'')"
  proof (cases f)
    case (Some g)
    obtain k where k: "g = trim_zeros g @ zeros k" "trim_zeros g \<noteq> [] \<longrightarrow> last (trim_zeros g) \<noteq> CHR ''0''"
      by (rule trim_zeros_facts)
    show ?thesis by (intro exI [of _ k]) (simp add: Some k(1) [symmetric] k(2))
  qed simp
  then obtain k where k: "case f of None \<Rightarrow> True | Some g \<Rightarrow> ?g @ zeros k = g"
      and l: "?g \<noteq> [] \<longrightarrow> last ?g \<noteq> CHR ''0''"
    by blast
  have "list_all is_ascii_digit ?g"
  proof (cases f)
    case (Some g)
    then have "list_all is_ascii_digit (?g @ zeros k)" using f k by simp
    then show ?thesis by (simp only: list_all_append)
  qed simp
  then show "plain_parts (negative p) (integer p) (fraction p)"
    using i l z unfolding plain_parts_def p by blast
  have "\<exists>r. u = i @ (if ?g = [] then [] else CHR ''.'' # ?g) @ r"
  proof (cases f)
    case None
    then show ?thesis using sp split_once_point_None [of u i] by simp
  next
    case (Some g)
    then have "u = i @ CHR ''.'' # g" using sp split_once_point_Some by simp
    also have "g = ?g @ zeros k" using k Some by simp
    finally have "u = i @ CHR ''.'' # ?g @ zeros k" .
    then have "u = i @ (if ?g = [] then [] else CHR ''.'' # ?g) @ (if ?g = [] then CHR ''.'' # zeros k else zeros k)"
      by (cases "?g = []") simp_all
    then show ?thesis by blast
  qed
  then obtain r where "u = i @ (if ?g = [] then [] else CHR ''.'' # ?g) @ r" by blast
  then have "t = plain_text (negative p) (integer p) (fraction p) @ r"
    using t by (simp add: plain_text_def p)
  moreover have "length (plain_text (negative p) (integer p) (fraction p)) = significant p"
    by (simp add: plain_text_def significant_def)
  ultimately show "take (significant p) t = plain_text (negative p) (integer p) (fraction p)"
    "significant p \<le> length t" by simp_all
qed

lemma parse_decimal_run:
  assumes T: "text_contract D" and p: "split_decimal t = Inr p" and len: "length t \<le> MAX_DECIMAL_BYTES"
  shows "parse_decimal D t =
    (let n = int (digits_val (integer p @ fraction p)); m = (if negative p then - n else n)
     in if dec_fits m (length (fraction p)) then validate_amount D (Decimal m (length (fraction p)))
        else if length (fraction p) > 28 then Inl InvalidDecimal else Inl MoneyOutOfRange)"
proof -
  note S = split_decimal_significant [OF p]
  have "parse_decimal D t =
      (case from_str_exact D (take (significant p) t) of
         None \<Rightarrow> if length (fraction p) > 28 then Inl InvalidDecimal else Inl MoneyOutOfRange
       | Some a \<Rightarrow> validate_amount D a)"
    using len S(3) by (simp add: parse_decimal_def p significant_def Let_def)
  then show ?thesis unfolding S(2) contract_text(2) [OF T S(1)] by (simp add: Let_def)
qed

text \<open>Printing then parsing is validation: the text loses nothing.\<close>

lemma parse_canonical_decimal:
  assumes D: "decimal_contract D" and T: "text_contract D"
  shows "parse_decimal D (canonical_decimal D v) = validate_amount D v"
proof -
  define a where "a = normalize D v"
  let ?m = "mantissa a" and ?s = "dec_scale a"
  have can: "dec_canonical a" by (simp add: a_def contract_normalize [OF D])
  obtain i f where t: "scale_text ?m ?s = plain_text (?m < 0) i f" and p: "plain_parts (?m < 0) i f"
      and f: "length f \<le> ?s" and v: "digits_val (i @ f) * 10 ^ (?s - length f) = nat \<bar>?m\<bar>"
    by (rule scale_text_parts)
  have "int (digits_val (i @ f)) * 10 ^ (?s - length f) = \<bar>?m\<bar>"
    using arg_cong [OF v, of int] by simp
  moreover have "(10::int) dvd 10 ^ (?s - length f)" if "length f \<noteq> ?s"
    using that f by (intro dvd_power) simp
  ultimately have "length f \<noteq> ?s \<Longrightarrow> 10 dvd ?m" by (metis dvd_abs_iff dvd_mult)
  then have "length f = ?s" using f can by (auto simp: dec_canonical_def)
  with v have n: "int (digits_val (i @ f)) = \<bar>?m\<bar>" by simp
  have "nat \<bar>?m\<bar> < 10 ^ 29" using mantissa_bound [of a] by (simp add: nat_less_iff)
  then have "digits_val i * 10 ^ length f + digits_val f < 10 ^ 29"
    using v \<open>length f = ?s\<close> by (simp add: digits_val_append)
  moreover have "digits_val i * 1 \<le> digits_val i * 10 ^ length f" by (intro mult_left_mono) simp_all
  ultimately have "digits_val i < 10 ^ 29" by linarith
  then have "length i \<le> 29" using p by (intro plain_digits_length) (simp_all add: plain_parts_def)
  then have len: "length (plain_text (?m < 0) i f) \<le> MAX_DECIMAL_BYTES"
    using f dec_scale_le [of a] by (simp add: plain_text_def MAX_DECIMAL_BYTES_def)
  have m: "(if ?m < 0 then - \<bar>?m\<bar> else \<bar>?m\<bar>) = ?m" by simp
  have "parse_decimal D (plain_text (?m < 0) i f) = validate_amount D (Decimal ?m ?s)"
    using parse_decimal_run [OF T split_decimal_plain [OF p] len] n m \<open>length f = ?s\<close> by (simp add: Let_def)
  also have "Decimal ?m ?s = a"
    using can by (simp add: decimal_eq_iff dec_negative_canonical)
  also have "validate_amount D a = validate_amount D v"
    by (simp add: validate_amount_def a_def normalize_idem [OF D])
  finally show ?thesis
    by (simp add: canonical_decimal_def t contract_text(1) [OF T can] flip: a_def)
qed

text \<open>The carrier parser and the exact parser read the same number.\<close>

lemma parse_decimal_exact:
  assumes D: "decimal_contract D" and T: "text_contract D" and "parse_decimal D t = Inr a"
  shows "exact_parse_decimal t = Inr (from_decimal a)"
proof -
  from assms(3) obtain p where len: "length t \<le> MAX_DECIMAL_BYTES" and p: "split_decimal t = Inr p"
    by (auto simp: parse_decimal_def split: if_splits)
  note S = split_decimal_significant [OF p]
  let ?i = "integer p" and ?f = "fraction p"
  let ?n = "int (digits_val (?i @ ?f))" and ?s = "length (fraction p)"
  let ?m = "if negative p then - ?n else ?n"
  have fits: "dec_fits ?m ?s" and va: "validate_amount D (Decimal ?m ?s) = Inr a"
    using assms(3) parse_decimal_run [OF T p len] by (auto simp: Let_def split: if_splits)
  have d: "dval a = of_int ?m / 10 ^ ?s" using validate_amount_Inr(2) [OF D va] fits by simp
  have "length ?i \<le> 60"
  proof -
    have "\<bar>?m\<bar> < 10 ^ 29" using fits by (simp add: dec_fits_def)
    then have "int (digits_val (?i @ ?f)) < int (10 ^ 29)" by (simp split: if_splits)
    then have "digits_val ?i * 10 ^ ?s + digits_val ?f < 10 ^ 29"
      by (simp only: of_nat_less_iff digits_val_append)
    moreover have "digits_val ?i * 1 \<le> digits_val ?i * 10 ^ ?s" by (intro mult_left_mono) simp_all
    ultimately have "digits_val ?i < 10 ^ 29" by linarith
    then have "digits_val ?i < 10 ^ 60" by simp
    then show ?thesis using S(1) by (intro plain_digits_length) (simp_all add: plain_parts_def)
  qed
  moreover have "?s \<le> 28" using fits by (simp add: dec_fits_def)
  moreover have "?i @ ?f \<noteq> []" "list_all is_ascii_digit (?i @ ?f)"
    using S(1) by (auto simp: plain_parts_def plain_digits_def)
  ultimately have "exact_parse_decimal t = Inr (amount_of (of_int ?m / 10 ^ ?s))"
    using len parse_digits_plain [of "?i @ ?f"]
    by (simp add: exact_parse_decimal_def p Let_def MAX_DECIMAL_BYTES_def DECIMAL_TEXT_BYTES_def
        DECIMAL_FRACTION_DIGITS_def DECIMAL_INTEGER_DIGITS_def frac_normalize_amount_of ten_pow_def)
  then show ?thesis by (simp only: d [symmetric] from_decimal_amount_of)
qed

end
