(* ===== verification/Scaled_Sum.thy ===== *)
theory Scaled_Sum
  imports Rounding
begin

text \<open>
  \<open>ScaledSum\<close> of \<open>gears/bss/libs/money/src/exact.rs\<close>: a running sum kept as an \<open>i128\<close>
  coefficient while it fits and as an exact fraction after.  \<open>sum_value\<close> is the number it stands for;
  every operation is proved to act on that number alone, whichever form holds it.
\<close>

section \<open>Types and operations\<close>

datatype sum_form = Coefficient int | Fraction exact_amount

record scaled_sum =
  sum_scale :: nat
  form :: sum_form

definition i128_checked :: "int \<Rightarrow> int option" where
  "i128_checked k = (if fits_i128 k then Some k else None)"

definition coefficient_at_scale :: "decimal_ops \<Rightarrow> decimal \<Rightarrow> nat \<Rightarrow> int option" where
  "coefficient_at_scale D v s =
     (let a = normalize D v
      in if s < dec_scale a then None
         else Option.bind (i128_checked (10 ^ (s - dec_scale a))) (\<lambda>p. i128_checked (mantissa a * p)))"

definition sum_zero :: "nat \<Rightarrow> scaled_sum" where
  "sum_zero s = \<lparr>sum_scale = s, form = Coefficient 0\<rparr>"

definition sum_from_exact :: "exact_amount \<Rightarrow> nat \<Rightarrow> scaled_sum" where
  "sum_from_exact v s = \<lparr>sum_scale = s, form = Fraction v\<rparr>"

definition to_exact :: "scaled_sum \<Rightarrow> exact_amount" where
  "to_exact t = (case form t of Coefficient c \<Rightarrow> from_coefficient c (sum_scale t) | Fraction v \<Rightarrow> v)"

definition add_decimal :: "decimal_ops \<Rightarrow> decimal \<Rightarrow> scaled_sum \<Rightarrow> exact_error + scaled_sum" where
  "add_decimal D v t =
     (case (case form t of
              Coefficient sofar \<Rightarrow>
                Option.bind (coefficient_at_scale D v (sum_scale t)) (\<lambda>term. i128_checked (sofar + term))
            | Fraction _ \<Rightarrow> None) of
        Some next \<Rightarrow> Inr (t\<lparr>form := Coefficient next\<rparr>)
      | None \<Rightarrow> rbind (checked_add (to_exact t) (from_decimal v)) (\<lambda>next. Inr (t\<lparr>form := Fraction next\<rparr>)))"

definition add_sum :: "scaled_sum \<Rightarrow> scaled_sum \<Rightarrow> exact_error + scaled_sum" where
  "add_sum t u =
     (case (if sum_scale t = sum_scale u
            then (case (form t, form u) of
                    (Coefficient sofar, Coefficient term) \<Rightarrow> i128_checked (sofar + term)
                  | _ \<Rightarrow> None)
            else None) of
        Some next \<Rightarrow> Inr (t\<lparr>form := Coefficient next\<rparr>)
      | None \<Rightarrow> rbind (checked_add (to_exact t) (to_exact u)) (\<lambda>next. Inr (t\<lparr>form := Fraction next\<rparr>)))"

definition sum_is_zero :: "scaled_sum \<Rightarrow> bool" where
  "sum_is_zero t \<longleftrightarrow> (case form t of Coefficient c \<Rightarrow> c = 0 | Fraction v \<Rightarrow> numerator v = 0)"

definition to_posted :: "decimal_ops \<Rightarrow> scaled_sum \<Rightarrow> currency_spec \<Rightarrow> exact_error + posted_money" where
  "to_posted D t cur =
     (case (case form t of
              Coefficient c \<Rightarrow> try_from_i128_with_scale D c (sum_scale t)
            | Fraction _ \<Rightarrow> None) of
        Some v \<Rightarrow> map_err MoneyErr (posted_try_new D v cur)
      | None \<Rightarrow> into_posted_exact D (to_exact t) cur)"

definition sum_eq :: "scaled_sum \<Rightarrow> scaled_sum \<Rightarrow> bool" where
  "sum_eq t u \<longleftrightarrow>
     (case (form t, form u) of
        (Coefficient l, Coefficient r) \<Rightarrow>
          if sum_scale t = sum_scale u then l = r else exact_eq (to_exact t) (to_exact u)
      | _ \<Rightarrow> exact_eq (to_exact t) (to_exact u))"

section \<open>The value of a sum\<close>

text \<open>A scale is a \<open>u8\<close>, a coefficient an \<open>i128\<close>, a fraction reduced and within the budget.\<close>

definition sum_ok :: "scaled_sum \<Rightarrow> bool" where
  "sum_ok t \<longleftrightarrow> sum_scale t < 256 \<and>
     (case form t of Coefficient c \<Rightarrow> fits_i128 c | Fraction v \<Rightarrow> exact_ready v)"

definition sum_value :: "scaled_sum \<Rightarrow> rat" where
  "sum_value t = exval (to_exact t)"

lemma sum_value_form:
  "sum_ok t \<Longrightarrow> sum_value t =
     (case form t of Coefficient c \<Rightarrow> of_int c / 10 ^ sum_scale t | Fraction v \<Rightarrow> exval v)"
  by (simp add: sum_value_def to_exact_def sum_ok_def from_coefficient_facts split: sum_form.splits)

lemma to_exact_ready: "sum_ok t \<Longrightarrow> exact_ready (to_exact t)"
  by (simp add: to_exact_def sum_ok_def from_coefficient_facts(1) split: sum_form.splits)

lemma i128_checked_Some [simp]: "i128_checked k = Some j \<longleftrightarrow> fits_i128 k \<and> j = k"
  by (auto simp: i128_checked_def)

lemma sum_zero_facts [simp]:
  assumes "s < 256"
  shows "sum_ok (sum_zero s)" "sum_value (sum_zero s) = 0"
proof -
  show ok: "sum_ok (sum_zero s)" using assms by (simp add: sum_ok_def sum_zero_def fits_i128_def)
  show "sum_value (sum_zero s) = 0" using sum_value_form [OF ok] by (simp add: sum_zero_def)
qed

lemma coefficient_at_scale_value:
  assumes D: "decimal_contract D" and c: "coefficient_at_scale D v s = Some c"
  shows "fits_i128 c" "of_int c / 10 ^ s = dval v"
proof -
  let ?a = "normalize D v"
  from c have s: "dec_scale ?a \<le> s" and f: "fits_i128 c" and e: "c = mantissa ?a * 10 ^ (s - dec_scale ?a)"
    by (auto simp: coefficient_at_scale_def Let_def bind_eq_Some_conv split: if_splits)
  show "fits_i128 c" by (rule f)
  have "of_int c / 10 ^ s = dval ?a" unfolding e dval_def scaled_shift [OF s] ..
  then show "of_int c / 10 ^ s = dval v" by (simp add: contract_normalize [OF D])
qed

text \<open>An addition to either form is the addition of the values, and fails only past the budget.\<close>

definition sum_adds :: "scaled_sum \<Rightarrow> rat \<Rightarrow> exact_error + scaled_sum \<Rightarrow> bool" where
  "sum_adds t q r \<longleftrightarrow>
     (case r of
        Inr t' \<Rightarrow> sum_ok t' \<and> sum_scale t' = sum_scale t \<and> sum_value t' = sum_value t + q
      | Inl err \<Rightarrow> err = ArithmeticLimit \<and> \<not> in_budget (amount_of (sum_value t + q)))"

lemma sum_adds_coefficient:
  assumes "sum_ok t" "form t = Coefficient c" "fits_i128 (c + k)" "q = of_int k / 10 ^ sum_scale t"
  shows "sum_adds t q (Inr (t\<lparr>form := Coefficient (c + k)\<rparr>))"
proof -
  let ?t = "t\<lparr>form := Coefficient (c + k)\<rparr>"
  have ok: "sum_ok ?t" using assms by (simp add: sum_ok_def)
  show ?thesis
    using ok sum_value_form [OF ok] sum_value_form [OF assms(1)] assms(2,4)
    by (simp add: sum_adds_def add_divide_distrib)
qed

lemma sum_adds_fraction:
  assumes t: "sum_ok t" and a: "exact_ready a" and q: "exval a = q"
  shows "sum_adds t q (rbind (checked_add (to_exact t) a) (\<lambda>next. Inr (t\<lparr>form := Fraction next\<rparr>)))"
proof -
  have run: "checked_add (to_exact t) a = narrow (sum_value t + q)"
    by (simp add: checked_add_narrow [OF to_exact_ready [OF t] a] sum_value_def q)
  show ?thesis
  proof (cases "in_budget (amount_of (sum_value t + q))")
    case True
    then have "checked_add (to_exact t) a = Inr (amount_of (sum_value t + q))" by (simp add: run narrow_def)
    with True t show ?thesis
      by (simp add: sum_adds_def sum_ok_def exact_ready_def) (simp add: sum_value_def to_exact_def)
  qed (simp add: run narrow_def sum_adds_def)
qed

lemma add_decimal_adds:
  assumes D: "decimal_contract D" and t: "sum_ok t"
  shows "sum_adds t (dval v) (add_decimal D v t)"
proof (cases "\<exists>c k. form t = Coefficient c \<and> coefficient_at_scale D v (sum_scale t) = Some k \<and> fits_i128 (c + k)")
  case True
  then obtain c k where "form t = Coefficient c" "coefficient_at_scale D v (sum_scale t) = Some k" "fits_i128 (c + k)"
    by blast
  then show ?thesis
    using sum_adds_coefficient [OF t, of c k "dval v"] coefficient_at_scale_value(2) [OF D, of v]
    by (simp add: add_decimal_def i128_checked_def)
next
  case False
  then have "add_decimal D v t =
      rbind (checked_add (to_exact t) (from_decimal v)) (\<lambda>next. Inr (t\<lparr>form := Fraction next\<rparr>))"
    by (auto simp: add_decimal_def i128_checked_def split: sum_form.splits option.splits bind_splits)
  then show ?thesis using sum_adds_fraction [OF t] by simp
qed

lemma add_sum_adds:
  assumes t: "sum_ok t" and u: "sum_ok u"
  shows "sum_adds t (sum_value u) (add_sum t u)"
proof (cases "\<exists>c k. sum_scale t = sum_scale u \<and> form t = Coefficient c \<and> form u = Coefficient k \<and> fits_i128 (c + k)")
  case True
  then obtain c k where "sum_scale t = sum_scale u" "form t = Coefficient c" "form u = Coefficient k" "fits_i128 (c + k)"
    by blast
  then show ?thesis
    using sum_adds_coefficient [OF t] sum_value_form [OF u] by (simp add: add_sum_def i128_checked_def)
next
  case False
  then have "add_sum t u =
      rbind (checked_add (to_exact t) (to_exact u)) (\<lambda>next. Inr (t\<lparr>form := Fraction next\<rparr>))"
    by (auto simp: add_sum_def i128_checked_def split: sum_form.splits)
  then show ?thesis using sum_adds_fraction [OF t to_exact_ready [OF u]] by (simp add: sum_value_def)
qed

lemma exact_cmp_value:
  assumes "exact_ready a" "exact_ready b"
  shows "exact_cmp a b = rat_cmp (exval a) (exval b)"
proof -
  have d: "0 < (of_int (denominator a) :: rat)" "0 < (of_int (denominator b) :: rat)"
    using ready_facts(1) assms by auto
  have "exval a < exval b \<longleftrightarrow> (of_int (numerator a * denominator b) :: rat) < of_int (numerator b * denominator a)"
    "exval a = exval b \<longleftrightarrow> (of_int (numerator a * denominator b) :: rat) = of_int (numerator b * denominator a)"
    using d by (simp_all add: exval_def divide_less_eq less_divide_eq frac_eq_eq mult.commute field_simps)
  then show ?thesis
    unfolding exact_cmp_def rat_cmp_def Let_def of_int_less_iff of_int_eq_iff by simp
qed

lemma exact_eq_value: "exact_ready a \<Longrightarrow> exact_ready b \<Longrightarrow> exact_eq a b \<longleftrightarrow> exval a = exval b"
  by (simp add: exact_eq_def exact_cmp_value rat_cmp_def)

lemma sum_eq_value:
  assumes t: "sum_ok t" and u: "sum_ok u"
  shows "sum_eq t u \<longleftrightarrow> sum_value t = sum_value u"
  using exact_eq_value [OF to_exact_ready [OF t] to_exact_ready [OF u]] sum_value_form [OF t] sum_value_form [OF u]
  by (auto simp: sum_eq_def sum_value_def split: sum_form.splits)

lemma sum_is_zero_value: "sum_ok t \<Longrightarrow> sum_is_zero t \<longleftrightarrow> sum_value t = 0"
  using ready_facts(2)
  by (auto simp: sum_value_form sum_is_zero_def sum_ok_def exval_def split: sum_form.splits)

lemma to_posted_Inr:
  assumes D: "decimal_contract D" and t: "sum_ok t" and s: "cur_scale cur \<le> 28"
  shows "to_posted D t cur = Inr m \<longleftrightarrow> represents m cur (sum_value t)"
proof (cases "\<exists>c. form t = Coefficient c \<and> dec_fits c (sum_scale t)")
  case True
  then obtain c where c: "form t = Coefficient c" "dec_fits c (sum_scale t)" by blast
  then have v: "dval (Decimal c (sum_scale t)) = sum_value t" by (simp add: sum_value_form [OF t])
  have "to_posted D t cur = Inr m \<longleftrightarrow> posted_try_new D (Decimal c (sum_scale t)) cur = Inr m"
    using c by (simp add: to_posted_def contract_try_from [OF D])
  also have "\<dots> \<longleftrightarrow> represents m cur (sum_value t)"
    unfolding v [symmetric] by (rule posted_try_new_represents [OF D])
  finally show ?thesis .
next
  case False
  then have "to_posted D t cur = into_posted_exact D (to_exact t) cur"
    by (auto simp: to_posted_def contract_try_from [OF D] split: sum_form.splits)
  then show ?thesis
    using into_posted_exact_Inr [OF D to_exact_ready [OF t] s] by (simp add: sum_value_def)
qed

end
