(* ===== verification/Reference_Decimal.thy ===== *)
theory Reference_Decimal
  imports Money_Text Scaled_Sum
begin

text \<open>
  A concrete decimal carrier, \<open>reference_decimal\<close>, that meets \<open>decimal_contract\<close> and
  \<open>text_contract\<close>.  It shows the two contracts can be met together, and the witnesses of the
  development run the model with it.
\<close>

definition reference_normalize :: "decimal \<Rightarrow> decimal" where
  "reference_normalize d = (let (c, s) = posted_strip (mantissa d) (dec_scale d) in Decimal c s)"

definition reference_cmp :: "decimal \<Rightarrow> decimal \<Rightarrow> ordering" where
  "reference_cmp a b =
     (let l = mantissa a * 10 ^ dec_scale b; r = mantissa b * 10 ^ dec_scale a
      in if l < r then Less else if l = r then Equal else Greater)"

definition reference_from_str :: "string \<Rightarrow> decimal option" where
  "reference_from_str t =
     (let (i, f) = split_once_point (strip_minus t);
          g = (case f of None \<Rightarrow> [] | Some g \<Rightarrow> g);
          n = int (digits_val (i @ g));
          m = (if strip_minus t = t then n else - n)
      in if dec_fits m (length g) then Some (Decimal m (length g)) else None)"

definition reference_decimal :: decimal_ops where
  "reference_decimal =
     \<lparr>normalize = reference_normalize,
      dec_cmp = reference_cmp,
      is_zero = (\<lambda>d. mantissa d = 0),
      try_from_i128_with_scale = (\<lambda>c s. if dec_fits c s then Some (Decimal c s) else None),
      from_str_exact = reference_from_str,
      dec_text = (\<lambda>d. scale_text (mantissa d) (dec_scale d)),
      dec_neg = (\<lambda>d. Decimal (- mantissa d) (dec_scale d))\<rparr>"

lemma reference_normalize_facts:
  "dval (reference_normalize d) = dval d" "dec_canonical (reference_normalize d)"
proof -
  obtain c s where p: "posted_strip (mantissa d) (dec_scale d) = (c, s)" by fastforce
  note P = posted_strip_facts [OF p]
  have "\<bar>c\<bar> * 1 \<le> \<bar>c\<bar> * 10 ^ (dec_scale d - s)" by (intro mult_left_mono) simp_all
  then have "\<bar>c\<bar> \<le> \<bar>mantissa d\<bar>" using P(2) by (simp add: abs_mult)
  then have f: "dec_fits c s"
    using mantissa_bound [of d] P(1) dec_scale_le [of d] by (simp add: dec_fits_def)
  have n: "reference_normalize d = Decimal c s" by (simp add: reference_normalize_def p)
  show "dval (reference_normalize d) = dval d"
    unfolding n using f stripped_value [OF p] by (simp add: dval_def)
  show "dec_canonical (reference_normalize d)"
    unfolding n using f P(3) by (auto simp: dec_canonical_def)
qed

lemma reference_cmp_value: "reference_cmp a b = rat_cmp (dval a) (dval b)"
proof -
  let ?l = "mantissa a * 10 ^ dec_scale b" and ?r = "mantissa b * 10 ^ dec_scale a"
  have "dval a < dval b \<longleftrightarrow> (of_int ?l :: rat) < of_int ?r" "dval a = dval b \<longleftrightarrow> (of_int ?l :: rat) = of_int ?r"
    by (simp_all add: dval_def divide_less_eq less_divide_eq frac_eq_eq field_simps)
  then show ?thesis
    unfolding reference_cmp_def rat_cmp_def Let_def of_int_less_iff of_int_eq_iff by simp
qed

lemma reference_neg_value: "dval (Decimal (- mantissa d) (dec_scale d)) = - dval d"
proof -
  have "dec_fits (- mantissa d) (dec_scale d)" using dec_fits_mantissa [of d] by (simp add: dec_fits_def)
  then show ?thesis by (simp add: dval_def)
qed

lemma reference_decimal_contract: "decimal_contract reference_decimal"
  by (simp add: decimal_contract_def reference_decimal_def reference_normalize_facts reference_cmp_value reference_neg_value)
    (simp add: dval_def)

lemma reference_from_str_plain:
  assumes "plain_parts neg i f"
  shows "reference_from_str (plain_text neg i f) =
    (let m = (if neg then - int (digits_val (i @ f)) else int (digits_val (i @ f)))
     in if dec_fits m (length f) then Some (Decimal m (length f)) else None)"
proof -
  have i: "i \<noteq> []" "list_all is_ascii_digit i"
    using assms by (auto simp: plain_parts_def plain_digits_def)
  then obtain c r where c: "i = c # r" "c \<noteq> CHR ''-''" using digit_not_sign by (cases i) auto
  have u: "strip_minus (plain_text neg i f) = plain_text False i f"
    using c by (simp add: strip_minus_def plain_text_def)
  have "plain_text False i f = plain_text neg i f \<longleftrightarrow> \<not> neg" using c by (simp add: plain_text_def)
  moreover have "split_once_point (plain_text False i f) = (i, if f = [] then None else Some f)"
    using split_once_point_plain [OF i(2)] by (simp add: plain_text_def)
  ultimately show ?thesis by (simp add: reference_from_str_def u Let_def)
qed

lemma reference_text_contract: "text_contract reference_decimal"
  by (simp add: text_contract_def reference_decimal_def reference_from_str_plain)

lemmas reference_decimal_ok = reference_decimal_contract reference_text_contract

end
