(* ===== verification/Iso.thy ===== *)
theory Iso
  imports Prelude
begin

text \<open>
  \<open>gears/bss/libs/money/src/iso.rs\<close>: the ISO 4217 minor-unit scales.  \<open>ISO_4217\<close> is the table,
  \<open>binary_search_by\<close> the library routine (halving a window of \<open>size\<close> entries from \<open>base\<close>),
  \<open>iso_scale\<close> and \<open>iso_codes\<close> the public functions.  The table is strictly sorted, so the search
  is the finite map the table lists.
\<close>

definition ISO_4217 :: "(string \<times> nat) list" where
  "ISO_4217 =
    [(''AED'', 2), (''AFN'', 2), (''ALL'', 2), (''AMD'', 2), (''AOA'', 2), (''ARS'', 2),
     (''AUD'', 2), (''AWG'', 2), (''AZN'', 2), (''BAM'', 2), (''BBD'', 2), (''BDT'', 2),
     (''BHD'', 3), (''BIF'', 0), (''BMD'', 2), (''BND'', 2), (''BOB'', 2), (''BOV'', 2),
     (''BRL'', 2), (''BSD'', 2), (''BTN'', 2), (''BWP'', 2), (''BYN'', 2), (''BZD'', 2),
     (''CAD'', 2), (''CDF'', 2), (''CHE'', 2), (''CHF'', 2), (''CHW'', 2), (''CLF'', 4),
     (''CLP'', 0), (''CNY'', 2), (''COP'', 2), (''COU'', 2), (''CRC'', 2), (''CUP'', 2),
     (''CVE'', 2), (''CZK'', 2), (''DJF'', 0), (''DKK'', 2), (''DOP'', 2), (''DZD'', 2),
     (''EGP'', 2), (''ERN'', 2), (''ETB'', 2), (''EUR'', 2), (''FJD'', 2), (''FKP'', 2),
     (''GBP'', 2), (''GEL'', 2), (''GHS'', 2), (''GIP'', 2), (''GMD'', 2), (''GNF'', 0),
     (''GTQ'', 2), (''GYD'', 2), (''HKD'', 2), (''HNL'', 2), (''HTG'', 2), (''HUF'', 2),
     (''IDR'', 2), (''ILS'', 2), (''INR'', 2), (''IQD'', 3), (''IRR'', 2), (''ISK'', 0),
     (''JMD'', 2), (''JOD'', 3), (''JPY'', 0), (''KES'', 2), (''KGS'', 2), (''KHR'', 2),
     (''KMF'', 0), (''KPW'', 2), (''KRW'', 0), (''KWD'', 3), (''KYD'', 2), (''KZT'', 2),
     (''LAK'', 2), (''LBP'', 2), (''LKR'', 2), (''LRD'', 2), (''LSL'', 2), (''LYD'', 3),
     (''MAD'', 2), (''MDL'', 2), (''MGA'', 2), (''MKD'', 2), (''MMK'', 2), (''MNT'', 2),
     (''MOP'', 2), (''MRU'', 2), (''MUR'', 2), (''MVR'', 2), (''MWK'', 2), (''MXN'', 2),
     (''MXV'', 2), (''MYR'', 2), (''MZN'', 2), (''NAD'', 2), (''NGN'', 2), (''NIO'', 2),
     (''NOK'', 2), (''NPR'', 2), (''NZD'', 2), (''OMR'', 3), (''PAB'', 2), (''PEN'', 2),
     (''PGK'', 2), (''PHP'', 2), (''PKR'', 2), (''PLN'', 2), (''PYG'', 0), (''QAR'', 2),
     (''RON'', 2), (''RSD'', 2), (''RUB'', 2), (''RWF'', 0), (''SAR'', 2), (''SBD'', 2),
     (''SCR'', 2), (''SDG'', 2), (''SEK'', 2), (''SGD'', 2), (''SHP'', 2), (''SLE'', 2),
     (''SOS'', 2), (''SRD'', 2), (''SSP'', 2), (''STN'', 2), (''SVC'', 2), (''SYP'', 2),
     (''SZL'', 2), (''THB'', 2), (''TJS'', 2), (''TMT'', 2), (''TND'', 3), (''TOP'', 2),
     (''TRY'', 2), (''TTD'', 2), (''TWD'', 2), (''TZS'', 2), (''UAH'', 2), (''UGX'', 0),
     (''USD'', 2), (''USN'', 2), (''UYI'', 0), (''UYU'', 2), (''UYW'', 4), (''UZS'', 2),
     (''VED'', 2), (''VES'', 2), (''VND'', 0), (''VUV'', 0), (''WST'', 2), (''XAD'', 2),
     (''XAF'', 0), (''XCD'', 2), (''XCG'', 2), (''XOF'', 0), (''XPF'', 0), (''YER'', 2),
     (''ZAR'', 2), (''ZMW'', 2), (''ZWG'', 2)]"

function search_window :: "('a \<Rightarrow> bool) \<Rightarrow> 'a list \<Rightarrow> nat \<Rightarrow> nat \<Rightarrow> nat" where
  "search_window gt xs base len =
     (if len \<le> 1 then base
      else let half = len div 2; mid = base + half
           in search_window gt xs (if gt (xs ! mid) then base else mid) (len - half))"
  by pat_completeness auto
termination by (relation "measure (\<lambda>(_, _, _, len). len)") auto

declare search_window.simps [simp del]

text \<open>\<open>slice::binary_search_by\<close> with the comparison of an entry's key against the sought key.\<close>

definition binary_search_by :: "('k::linorder \<times> 'v) list \<Rightarrow> 'k \<Rightarrow> nat option" where
  "binary_search_by xs k =
     (if xs = [] then None
      else let pos = search_window (\<lambda>(listed, _). k < listed) xs 0 (length xs)
           in if fst (xs ! pos) = k then Some pos else None)"

definition iso_scale :: "string \<Rightarrow> nat option" where
  "iso_scale c = Option.bind (binary_search_by ISO_4217 c)
     (\<lambda>pos. if pos < length ISO_4217 then Some (snd (ISO_4217 ! pos)) else None)"

definition iso_codes :: "(string \<times> nat) list" where
  "iso_codes = ISO_4217"

section \<open>Binary search is lookup\<close>

lemma search_window_bounds:
  assumes "0 < len"
  shows "base \<le> search_window g xs base len \<and> search_window g xs base len < base + len"
  using assms
proof (induction g xs base len rule: search_window.induct)
  case (1 g xs base len)
  show ?case
  proof (cases "len \<le> 1")
    case True
    with 1(2) show ?thesis by (simp add: search_window.simps)
  next
    case False
    let ?half = "len div 2"
    let ?b = "if g (xs ! (base + ?half)) then base else base + ?half"
    have "?b \<le> search_window g xs ?b (len - ?half) \<and> search_window g xs ?b (len - ?half) < ?b + (len - ?half)"
      using 1(1) [OF False refl refl] False by (simp add: Let_def)
    moreover have "search_window g xs base len = search_window g xs ?b (len - ?half)"
      using False by (subst search_window.simps) (simp add: Let_def)
    moreover have "base \<le> ?b" "?b + (len - ?half) \<le> base + len" by auto
    ultimately show ?thesis by linarith
  qed
qed

lemma search_window_finds:
  fixes xs :: "('k::linorder \<times> 'v) list"
  assumes s: "sorted_wrt (<) (map fst xs)" and k: "fst (xs ! j) = k"
    and j: "base \<le> j" "j < base + len" "base + len \<le> length xs"
  shows "search_window (\<lambda>(listed, _). k < listed) xs base len = j"
  using j
proof (induction len arbitrary: base rule: less_induct)
  case (less len)
  show ?case
  proof (cases "len \<le> 1")
    case True
    with less.prems show ?thesis by (simp add: search_window.simps)
  next
    case False
    let ?half = "len div 2"
    let ?mid = "base + ?half"
    have half: "0 < ?half" "?half < len" using False by auto
    have mid: "?mid < length xs" using less.prems half by linarith
    have mono: "a < b \<Longrightarrow> b < length xs \<Longrightarrow> fst (xs ! a) < fst (xs ! b)" for a b
      using sorted_wrt_nth_less [OF s, of a b] by simp
    have above: "k < fst (xs ! ?mid) \<longleftrightarrow> j < ?mid"
      using mono [of j ?mid] mono [of ?mid j] mid less.prems k
      by (cases j ?mid rule: linorder_cases) (auto dest: less_asym)
    have "search_window (\<lambda>(listed, _). k < listed) xs (if j < ?mid then base else ?mid) (len - ?half) = j"
      using half less.prems by (intro less.IH) (auto split: if_splits)
    then show ?thesis
      using False above by (subst search_window.simps) (simp add: Let_def case_prod_beta)
  qed
qed

lemma binary_search_by_map_of:
  assumes "sorted_wrt (<) (map fst xs)"
  shows "map_of xs k = Option.bind (binary_search_by xs k) (\<lambda>pos. if pos < length xs then Some (snd (xs ! pos)) else None)"
proof (cases "k \<in> fst ` set xs")
  case True
  then obtain j where j: "j < length xs" "fst (xs ! j) = k" by (auto simp: in_set_conv_nth)
  then have "search_window (\<lambda>(listed, _). k < listed) xs 0 (length xs) = j"
    by (intro search_window_finds [OF assms]) simp_all
  moreover have "distinct (map fst xs)" using assms by (simp only: strict_sorted_iff)
  then have "map_of xs k = Some (snd (xs ! j))"
    using j map_of_is_SomeI [of xs k "snd (xs ! j)"] by (metis nth_mem prod.collapse)
  ultimately show ?thesis using j by (auto simp: binary_search_by_def Let_def)
next
  case False
  then have "map_of xs k = None" by (simp add: map_of_eq_None_iff)
  moreover have "binary_search_by xs k = None"
  proof (cases "xs = []")
    case ne: False
    let ?at = "search_window (\<lambda>(listed, _). k < listed) xs 0 (length xs)"
    have "?at < length xs" using search_window_bounds [of "length xs" 0 _ xs] ne by simp
    then have "fst (xs ! ?at) \<in> fst ` set xs" by simp
    with False have "fst (xs ! ?at) \<noteq> k" by metis
    with ne show ?thesis by (simp add: binary_search_by_def Let_def)
  qed (simp add: binary_search_by_def)
  ultimately show ?thesis by simp
qed

text \<open>Neighbours in order are enough, and cheaper to evaluate than all pairs.\<close>

fun ascending :: "'a::linorder list \<Rightarrow> bool" where
  "ascending (x # y # zs) \<longleftrightarrow> x < y \<and> ascending (y # zs)"
| "ascending _ \<longleftrightarrow> True"

lemma ascending_sorted: "ascending xs \<Longrightarrow> sorted_wrt (<) xs"
  by (induction xs rule: ascending.induct) (auto intro: less_trans)

lemma ISO_4217_ascending: "ascending (map fst ISO_4217)"
  by code_simp

lemmas ISO_4217_sorted = ascending_sorted [OF ISO_4217_ascending]

lemma iso_scale_lookup: "iso_scale c = map_of ISO_4217 c"
  by (simp only: iso_scale_def binary_search_by_map_of [OF ISO_4217_sorted])

lemma ISO_4217_shape: "list_all (\<lambda>(c, s). length c = 3 \<and> s \<in> {0, 2, 3, 4}) ISO_4217" "length ISO_4217 = 165"
  by code_simp+

lemma iso_scale_bound: "iso_scale c = Some s \<Longrightarrow> s \<le> 4"
  using ISO_4217_shape(1) by (auto simp: iso_scale_lookup list_all_iff dest!: map_of_SomeD)

end
