(* ===== verification/Ledger_Types.thy ===== *)
theory Ledger_Types
  imports Reference_Decimal Iso
begin

text \<open>
  The vocabulary of the ledger: the enums of \<open>ledger-sdk/src/enums.rs\<close> with their stored literals,
  the posting DTOs of \<open>ledger-sdk/src/posting.rs\<close>, the rejection vocabulary
  \<open>ledger/src/domain/error.rs\<close>, and the money helpers of \<open>ledger/src/domain/exact_money.rs\<close> and
  \<open>ledger/src/domain/money.rs\<close>.

  A \<open>Uuid\<close> is a number (\<open>Uuid::nil()\<close> is 0), a \<open>NaiveDate\<close> a day number and an
  \<open>OffsetDateTime\<close> a number of nanoseconds.  Rejections keep their variant; the human-readable detail
  string each one carries is left out.
\<close>

type_synonym uuid = nat
type_synonym naive_date = int
type_synonym offset_date_time = int

section \<open>Enums with stored literals\<close>

datatype side = Debit | Credit

datatype mapping_status = Resolved | Pending

datatype account_class =
    Ar | CashClearing | Unallocated | ReusableCredit | ContractLiability | Revenue | TaxPayable
  | Suspense | DisputeHold | RefundClearing | ContraRevenue | Goodwill | DisputeLossExpense
  | PspFeeExpense | FxGainLoss | FxUnrealized

datatype source_doc_type =
    InvoicePost | Reversal | MappingCorrection | PaymentSettle | PaymentAllocate | Chargeback
  | CreditApply | SettlementReturn | ManualAdjustment | ScheduleBuild | Recognition | CreditNote
  | DebitNote | Refund | FxRevaluation | FxRevalReversal

fun side_as_str :: "side \<Rightarrow> string" where
  "side_as_str Debit = ''DR''"
| "side_as_str Credit = ''CR''"

fun mapping_status_as_str :: "mapping_status \<Rightarrow> string" where
  "mapping_status_as_str Resolved = ''RESOLVED''"
| "mapping_status_as_str Pending = ''PENDING''"

fun account_class_as_str :: "account_class \<Rightarrow> string" where
  "account_class_as_str Ar = ''AR''"
| "account_class_as_str CashClearing = ''CASH_CLEARING''"
| "account_class_as_str Unallocated = ''UNALLOCATED''"
| "account_class_as_str ReusableCredit = ''REUSABLE_CREDIT''"
| "account_class_as_str ContractLiability = ''CONTRACT_LIABILITY''"
| "account_class_as_str Revenue = ''REVENUE''"
| "account_class_as_str TaxPayable = ''TAX_PAYABLE''"
| "account_class_as_str Suspense = ''SUSPENSE''"
| "account_class_as_str DisputeHold = ''DISPUTE_HOLD''"
| "account_class_as_str RefundClearing = ''REFUND_CLEARING''"
| "account_class_as_str ContraRevenue = ''CONTRA_REVENUE''"
| "account_class_as_str Goodwill = ''GOODWILL''"
| "account_class_as_str DisputeLossExpense = ''DISPUTE_LOSS_EXPENSE''"
| "account_class_as_str PspFeeExpense = ''PSP_FEE_EXPENSE''"
| "account_class_as_str FxGainLoss = ''FX_GAIN_LOSS''"
| "account_class_as_str FxUnrealized = ''FX_UNREALIZED''"

fun source_doc_type_as_str :: "source_doc_type \<Rightarrow> string" where
  "source_doc_type_as_str InvoicePost = ''INVOICE_POST''"
| "source_doc_type_as_str Reversal = ''REVERSAL''"
| "source_doc_type_as_str MappingCorrection = ''MAPPING_CORRECTION''"
| "source_doc_type_as_str PaymentSettle = ''PAYMENT_SETTLE''"
| "source_doc_type_as_str PaymentAllocate = ''PAYMENT_ALLOCATE''"
| "source_doc_type_as_str Chargeback = ''CHARGEBACK''"
| "source_doc_type_as_str CreditApply = ''CREDIT_APPLY''"
| "source_doc_type_as_str SettlementReturn = ''SETTLEMENT_RETURN''"
| "source_doc_type_as_str ManualAdjustment = ''MANUAL_ADJUSTMENT''"
| "source_doc_type_as_str ScheduleBuild = ''SCHEDULE_BUILD''"
| "source_doc_type_as_str Recognition = ''RECOGNITION''"
| "source_doc_type_as_str CreditNote = ''CREDIT_NOTE''"
| "source_doc_type_as_str DebitNote = ''DEBIT_NOTE''"
| "source_doc_type_as_str Refund = ''REFUND''"
| "source_doc_type_as_str FxRevaluation = ''FX_REVALUATION''"
| "source_doc_type_as_str FxRevalReversal = ''FX_REVAL_REVERSAL''"

text \<open>
  The \<open>str_enum!\<close> macro derives \<open>from_str\<close> from the same variant list: the first variant whose
  literal is the text, else an \<open>UnknownLiteral\<close> naming the enum and the text.
\<close>

record unknown_literal =
  ul_kind :: string
  ul_value :: string

definition enum_from_str :: "string \<Rightarrow> 'a list \<Rightarrow> ('a \<Rightarrow> string) \<Rightarrow> string \<Rightarrow> unknown_literal + 'a" where
  "enum_from_str kind variants as_str s =
     (case find (\<lambda>v. as_str v = s) variants of
        Some v \<Rightarrow> Inr v
      | None \<Rightarrow> Inl \<lparr>ul_kind = kind, ul_value = s\<rparr>)"

definition side_from_str :: "string \<Rightarrow> unknown_literal + side" where
  "side_from_str = enum_from_str ''side'' [Debit, Credit] side_as_str"

definition mapping_status_from_str :: "string \<Rightarrow> unknown_literal + mapping_status" where
  "mapping_status_from_str = enum_from_str ''mapping_status'' [Resolved, Pending] mapping_status_as_str"

definition account_class_from_str :: "string \<Rightarrow> unknown_literal + account_class" where
  "account_class_from_str = enum_from_str ''account_class''
     [Ar, CashClearing, Unallocated, ReusableCredit, ContractLiability, Revenue, TaxPayable,
      Suspense, DisputeHold, RefundClearing, ContraRevenue, Goodwill, DisputeLossExpense,
      PspFeeExpense, FxGainLoss, FxUnrealized] account_class_as_str"

definition source_doc_type_from_str :: "string \<Rightarrow> unknown_literal + source_doc_type" where
  "source_doc_type_from_str = enum_from_str ''source_doc_type''
     [InvoicePost, Reversal, MappingCorrection, PaymentSettle, PaymentAllocate, Chargeback,
      CreditApply, SettlementReturn, ManualAdjustment, ScheduleBuild, Recognition, CreditNote,
      DebitNote, Refund, FxRevaluation, FxRevalReversal] source_doc_type_as_str"

definition GUARDED :: "account_class list" where
  "GUARDED = [Ar, CashClearing, Unallocated, ContractLiability, DisputeHold, RefundClearing]"

definition is_guarded :: "account_class \<Rightarrow> bool" where
  "is_guarded c \<longleftrightarrow> c \<in> set GUARDED"

definition PER_STREAM :: "account_class list" where
  "PER_STREAM = [Revenue, ContractLiability]"

definition is_per_stream :: "account_class \<Rightarrow> bool" where
  "is_per_stream c \<longleftrightarrow> c \<in> set PER_STREAM"

text \<open>What every enum of the macro offers: a literal names one variant and is read back.\<close>

locale stored_enum =
  fixes as_str :: "'a \<Rightarrow> string" and from_str :: "string \<Rightarrow> unknown_literal + 'a" and kind :: string
  assumes read_back: "from_str (as_str v) = Inr v"
    and accepts: "from_str s = Inr v \<Longrightarrow> as_str v = s"
    and rejects: "from_str s = Inl e \<Longrightarrow> e = \<lparr>ul_kind = kind, ul_value = s\<rparr>"
begin

lemma literal_inj: "as_str v = as_str w \<Longrightarrow> v = w"
  by (metis read_back sum.inject(2))

lemma literal_iff: "from_str s = Inr v \<longleftrightarrow> s = as_str v"
  using read_back accepts by blast

end

lemma enum_from_str_facts:
  "enum_from_str kind vs as_str s = Inr v \<Longrightarrow> as_str v = s"
  "enum_from_str kind vs as_str s = Inl e \<Longrightarrow> e = \<lparr>ul_kind = kind, ul_value = s\<rparr>"
  by (auto simp: enum_from_str_def find_Some_iff split: option.splits)

text \<open>Literals listed in ascending order are distinct, so each one is found at its own variant.\<close>

lemma enum_read_back:
  assumes asc: "ascending (map as_str ws)" and ws: "\<And>v. v \<in> set ws" and vs: "\<And>v. v \<in> set vs"
  shows "enum_from_str kind vs as_str (as_str v) = Inr v"
proof -
  have "distinct (map as_str ws)" using ascending_sorted [OF asc] by (simp only: strict_sorted_iff)
  then have inj: "as_str x = as_str y \<Longrightarrow> x = y" for x y using ws by (auto simp: distinct_map dest: inj_onD)
  obtain x where x: "find (\<lambda>x. as_str x = as_str v) vs = Some x"
    using vs [of v] by (cases "find (\<lambda>x. as_str x = as_str v) vs") (auto simp: find_None_iff)
  then have "x = v" by (auto simp: find_Some_iff dest: inj)
  with x show ?thesis by (simp add: enum_from_str_def)
qed

lemmas enum_defs =
  side_from_str_def mapping_status_from_str_def account_class_from_str_def source_doc_type_from_str_def

lemma side_ascending:
  "ascending (map side_as_str
     [Credit, Debit])"
  by code_simp

interpretation side_enum: stored_enum side_as_str side_from_str "''side''"
proof unfold_locales
  show "side_from_str (side_as_str v) = Inr v" for v
    unfolding enum_defs by (rule enum_read_back [OF side_ascending]; rename_tac w, case_tac w; simp)
qed (unfold enum_defs, (erule enum_from_str_facts)+)

lemma mapping_status_ascending:
  "ascending (map mapping_status_as_str
     [Pending, Resolved])"
  by code_simp

interpretation mapping_enum: stored_enum mapping_status_as_str mapping_status_from_str "''mapping_status''"
proof unfold_locales
  show "mapping_status_from_str (mapping_status_as_str v) = Inr v" for v
    unfolding enum_defs by (rule enum_read_back [OF mapping_status_ascending]; rename_tac w, case_tac w; simp)
qed (unfold enum_defs, (erule enum_from_str_facts)+)

lemma account_class_ascending:
  "ascending (map account_class_as_str
     [Ar, CashClearing, ContractLiability, ContraRevenue, DisputeHold, DisputeLossExpense,
      FxGainLoss, FxUnrealized, Goodwill, PspFeeExpense, RefundClearing, ReusableCredit,
      Revenue, Suspense, TaxPayable, Unallocated])"
  by code_simp

interpretation account_enum: stored_enum account_class_as_str account_class_from_str "''account_class''"
proof unfold_locales
  show "account_class_from_str (account_class_as_str v) = Inr v" for v
    unfolding enum_defs by (rule enum_read_back [OF account_class_ascending]; rename_tac w, case_tac w; simp)
qed (unfold enum_defs, (erule enum_from_str_facts)+)

lemma source_doc_type_ascending:
  "ascending (map source_doc_type_as_str
     [Chargeback, CreditApply, CreditNote, DebitNote, FxRevaluation, FxRevalReversal,
      InvoicePost, ManualAdjustment, MappingCorrection, PaymentAllocate, PaymentSettle,
      Recognition, Refund, Reversal, ScheduleBuild, SettlementReturn])"
  by code_simp

interpretation doc_enum: stored_enum source_doc_type_as_str source_doc_type_from_str "''source_doc_type''"
proof unfold_locales
  show "source_doc_type_from_str (source_doc_type_as_str v) = Inr v" for v
    unfolding enum_defs by (rule enum_read_back [OF source_doc_type_ascending]; rename_tac w, case_tac w; simp)
qed (unfold enum_defs, (erule enum_from_str_facts)+)

section \<open>Posting DTOs\<close>

record post_line =
  line_id :: uuid
  payer_tenant_id :: uuid
  seller_tenant_id :: "uuid option"
  resource_tenant_id :: "uuid option"
  account_id :: uuid
  account_class :: account_class
  gl_code :: "string option"
  side :: side
  money :: posted_money
  invoice_id :: "string option"
  due_date :: "naive_date option"
  revenue_stream :: "string option"
  mapping_status :: mapping_status
  functional_money :: "posted_money option"
  tax_jurisdiction :: "string option"
  tax_filing_period :: "string option"
  tax_rate_ref :: "string option"
  invoice_item_ref :: "string option"
  sku_or_plan_ref :: "string option"
  price_id :: "string option"
  pricing_snapshot_ref :: "string option"
  po_allocation_group :: "string option"
  credit_grant_event_type :: "string option"
  ar_status :: "string option"

record post_entry =
  entry_id :: uuid
  tenant_id :: uuid
  period_id :: string
  entry_currency :: string
  source_doc_type :: source_doc_type
  source_business_id :: string
  effective_at :: naive_date
  posted_by_actor_id :: uuid
  correlation_id :: uuid
  reverses_entry_id :: "uuid option"
  reverses_period_id :: "string option"
  lines :: "post_line list"

section \<open>Rejections\<close>

datatype domain_error =
    D_ConcurrentModification | D_InvalidPostingIncrement | D_Unbalanced | D_Empty | D_MixedPayer
  | D_MissingPayer | D_MixedLegalEntity | D_InconsistentScale | D_AmountOutOfRange | D_EntryTooLarge
  | D_InvalidRequest | D_ScaleOutOfRange | D_CreditResidualUndisposed | D_MoneyOutCapExceeded
  | D_AllocationTooLarge | D_AllocationCurrencyMismatch | D_CurrencyMismatch | D_FxRateUnavailable
  | D_FxRateStaleNotAllowed | D_AllocationSplitInvalid | D_GrantExceedsUnallocated
  | D_CreditExceedsOpenAr | D_CreditExceedsWallet | D_ScheduleTooLong | D_SspSnapshotRequired
  | D_MissingPoAllocationGroup | D_RecognitionPolicyConflict | D_CreditNoteSplitAmbiguous
  | D_CreditNoteExceedsHeadroom | D_RefundExceedsSettled | D_RefundExceedsAllocated
  | D_ModificationTreatmentReview | D_RecognitionWithoutInvoiceLink | D_ManualAdjustmentNotAllowed
  | D_PiiInMetadataValue | D_MissingInvestigationReason | D_CrossTenantAccessDenied | D_PeriodClosed
  | D_AccountClosed | D_PayerClosed | D_AccountMappingMissing | D_NegativeBalance
  | D_SettlementReturnOverAllocated | D_InvalidDisputeTransition | D_ChargebackExceedsSettled
  | D_ChargebackOnRefunded | D_ClockSkewQuarantine | D_PeriodNotOpen | D_PeriodCloseBlocked
  | D_PeriodCloseInProgress | D_IdempotencyConflict | D_CurrencyScaleLocked | D_OverRecognition
  | D_RefundClawbackDeferred | D_FxOperationUnsupported | D_RefundDisputeHeld | D_DualControlRequired
  | D_SelfApprovalForbidden | D_ApprovalNotActionable | D_DualControlPolicyOutOfRange
  | D_TamperVerificationFailed | D_PolicyVersionViolation | D_TenantPostingLocked | D_PeriodNotFound
  | D_ApprovalNotFound | D_PayerPiiNotFound | D_NoteInvoiceNotFound | D_RefundOriginNotFound
  | D_Internal
  | D_CarrierPanic \<comment> \<open>not a variant of the source: the carrier panic of \<open>exact_error\<close>, carried through\<close>

section \<open>Money in the ledger domain\<close>

fun map_money_error :: "money_error \<Rightarrow> domain_error" where
  "map_money_error InvalidDecimal = D_InvalidRequest"
| "map_money_error InvalidCurrency = D_InvalidRequest"
| "map_money_error ScaleOutOfRange = D_ScaleOutOfRange"
| "map_money_error MoneyOutOfRange = D_AmountOutOfRange"
| "map_money_error InvalidPostingIncrement = D_InvalidPostingIncrement"
| "map_money_error CurrencyMismatch = D_CurrencyMismatch"
| "map_money_error ScaleMismatch = D_InconsistentScale"

fun map_exact_error :: "exact_error \<Rightarrow> domain_error" where
  "map_exact_error (MoneyErr e) = map_money_error e"
| "map_exact_error ArithmeticLimit = D_AmountOutOfRange"
| "map_exact_error TooManyTerms = D_ScheduleTooLong"
| "map_exact_error DivisionByZero = D_Internal"
| "map_exact_error EmptyWeights = D_Internal"
| "map_exact_error NegativeWeight = D_Internal"
| "map_exact_error CarrierPanic = D_CarrierPanic"

definition matching_currency :: "currency_spec \<Rightarrow> currency_spec \<Rightarrow> domain_error + unit" where
  "matching_currency l r = map_err map_money_error (ensure_same l r)"

definition matching_spec :: "posted_money \<Rightarrow> posted_money \<Rightarrow> domain_error + unit" where
  "matching_spec l r = matching_currency (currency l) (currency r)"

definition subtract_posted :: "decimal_ops \<Rightarrow> posted_money \<Rightarrow> posted_money \<Rightarrow> domain_error + posted_money" where
  "subtract_posted D l r =
     rbind (matching_spec l r) (\<lambda>_.
       map_err map_exact_error
         (rbind (checked_sub (from_decimal (amount l)) (from_decimal (amount r))) (\<lambda>v.
            into_posted_exact D v (currency l))))"

definition zero_posted :: "decimal_ops \<Rightarrow> posted_money \<Rightarrow> domain_error + posted_money" where
  "zero_posted D basis = map_err map_money_error (posted_try_new D dec_zero (currency basis))"

record iso_scale_conflict =
  ic_currency :: string
  ic_iso_scale :: nat
  ic_requested :: nat

definition check_iso_scale :: "string \<Rightarrow> nat \<Rightarrow> iso_scale_conflict + unit" where
  "check_iso_scale cur s =
     (case iso_scale cur of
        Some k \<Rightarrow> if k \<noteq> s then Inl \<lparr>ic_currency = cur, ic_iso_scale = k, ic_requested = s\<rparr> else Inr ()
      | None \<Rightarrow> Inr ())"

definition minor_units :: "decimal_ops \<Rightarrow> posted_money \<Rightarrow> int option" where
  "minor_units D m =
     (let a = normalize D (amount m); s = cur_scale (currency m)
      in if s < dec_scale a then None
         else Option.bind (i128_checked (10 ^ (s - dec_scale a))) (\<lambda>factor.
              Option.bind (i128_checked (mantissa a * factor)) (\<lambda>minor.
                if - (2 ^ 63) \<le> minor \<and> minor < 2 ^ 63 then Some minor else None)))"

lemma matching_currency_Inr [simp]: "matching_currency l r = Inr u \<longleftrightarrow> l = r"
  by (simp add: matching_currency_def)

lemma matching_spec_Inr [simp]: "matching_spec l r = Inr u \<longleftrightarrow> currency l = currency r"
  by (simp add: matching_spec_def)

lemma matching_spec_same [simp]: "currency l = currency r \<Longrightarrow> matching_spec l r = Inr ()"
  by simp

text \<open>A well-formed posting: a validated amount in a validated currency.\<close>

definition posting_ok :: "posted_money \<Rightarrow> bool" where
  "posting_ok m \<longleftrightarrow> posted_ok m \<and> cur_scale (currency m) \<le> 28"

lemma difference_narrow:
  "checked_sub (from_decimal a) (from_decimal b) = Inr (amount_of (dval a - dval b))"
  "exact_ready (amount_of (dval a - dval b))"
proof -
  have g: "dec_grid (1 + 1) (dval a + - dval b)" by (intro dec_grid_add) (simp_all add: dec_grid_dval del: One_nat_def)
  have n: "narrow (dval a + - dval b) = Inr (amount_of (dval a + - dval b))" by (rule dec_grid_narrow [OF g]) simp
  then show "checked_sub (from_decimal a) (from_decimal b) = Inr (amount_of (dval a - dval b))"
    by (simp add: checked_sub_narrow)
  show "exact_ready (amount_of (dval a - dval b))" using narrow_ready [OF n] by simp
qed

lemma subtract_posted_Inr:
  assumes D: "decimal_contract D" and s: "cur_scale (currency l) \<le> 28"
  shows "subtract_posted D l r = Inr m \<longleftrightarrow> currency l = currency r \<and> represents m (currency l) (mval l - mval r)"
  by (auto simp: subtract_posted_def difference_narrow into_posted_exact_Inr [OF D _ s])

lemma zero_posted_Inr:
  assumes D: "decimal_contract D"
  shows "zero_posted D basis = Inr m \<longleftrightarrow> represents m (currency basis) 0"
  by (simp add: zero_posted_def posted_try_new_represents [OF D])

lemma zero_posted_total:
  assumes D: "decimal_contract D"
  shows "\<exists>m. zero_posted D basis = Inr m \<and> represents m (currency basis) 0"
  using posted_try_new_complete [OF D, of dec_zero "currency basis"]
  by (auto simp: zero_posted_def represents_def)

lemma check_iso_scale_Inr: "check_iso_scale cur s = Inr u \<longleftrightarrow> iso_scale cur = None \<or> iso_scale cur = Some s"
  by (auto simp: check_iso_scale_def split: option.splits)

text \<open>The minor units of a posting are its value scaled up, exactly, when they fit an \<open>i64\<close>.\<close>

lemma small_fits_i128: "0 < k \<Longrightarrow> k \<le> 10 ^ 28 \<Longrightarrow> fits_i128 k"
  by (simp add: fits_i128_def)

lemma minor_units_value:
  assumes D: "decimal_contract D" and m: "posting_ok m"
  shows "minor_units D m = Some k \<longleftrightarrow>
    of_int k = mval m * 10 ^ cur_scale (currency m) \<and> - (2 ^ 63) \<le> k \<and> k < 2 ^ 63"
proof -
  let ?a = "amount m" and ?s = "cur_scale (currency m)"
  have le: "dec_scale ?a \<le> ?s" and s28: "?s \<le> 28" and man: "\<bar>mantissa ?a\<bar> < 10 ^ 28"
    and nrm: "normalize D ?a = ?a"
    using m by (auto simp: posting_ok_def posted_ok_def normalize_canonical [OF D])
  let ?f = "(10::int) ^ (?s - dec_scale ?a)"
  have "?f \<le> 10 ^ 28" using s28 by (intro power_increasing) simp_all
  moreover have "0 < ?f" by simp
  ultimately have f: "fits_i128 ?f" by (rule small_fits_i128 [rotated])
  have v: "mval m * 10 ^ ?s = of_int (mantissa ?a * ?f)"
    unfolding dval_def scaled_shift [OF le] by simp
  have "minor_units D m = Some k \<longleftrightarrow>
      fits_i128 (mantissa ?a * ?f) \<and> k = mantissa ?a * ?f \<and> - (2 ^ 63) \<le> k \<and> k < 2 ^ 63"
    using le f by (auto simp: minor_units_def nrm Let_def bind_eq_Some_conv i128_checked_def)
  also have "\<dots> \<longleftrightarrow> k = mantissa ?a * ?f \<and> - (2 ^ 63) \<le> k \<and> k < 2 ^ 63"
    by (auto simp: fits_i128_def)
  finally show ?thesis unfolding v of_int_eq_iff .
qed

end
