(* ===== verification/Stored_Money.thy ===== *)
theory Stored_Money
  imports Ledger_Types Money_Text
begin

text \<open>
  \<open>ledger/src/infra/storage/money_text.rs\<close> and the repository errors of
  \<open>ledger/src/domain/model.rs\<close>: money in database columns.  A column accepts exactly the canonical text
  of a validated amount.  \<open>i16\<close> columns are \<open>int\<close>.
\<close>

datatype repo_error =
    R_InvalidRequest
  | R_Conflict
  | R_Db
  | R_Money money_error
  | R_InvalidStoredMoney
  | R_ApprovalPolicyOutOfRange
  | R_RowVanished
  | R_ScaleOutOfRange
  | R_CurrencyScaleLocked
  | R_MoneyOutCapExceeded
  | R_DisputeNotOpen
  | R_RecognitionPolicyConflict

definition encode_amount :: "decimal_ops \<Rightarrow> posted_money \<Rightarrow> string" where
  "encode_amount D m = canonical_decimal D (amount m)"

definition stored :: "'e + 'a \<Rightarrow> repo_error + 'a" where
  "stored = map_err (\<lambda>_. R_InvalidStoredMoney)"

definition decode_amount :: "decimal_ops \<Rightarrow> string \<Rightarrow> currency_spec \<Rightarrow> repo_error + posted_money" where
  "decode_amount D t cur =
     rbind (stored (parse_decimal D t)) (\<lambda>a.
       if canonical_decimal D a \<noteq> t then Inl R_InvalidStoredMoney
       else stored (posted_try_new D a cur))"

definition decode_currency :: "string \<Rightarrow> int \<Rightarrow> repo_error + currency_spec" where
  "decode_currency c s =
     (if s < 0 \<or> 255 < s then Inl R_InvalidStoredMoney else stored (currency_try_new c (nat s)))"

definition decode_money :: "decimal_ops \<Rightarrow> string \<Rightarrow> string \<Rightarrow> int \<Rightarrow> repo_error + posted_money" where
  "decode_money D t c s = rbind (decode_currency c s) (decode_amount D t)"

fun decode_optional_money ::
  "decimal_ops \<Rightarrow> string option \<Rightarrow> string option \<Rightarrow> int option \<Rightarrow> repo_error + posted_money option" where
  "decode_optional_money D None None None = Inr None"
| "decode_optional_money D (Some t) (Some c) (Some s) = rbind (decode_money D t c s) (\<lambda>m. Inr (Some m))"
| "decode_optional_money D _ _ _ = Inl R_InvalidStoredMoney"

definition decode_rate :: "decimal_ops \<Rightarrow> string \<Rightarrow> repo_error + decimal" where
  "decode_rate D t =
     rbind (stored (parse_decimal D t)) (\<lambda>a.
       if canonical_decimal D a \<noteq> t \<or> dec_le D a dec_zero then Inl R_InvalidStoredMoney else Inr a)"

section \<open>Decoding accepts exactly the encodings\<close>

lemma stored_Inr [simp]: "stored x = Inr y \<longleftrightarrow> x = Inr y"
  by (simp add: stored_def)

lemma validate_amount_fixed:
  assumes D: "decimal_contract D"
  shows "validate_amount D a = Inr a \<longleftrightarrow> dec_canonical a \<and> \<bar>mantissa a\<bar> < 10 ^ 28"
proof
  assume "validate_amount D a = Inr a"
  then show "dec_canonical a \<and> \<bar>mantissa a\<bar> < 10 ^ 28" using validate_amount_Inr [OF D] by blast
qed (use normalize_canonical [OF D] in \<open>simp add: validate_amount_def Let_def COEFFICIENT_LIMIT_def\<close>)

lemma parse_decimal_canonical:
  assumes D: "decimal_contract D" and T: "text_contract D"
    and p: "parse_decimal D t = Inr a" and c: "canonical_decimal D a = t"
  shows "dec_canonical a" "\<bar>mantissa a\<bar> < 10 ^ 28"
proof -
  have "validate_amount D a = Inr a" using parse_canonical_decimal [OF D T, of a] p c by simp
  then show "dec_canonical a" "\<bar>mantissa a\<bar> < 10 ^ 28" by (simp_all add: validate_amount_fixed [OF D])
qed

lemma decode_amount_Inr:
  assumes D: "decimal_contract D" and T: "text_contract D"
  shows "decode_amount D t cur = Inr m \<longleftrightarrow> posted_ok m \<and> currency m = cur \<and> encode_amount D m = t"
proof
  assume "decode_amount D t cur = Inr m"
  then obtain a where p: "parse_decimal D t = Inr a" and c: "canonical_decimal D a = t"
      and m: "represents m cur (dval a)"
    by (auto simp: decode_amount_def posted_try_new_represents [OF D] split: if_splits)
  have "dec_canonical a" using parse_decimal_canonical(1) [OF D T p c] .
  then have "amount m = a" using m by (intro canonical_unique) (auto simp: represents_def posted_ok_def)
  then show "posted_ok m \<and> currency m = cur \<and> encode_amount D m = t"
    using m c by (simp add: represents_def encode_amount_def)
next
  assume m: "posted_ok m \<and> currency m = cur \<and> encode_amount D m = t"
  then have "validate_amount D (amount m) = Inr (amount m)"
    by (simp add: validate_amount_fixed [OF D] posted_ok_def)
  then have "parse_decimal D t = Inr (amount m)"
    using m parse_canonical_decimal [OF D T, of "amount m"] by (simp add: encode_amount_def)
  then show "decode_amount D t cur = Inr m"
    using m by (simp add: decode_amount_def encode_amount_def posted_try_new_represents [OF D] represents_def)
qed

lemma decode_currency_Inr:
  "decode_currency c s = Inr cur \<longleftrightarrow> spec_ok cur \<and> code cur = c \<and> int (cur_scale cur) = s"
  by (cases cur) (auto simp: decode_currency_def currency_try_new_Inr spec_ok_def)

lemma decode_money_Inr:
  assumes "decimal_contract D" "text_contract D"
  shows "decode_money D t c s = Inr m \<longleftrightarrow>
    posted_ok m \<and> spec_ok (currency m) \<and> encode_amount D m = t \<and> code (currency m) = c \<and> int (cur_scale (currency m)) = s"
  by (auto simp: decode_money_def decode_currency_Inr decode_amount_Inr [OF assms])

lemma stored_Inl: "stored x = Inl e \<Longrightarrow> e = R_InvalidStoredMoney"
  by (cases x) (auto simp: stored_def)

lemma decode_money_Inl: "decode_money D t c s = Inl e \<Longrightarrow> e = R_InvalidStoredMoney"
  by (auto simp: decode_money_def decode_currency_def decode_amount_def rbind_eq_Inl dest: stored_Inl split: if_splits)

lemma decode_rate_Inr:
  assumes D: "decimal_contract D" and T: "text_contract D"
  shows "decode_rate D t = Inr a \<longleftrightarrow>
    dec_canonical a \<and> \<bar>mantissa a\<bar> < 10 ^ 28 \<and> 0 < dval a \<and> canonical_decimal D a = t"
proof
  assume "decode_rate D t = Inr a"
  then show "dec_canonical a \<and> \<bar>mantissa a\<bar> < 10 ^ 28 \<and> 0 < dval a \<and> canonical_decimal D a = t"
    using parse_decimal_canonical [OF D T, of t a]
    by (auto simp: decode_rate_def contract_compare [OF D] not_less split: if_splits)
next
  assume a: "dec_canonical a \<and> \<bar>mantissa a\<bar> < 10 ^ 28 \<and> 0 < dval a \<and> canonical_decimal D a = t"
  then have "validate_amount D a = Inr a" by (simp_all add: validate_amount_fixed [OF D])
  with a show "decode_rate D t = Inr a"
    using parse_canonical_decimal [OF D T, of a] by (auto simp: decode_rate_def contract_compare [OF D])
qed

end
