(* ===== verification/Canonical.thy ===== *)
theory Canonical
  imports Stored_Money
begin

text \<open>
  \<open>ledger/src/domain/canonical.rs\<close>: the framing under the tamper-evidence chain and the payload hash.  A
  byte is a \<open>char\<close>, so a string is its own byte sequence.  The locale \<open>framed\<close> states what a frame
  promises: on the values that fit, a buffer that starts with one has exactly one reading.  The digest
  itself is an argument of the definitions that use it.
\<close>

type_synonym bytes = string

section \<open>Big-endian integers\<close>

primrec be_bytes :: "nat \<Rightarrow> nat \<Rightarrow> bytes" where
  "be_bytes 0 n = []"
| "be_bytes (Suc w) n = char_of (n div 256 ^ w mod 256 :: nat) # be_bytes w n"

lemma be_bytes_length [simp]: "length (be_bytes w n) = w"
  by (induction w) simp_all

lemma be_bytes_mod: "be_bytes w (n mod 256 ^ w) = be_bytes w n"
proof -
  have "be_bytes v (n mod 256 ^ w) = be_bytes v n" if "v \<le> w" for v
    using that
  proof (induction v)
    case (Suc v)
    have "n mod 256 ^ w div 256 ^ v mod 256 = n div 256 ^ v mod 256"
    proof -
      have "(256::nat) ^ w = 256 ^ v * (256 * 256 ^ (w - Suc v))"
        using Suc.prems by (simp flip: power_add power_Suc)
      then show ?thesis by (simp add: mod_mult2_eq mult.assoc)
    qed
    then show ?case using Suc by simp
  qed simp
  then show ?thesis by simp
qed

lemma be_bytes_inj:
  assumes "be_bytes w m = be_bytes w n" "m < 256 ^ w" "n < 256 ^ w"
  shows "m = n"
  using assms
proof (induction w arbitrary: m n)
  case (Suc w)
  have "m div 256 ^ w < 256" "n div 256 ^ w < 256"
    using Suc.prems by (simp_all add: less_mult_imp_div_less mult.commute)
  then have hi: "m div 256 ^ w = n div 256 ^ w" using Suc.prems(1) by (auto dest: char_of_eq_iff [THEN iffD1])
  have "be_bytes w (m mod 256 ^ w) = be_bytes w (n mod 256 ^ w)" using Suc.prems(1) by (simp add: be_bytes_mod)
  then have lo: "m mod 256 ^ w = n mod 256 ^ w" by (rule Suc.IH) simp_all
  show ?case using hi lo by (metis div_mult_mod_eq)
qed simp

section \<open>Fields\<close>

definition ABSENT :: char where
  "ABSENT = char_of (0 :: nat)"

definition PRESENT :: char where
  "PRESENT = char_of (1 :: nat)"

text \<open>Each \<open>put\<close> appends to the buffer; these are the bytes it appends.\<close>

definition put :: "bytes \<Rightarrow> bytes" where
  "put b = PRESENT # be_bytes 4 (min (length b) (2 ^ 32 - 1)) @ b"

definition put_none :: bytes where
  "put_none = [ABSENT]"

definition put_opt :: "bytes option \<Rightarrow> bytes" where
  "put_opt b = (case b of Some x \<Rightarrow> put x | None \<Rightarrow> put_none)"

definition put_str :: "string \<Rightarrow> bytes" where
  "put_str s = put s"

definition put_opt_str :: "string option \<Rightarrow> bytes" where
  "put_opt_str s = put_opt s"

text \<open>The sixteen bytes of a \<open>Uuid\<close>.\<close>

definition put_uuid :: "uuid \<Rightarrow> bytes" where
  "put_uuid u = put (be_bytes 16 u)"

definition put_opt_uuid :: "uuid option \<Rightarrow> bytes" where
  "put_opt_uuid u = (case u of Some x \<Rightarrow> put_uuid x | None \<Rightarrow> put_none)"

text \<open>Two's complement.\<close>

definition put_i64 :: "int \<Rightarrow> bytes" where
  "put_i64 n = put (be_bytes 8 (nat (n mod 2 ^ 64)))"

definition put_i32 :: "int \<Rightarrow> bytes" where
  "put_i32 n = put (be_bytes 4 (nat (n mod 2 ^ 32)))"

definition put_money :: "decimal_ops \<Rightarrow> posted_money \<Rightarrow> bytes" where
  "put_money D m =
     put_str (canonical_decimal D (amount m)) @ put_str (code (currency m)) @ put [char_of (cur_scale (currency m))]"

definition put_opt_money :: "decimal_ops \<Rightarrow> posted_money option \<Rightarrow> bytes" where
  "put_opt_money D m = (case m of Some x \<Rightarrow> put_money D x | None \<Rightarrow> put_none @ put_none @ put_none)"

section \<open>What a frame promises\<close>

locale framed =
  fixes enc :: "'a \<Rightarrow> bytes" and fits :: "'a \<Rightarrow> bool"
  assumes reading: "fits x \<Longrightarrow> fits y \<Longrightarrow> enc x @ u = enc y @ v \<Longrightarrow> x = y \<and> u = v"
begin

lemma split: "fits x \<Longrightarrow> fits y \<Longrightarrow> enc x @ u = enc y @ v \<longleftrightarrow> x = y \<and> u = v"
  using reading by blast

lemma encoding_inj: "inj_on enc (Collect fits)"
  using reading [of _ _ "[]" "[]"] by (auto intro: inj_onI)

text \<open>A list of frames of known length has one reading too.\<close>

lemma list_reading:
  assumes "list_all fits xs" "list_all fits ys" "length xs = length ys" "concat (map enc xs) @ u = concat (map enc ys) @ v"
  shows "xs = ys \<and> u = v"
  using assms(3,1,2,4) by (induction rule: list_induct2) (auto simp: split)

end

text \<open>A frame that starts with the presence byte also frames optional values.\<close>

locale tagged = framed +
  assumes present: "\<exists>t. enc x = PRESENT # t"
begin

definition opt_enc :: "'a option \<Rightarrow> bytes" where
  "opt_enc z = (case z of Some x \<Rightarrow> enc x | None \<Rightarrow> put_none)"

definition opt_fits :: "'a option \<Rightarrow> bool" where
  "opt_fits z \<longleftrightarrow> (\<forall>x. z = Some x \<longrightarrow> fits x)"

lemma absent_differs: "enc x @ u = put_none @ v \<longleftrightarrow> False" "put_none @ v = enc x @ u \<longleftrightarrow> False"
  using present [of x] by (auto simp: put_none_def PRESENT_def ABSENT_def)

lemma opt_reading: "opt_fits x \<Longrightarrow> opt_fits y \<Longrightarrow> opt_enc x @ u = opt_enc y @ v \<Longrightarrow> x = y \<and> u = v"
  by (cases x; cases y) (simp_all add: opt_enc_def opt_fits_def absent_differs split)

end

sublocale tagged \<subseteq> optional: framed opt_enc opt_fits
  by unfold_locales (rule opt_reading)

definition field_fits :: "bytes \<Rightarrow> bool" where
  "field_fits b \<longleftrightarrow> length b < 2 ^ 32"

lemma put_split:
  assumes "field_fits a" "field_fits b" "put a @ u = put b @ v"
  shows "a = b \<and> u = v"
proof -
  have len: "length a < 256 ^ 4" "length b < 256 ^ 4" using assms(1,2) by (simp_all add: field_fits_def)
  then have "be_bytes 4 (length a) @ a @ u = be_bytes 4 (length b) @ b @ v" using assms by (simp add: put_def field_fits_def)
  then have "be_bytes 4 (length a) = be_bytes 4 (length b)" and rest: "a @ u = b @ v" by (simp_all add: append_eq_append_conv)
  then have "length a = length b" using len by (intro be_bytes_inj [of 4])
  then show ?thesis using rest by simp
qed

interpretation field: tagged put field_fits
  by unfold_locales (rule put_split, simp_all add: put_def)

text \<open>The other fields are injections into bytes, framed.\<close>

lemma framed_by:
  assumes "\<And>x y. fits x \<Longrightarrow> fits y \<Longrightarrow> f x = f y \<Longrightarrow> x = y" "\<And>x. fits x \<Longrightarrow> field_fits (f x)"
  shows "tagged (\<lambda>x. put (f x)) fits"
proof
  fix x y u v
  assume "fits x" "fits y" "put (f x) @ u = put (f y) @ v"
  then show "x = y \<and> u = v" using put_split [of "f x" "f y" u v] assms by simp
qed (simp add: put_def)

definition uuid_fits :: "uuid \<Rightarrow> bool" where
  "uuid_fits u \<longleftrightarrow> u < 2 ^ 128"

interpretation uuid_field: tagged put_uuid uuid_fits
  unfolding put_uuid_def [abs_def]
  by (rule framed_by) (auto simp: uuid_fits_def field_fits_def intro: be_bytes_inj)

definition i64_fits :: "int \<Rightarrow> bool" where
  "i64_fits n \<longleftrightarrow> - (2 ^ 63) \<le> n \<and> n < 2 ^ 63"

definition i32_fits :: "int \<Rightarrow> bool" where
  "i32_fits n \<longleftrightarrow> - (2 ^ 31) \<le> n \<and> n < 2 ^ 31"

lemma twos_complement_inj:
  assumes "be_bytes w (nat (m mod 2 ^ (8 * w))) = be_bytes w (nat (n mod 2 ^ (8 * w)))"
    and "- (2 ^ (8 * w)) \<le> 2 * m" "2 * m < 2 ^ (8 * w)" "- (2 ^ (8 * w)) \<le> 2 * n" "2 * n < 2 ^ (8 * w)"
  shows "m = n"
proof -
  let ?M = "2 ^ (8 * w) :: int"
  have M: "(256 :: nat) ^ w = nat ?M" by (simp add: power_mult nat_power_eq)
  have "nat (m mod ?M) = nat (n mod ?M)"
    using assms(1) by (rule be_bytes_inj) (simp_all only: M zless_nat_eq_int_zless nat_0_le pos_mod_bound pos_mod_sign zero_less_power zero_less_numeral nat_less_eq_zless)
  then have "m mod ?M = n mod ?M" by (simp add: nat_eq_iff2)
  then obtain k where k: "m = n + k * ?M" by (metis add.commute mod_eqE mult.commute)
  have "\<bar>k * ?M\<bar> < ?M" using assms(2-5) k by linarith
  then have "k = 0" by (simp add: abs_mult)
  then show ?thesis using k by simp
qed

interpretation i64_field: tagged put_i64 i64_fits
  unfolding put_i64_def [abs_def]
  by (rule framed_by) (auto simp: i64_fits_def field_fits_def intro: twos_complement_inj [of 8])

interpretation i32_field: tagged put_i32 i32_fits
  unfolding put_i32_def [abs_def]
  by (rule framed_by) (auto simp: i32_fits_def field_fits_def intro: twos_complement_inj [of 4])

lemma field_names:
  "put_str = put" "put_opt = field.opt_enc" "put_opt_str = field.opt_enc" "put_opt_uuid = uuid_field.opt_enc"
  by (simp_all add: fun_eq_iff put_str_def put_opt_def put_opt_str_def put_opt_uuid_def field.opt_enc_def uuid_field.opt_enc_def)

section \<open>Money\<close>

definition money_fits :: "decimal_ops \<Rightarrow> posted_money \<Rightarrow> bool" where
  "money_fits D m \<longleftrightarrow> decimal_contract D \<and> text_contract D \<and> posted_ok m \<and> spec_ok (currency m) \<and> field_fits (encode_amount D m)"

interpretation money_field: framed "put_money D" "money_fits D" for D
proof
  fix x y u v
  assume x: "money_fits D x" and y: "money_fits D y" and eq: "put_money D x @ u = put_money D y @ v"
  have "field_fits (code (currency x))" "field_fits (code (currency y))"
    using x y by (simp_all add: money_fits_def spec_ok_def field_fits_def)
  then have enc: "encode_amount D x = encode_amount D y" and c: "code (currency x) = code (currency y)"
    and s: "char_of (cur_scale (currency x)) = (char_of (cur_scale (currency y)) :: char)" and uv: "u = v"
    using eq x y by (auto simp: put_money_def field_names field.split money_fits_def field_fits_def encode_amount_def)
  have "cur_scale (currency x) < 256" "cur_scale (currency y) < 256" using x y by (auto simp: money_fits_def spec_ok_def)
  then have "cur_scale (currency x) = cur_scale (currency y)" using s by (simp add: char_of_eq_iff take_bit_nat_eq_self)
  with c have "currency x = currency y" by (cases "currency x"; cases "currency y") simp
  moreover have "decode_amount D (encode_amount D m) (currency m) = Inr m" if "money_fits D m" for m
    using that by (simp add: money_fits_def decode_amount_Inr)
  ultimately show "x = y \<and> u = v" using enc x y uv by (metis sum.inject(2))
qed

definition opt_money_fits :: "decimal_ops \<Rightarrow> posted_money option \<Rightarrow> bool" where
  "opt_money_fits D z \<longleftrightarrow> (\<forall>m. z = Some m \<longrightarrow> money_fits D m)"

lemma money_absent: "put_money D m @ u = put_none @ v \<longleftrightarrow> False" "put_none @ v = put_money D m @ u \<longleftrightarrow> False"
  by (simp_all add: put_money_def put_str_def put_def put_none_def PRESENT_def ABSENT_def)

interpretation opt_money_field: framed "put_opt_money D" "opt_money_fits D" for D
proof
  fix x y u v
  assume "opt_money_fits D x" "opt_money_fits D y" "put_opt_money D x @ u = put_opt_money D y @ v"
  then show "x = y \<and> u = v"
    by (cases x; cases y) (simp_all add: put_opt_money_def opt_money_fits_def money_absent money_field.split)
qed

text \<open>Reading a buffer field by field.\<close>

lemmas frame_split = field.split uuid_field.split i64_field.split i32_field.split money_field.split opt_money_field.split
  field.optional.split uuid_field.optional.split

end
