(* ===== verification/Posting.thy ===== *)
theory Posting
  imports Ledger_Types
begin

text \<open>
  \<open>ledger/src/domain/posting.rs\<close>: the structural invariants of an entry, checked before it is
  written.  \<open>validate_balanced_entry\<close> is the routine (a running exact net per currency code, then a
  second net over the functional amounts); \<open>balanced_lines\<close> is what it promises, stated on the values
  of the lines.  The routine accepts exactly the balanced entries.
\<close>

section \<open>The check\<close>

record line_facts =
  lf_side :: side
  lf_money :: posted_money
  lf_payer :: uuid
  lf_functional :: "posted_money option"

datatype posting_violation =
    PV_Empty | PV_Unbalanced | PV_MixedPayer | PV_CurrencyMismatch | PV_InconsistentScale
  | PV_AmountOutOfRange | PV_FunctionalPartial | PV_FunctionalUnbalanced

fun violation_error :: "posting_violation \<Rightarrow> domain_error" where
  "violation_error PV_Empty = D_Empty"
| "violation_error PV_MixedPayer = D_MixedPayer"
| "violation_error PV_InconsistentScale = D_InconsistentScale"
| "violation_error PV_Unbalanced = D_Unbalanced"
| "violation_error PV_CurrencyMismatch = D_CurrencyMismatch"
| "violation_error PV_AmountOutOfRange = D_AmountOutOfRange"
| "violation_error PV_FunctionalPartial = D_Unbalanced"
| "violation_error PV_FunctionalUnbalanced = D_Unbalanced"

definition is_functional_only :: "decimal_ops \<Rightarrow> posted_money \<Rightarrow> posted_money option \<Rightarrow> bool" where
  "is_functional_only D m f \<longleftrightarrow> is_zero D (amount m) \<and> f \<noteq> None"

definition add_signed :: "exact_amount \<Rightarrow> posted_money \<Rightarrow> side \<Rightarrow> posting_violation + exact_amount" where
  "add_signed net m sd =
     (let v = from_decimal (amount m)
      in map_err (\<lambda>_. PV_AmountOutOfRange)
           (case sd of Debit \<Rightarrow> checked_add net v | Credit \<Rightarrow> checked_sub net v))"

definition amount_refused :: "decimal_ops \<Rightarrow> line_facts \<Rightarrow> bool" where
  "amount_refused D l \<longleftrightarrow>
     dec_lt D (amount (lf_money l)) dec_zero \<or>
     (is_zero D (amount (lf_money l)) \<and>
      (case lf_functional l of None \<Rightarrow> True | Some f \<Rightarrow> dec_le D (amount f) dec_zero))"

definition group_line ::
  "line_facts \<Rightarrow> (string \<times> nat \<times> exact_amount) list
   \<Rightarrow> posting_violation + (string \<times> nat \<times> exact_amount) list" where
  "group_line l groups =
     (let spec = currency (lf_money l);
          (s, net) = (case map_of groups (code spec) of
                        None \<Rightarrow> (cur_scale spec, from_decimal dec_zero)
                      | Some g \<Rightarrow> g)
      in if s \<noteq> cur_scale spec then Inl PV_InconsistentScale
         else rbind (add_signed net (lf_money l) (lf_side l)) (\<lambda>net'.
                Inr (AList.update (code spec) (s, net') groups)))"

definition functional_line ::
  "posted_money \<Rightarrow> line_facts \<Rightarrow> exact_amount \<Rightarrow> posting_violation + exact_amount" where
  "functional_line first l net =
     (case lf_functional l of
        None \<Rightarrow> Inl PV_FunctionalPartial
      | Some m \<Rightarrow>
          if code (currency m) \<noteq> code (currency first) then Inl PV_CurrencyMismatch
          else if cur_scale (currency m) \<noteq> cur_scale (currency first) then Inl PV_InconsistentScale
          else add_signed net m (lf_side l))"

definition validate_balanced_entry ::
  "decimal_ops \<Rightarrow> string \<Rightarrow> line_facts list \<Rightarrow> posting_violation + unit" where
  "validate_balanced_entry D cur ls =
     (if ls = [] then Inl PV_Empty
      else if list_ex (amount_refused D) ls then Inl PV_AmountOutOfRange
      else if list_ex (\<lambda>l. lf_payer l \<noteq> lf_payer (ls ! 0)) ls then Inl PV_MixedPayer
      else if list_ex (\<lambda>l. code (currency (lf_money l)) \<noteq> cur \<and>
                           \<not> is_functional_only D (lf_money l) (lf_functional l)) ls
      then Inl PV_CurrencyMismatch
      else rbind (fold_result group_line ls []) (\<lambda>groups.
        let zero = from_decimal dec_zero
        in if list_ex (\<lambda>(_, _, net). \<not> exact_eq net zero) groups then Inl PV_Unbalanced
           else let func_count = length (filter (\<lambda>l. lf_functional l \<noteq> None) ls)
                in if 0 < func_count \<and> func_count < length ls then Inl PV_FunctionalPartial
                   else (case lf_functional (ls ! 0) of
                           None \<Rightarrow> Inr ()
                         | Some first \<Rightarrow>
                             rbind (fold_result (functional_line first) ls zero) (\<lambda>net.
                               if \<not> exact_eq net zero then Inl PV_FunctionalUnbalanced else Inr ()))))"

section \<open>What a balanced entry is\<close>

fun signed :: "side \<Rightarrow> rat \<Rightarrow> rat" where
  "signed Debit q = q"
| "signed Credit q = - q"

abbreviation line_code :: "line_facts \<Rightarrow> string" where
  "line_code l \<equiv> code (currency (lf_money l))"

definition line_net :: "line_facts \<Rightarrow> rat" where
  "line_net l = signed (lf_side l) (mval (lf_money l))"

definition code_net :: "line_facts list \<Rightarrow> string \<Rightarrow> rat" where
  "code_net ls c = (\<Sum>l\<leftarrow>ls. if line_code l = c then line_net l else 0)"

definition scales_agree :: "line_facts list \<Rightarrow> bool" where
  "scales_agree ls \<longleftrightarrow>
     (\<forall>l\<in>set ls. \<forall>m\<in>set ls. line_code l = line_code m \<longrightarrow>
        cur_scale (currency (lf_money l)) = cur_scale (currency (lf_money m)))"

definition functional_balanced :: "line_facts list \<Rightarrow> bool" where
  "functional_balanced ls \<longleftrightarrow>
     (\<forall>l\<in>set ls. lf_functional l = None) \<or>
     (\<exists>cur. (\<forall>l\<in>set ls. \<exists>f. lf_functional l = Some f \<and> currency f = cur) \<and>
        (\<Sum>l\<leftarrow>ls. signed (lf_side l) (mval (the (lf_functional l)))) = 0)"

definition balanced_lines :: "string \<Rightarrow> line_facts list \<Rightarrow> bool" where
  "balanced_lines cur ls \<longleftrightarrow>
     ls \<noteq> [] \<and>
     (\<forall>l\<in>set ls. 0 < mval (lf_money l) \<or>
        (mval (lf_money l) = 0 \<and> (\<exists>f. lf_functional l = Some f \<and> 0 < mval f))) \<and>
     (\<forall>l\<in>set ls. \<forall>m\<in>set ls. lf_payer l = lf_payer m) \<and>
     (\<forall>l\<in>set ls. line_code l = cur \<or> (mval (lf_money l) = 0 \<and> lf_functional l \<noteq> None)) \<and>
     scales_agree ls \<and> (\<forall>c. code_net ls c = 0) \<and> functional_balanced ls"

section \<open>The running net\<close>

lemma signed_zero_iff [simp]: "signed sd q = 0 \<longleftrightarrow> q = 0"
  by (cases sd) simp_all

lemma dec_grid_signed: "dec_grid 1 (signed sd (dval d))"
  using dec_grid_dval [of d] by (cases sd) simp_all

lemma add_signed_value:
  assumes g: "dec_grid k q" and k: "k < 2 ^ 64"
  shows "add_signed (amount_of q) m sd = Inr (amount_of (q + signed sd (mval m)))"
    and "dec_grid (Suc k) (q + signed sd (mval m))"
proof -
  show g': "dec_grid (Suc k) (q + signed sd (mval m))"
    using dec_grid_add [OF g dec_grid_signed [of sd "amount m"]] by simp
  have r: "exact_ready (amount_of q)" using k by (intro dec_grid_ready [OF g]) simp
  have n: "narrow (q + signed sd (mval m)) = Inr (amount_of (q + signed sd (mval m)))"
    using k by (intro dec_grid_narrow [OF g']) simp
  then show "add_signed (amount_of q) m sd = Inr (amount_of (q + signed sd (mval m)))"
    using r by (cases sd) (simp_all add: add_signed_def checked_add_narrow checked_sub_narrow)
qed

lemma code_net_snoc:
  "code_net (ls @ [l]) c = code_net ls c + (if line_code l = c then line_net l else 0)"
  by (simp add: code_net_def)

lemma code_net_absent: "c \<notin> line_code ` set ls \<Longrightarrow> code_net ls c = 0"
  unfolding code_net_def by (induction ls) auto

lemma dec_grid_code_net: "dec_grid (length ls) (code_net ls c)"
proof (induction ls rule: rev_induct)
  case (snoc l ls)
  have "dec_grid 1 (if line_code l = c then line_net l else 0)"
    by (simp add: line_net_def dec_grid_signed del: One_nat_def)
  from dec_grid_add [OF snoc this] show ?case by (simp add: code_net_snoc)
qed (simp add: code_net_def)

text \<open>The groups after some lines: every code seen, with its first scale and its exact net.\<close>

definition scale_at :: "line_facts list \<Rightarrow> string \<Rightarrow> nat" where
  "scale_at ls c = cur_scale (currency (lf_money (hd (filter (\<lambda>l. line_code l = c) ls))))"

definition groups_of :: "line_facts list \<Rightarrow> (string \<times> nat \<times> exact_amount) list \<Rightarrow> bool" where
  "groups_of ls g \<longleftrightarrow> distinct (map fst g) \<and>
     (\<forall>c. map_of g c =
        (if c \<in> line_code ` set ls then Some (scale_at ls c, amount_of (code_net ls c)) else None))"

lemma groups_of_lookup:
  "groups_of ls g \<Longrightarrow> map_of g c =
     (if c \<in> line_code ` set ls then Some (scale_at ls c, amount_of (code_net ls c)) else None)"
  by (simp only: groups_of_def)

lemma scale_at_old:
  assumes "c \<in> line_code ` set ls"
  shows "scale_at (ls @ [l]) c = scale_at ls c"
proof -
  have "filter (\<lambda>l. line_code l = c) ls \<noteq> []" using assms by (auto simp: filter_empty_conv)
  then show ?thesis by (simp add: scale_at_def hd_append)
qed

lemma scale_at_new:
  assumes "line_code l \<notin> line_code ` set ls"
  shows "scale_at (ls @ [l]) (line_code l) = cur_scale (currency (lf_money l))"
proof -
  have "filter (\<lambda>m. line_code m = line_code l) ls = []" using assms by (simp add: filter_empty_conv) (metis imageI)
  then show ?thesis by (simp add: scale_at_def)
qed

lemma scale_at_member:
  assumes "scales_agree ls" "l \<in> set ls"
  shows "scale_at ls (line_code l) = cur_scale (currency (lf_money l))"
proof -
  let ?f = "filter (\<lambda>m. line_code m = line_code l) ls"
  have "?f \<noteq> []" using assms(2) by (auto simp: filter_empty_conv)
  then have "hd ?f \<in> set ?f" by (rule hd_in_set)
  then have "hd ?f \<in> set ls" "line_code (hd ?f) = line_code l" unfolding set_filter by blast+
  with assms show ?thesis unfolding scale_at_def scales_agree_def by blast
qed

lemma scales_agree_snoc:
  "scales_agree (ls @ [l]) \<longleftrightarrow> scales_agree ls \<and>
     (line_code l \<in> line_code ` set ls \<longrightarrow> scale_at ls (line_code l) = cur_scale (currency (lf_money l)))"
proof -
  define agree where
    "agree a b \<longleftrightarrow> (line_code a = line_code b \<longrightarrow> cur_scale (currency (lf_money a)) = cur_scale (currency (lf_money b)))"
    for a b
  have all: "scales_agree xs \<longleftrightarrow> (\<forall>a\<in>set xs. \<forall>b\<in>set xs. agree a b)" for xs
    by (simp only: scales_agree_def agree_def)
  have sym: "agree a b \<longleftrightarrow> agree b a" for a b unfolding agree_def by metis
  have refl: "agree a a" for a by (simp add: agree_def)
  have snoc: "scales_agree (ls @ [l]) \<longleftrightarrow> scales_agree ls \<and> (\<forall>m\<in>set ls. agree m l)"
    unfolding all using sym refl by (simp add: ball_Un) blast
  have "(\<forall>m\<in>set ls. agree m l) \<longleftrightarrow>
      (line_code l \<in> line_code ` set ls \<longrightarrow> scale_at ls (line_code l) = cur_scale (currency (lf_money l)))"
    if ok: "scales_agree ls"
  proof
    assume m: "\<forall>m\<in>set ls. agree m l"
    show "line_code l \<in> line_code ` set ls \<longrightarrow> scale_at ls (line_code l) = cur_scale (currency (lf_money l))"
    proof
      assume "line_code l \<in> line_code ` set ls"
      then obtain a where a: "a \<in> set ls" "line_code l = line_code a" by (rule imageE)
      then have "cur_scale (currency (lf_money a)) = cur_scale (currency (lf_money l))"
        using m by (simp only: agree_def)
      then show "scale_at ls (line_code l) = cur_scale (currency (lf_money l))"
        unfolding a(2) scale_at_member [OF ok a(1)] .
    qed
  next
    assume r: "line_code l \<in> line_code ` set ls \<longrightarrow> scale_at ls (line_code l) = cur_scale (currency (lf_money l))"
    show "\<forall>m\<in>set ls. agree m l"
      unfolding agree_def using r scale_at_member [OF ok] by (metis imageI)
  qed
  then show ?thesis unfolding snoc by blast
qed

lemma groups_of_snoc:
  assumes "groups_of ls g"
  shows "groups_of (ls @ [l])
    (AList.update (line_code l) (scale_at (ls @ [l]) (line_code l), amount_of (code_net (ls @ [l]) (line_code l))) g)"
    (is "groups_of _ ?g")
  unfolding groups_of_def
proof (intro conjI allI)
  show "distinct (map fst ?g)" using assms by (simp add: groups_of_def distinct_update)
  fix c
  show "map_of ?g c = (if c \<in> line_code ` set (ls @ [l])
      then Some (scale_at (ls @ [l]) c, amount_of (code_net (ls @ [l]) c)) else None)"
  proof (cases "c = line_code l")
    case True
    then show ?thesis by (simp add: update_conv')
  next
    case False
    then show ?thesis
      using groups_of_lookup [OF assms, of c] by (simp add: update_conv' scale_at_old code_net_snoc)
  qed
qed

lemma group_line_step:
  assumes g: "groups_of ls g" and len: "length ls < 2 ^ 64"
  shows "group_line l g =
    (if line_code l \<in> line_code ` set ls \<and> scale_at ls (line_code l) \<noteq> cur_scale (currency (lf_money l))
     then Inl PV_InconsistentScale
     else Inr (AList.update (line_code l)
            (scale_at (ls @ [l]) (line_code l), amount_of (code_net (ls @ [l]) (line_code l))) g))"
proof -
  let ?c = "line_code l"
  have net: "add_signed (amount_of (code_net ls ?c)) (lf_money l) (lf_side l) =
      Inr (amount_of (code_net (ls @ [l]) ?c))"
    using add_signed_value(1) [OF dec_grid_code_net len] by (simp add: code_net_snoc line_net_def)
  show ?thesis
  proof (cases "?c \<in> line_code ` set ls")
    case True
    then have "map_of g ?c = Some (scale_at ls ?c, amount_of (code_net ls ?c))"
      using groups_of_lookup [OF g] by simp
    with True net show ?thesis by (simp add: group_line_def scale_at_old Let_def)
  next
    case False
    then have "map_of g ?c = None" using groups_of_lookup [OF g] by simp
    moreover have "from_decimal dec_zero = amount_of (code_net ls ?c)"
      using code_net_absent [OF False] by (simp add: from_decimal_amount_of)
    ultimately show ?thesis
      using net False scale_at_new [OF False] by (simp add: group_line_def Let_def)
  qed
qed

lemma group_lines:
  assumes "length ls \<le> 2 ^ 64"
  shows "if scales_agree ls then \<exists>g. fold_result group_line ls [] = Inr g \<and> groups_of ls g
         else fold_result group_line ls [] = Inl PV_InconsistentScale"
  using assms
proof (induction ls rule: rev_induct)
  case Nil
  then show ?case by (simp add: scales_agree_def groups_of_def)
next
  case (snoc l ls)
  then have len: "length ls < 2 ^ 64" by simp
  show ?case
  proof (cases "scales_agree ls")
    case True
    then obtain g where g: "fold_result group_line ls [] = Inr g" "groups_of ls g" using snoc by auto
    have "fold_result group_line (ls @ [l]) [] = group_line l g"
      using g(1) by (simp add: fold_result_append rbind_def split: sum.splits)
    with True groups_of_snoc [OF g(2)] show ?thesis
      unfolding scales_agree_snoc by (simp add: group_line_step [OF g(2) len])
  next
    case False
    then show ?thesis using snoc by (simp add: fold_result_append scales_agree_snoc)
  qed
qed

lemma exact_eq_zero:
  assumes "dec_grid k q" "k \<le> 2 ^ 64"
  shows "exact_eq (amount_of q) (from_decimal dec_zero) \<longleftrightarrow> q = 0"
proof -
  have "exact_ready (amount_of q)" using assms by (intro dec_grid_ready [of k]) simp_all
  then show ?thesis by (simp add: exact_eq_value)
qed

lemma groups_zero:
  assumes g: "groups_of ls g" and len: "length ls \<le> 2 ^ 64"
  shows "list_ex (\<lambda>(_, _, net). \<not> exact_eq net (from_decimal dec_zero)) g \<longleftrightarrow> (\<exists>c. code_net ls c \<noteq> 0)"
proof -
  have z: "exact_eq (amount_of (code_net ls c)) (from_decimal dec_zero) \<longleftrightarrow> code_net ls c = 0" for c
    by (rule exact_eq_zero [OF dec_grid_code_net len])
  have entry: "net = amount_of (code_net ls c)" if "(c, s, net) \<in> set g" for c s net
    using that groups_of_lookup [OF g, of c] g map_of_is_SomeI [of g c "(s, net)"]
    by (auto simp: groups_of_def split: if_splits)
  have seen: "\<exists>s net. (c, s, net) \<in> set g" if "code_net ls c \<noteq> 0" for c
    using that code_net_absent [of c ls] groups_of_lookup [OF g, of c] by (metis map_of_SomeD)
  show ?thesis
  proof
    assume "\<exists>c. code_net ls c \<noteq> 0"
    then obtain c s net where "(c, s, net) \<in> set g" "code_net ls c \<noteq> 0" using seen by blast
    with entry z show "list_ex (\<lambda>(_, _, net). \<not> exact_eq net (from_decimal dec_zero)) g"
      by (fastforce simp: list_ex_iff)
  next
    assume "list_ex (\<lambda>(_, _, net). \<not> exact_eq net (from_decimal dec_zero)) g"
    then obtain c s net where "(c, s, net) \<in> set g" "\<not> exact_eq net (from_decimal dec_zero)"
      by (auto simp: list_ex_iff)
    with entry z show "\<exists>c. code_net ls c \<noteq> 0" by metis
  qed
qed

section \<open>The functional net\<close>

definition functional_net :: "line_facts list \<Rightarrow> rat" where
  "functional_net ls = (\<Sum>l\<leftarrow>ls. signed (lf_side l) (mval (the (lf_functional l))))"

lemma functional_net_snoc:
  "functional_net (ls @ [l]) = functional_net ls + signed (lf_side l) (mval (the (lf_functional l)))"
  by (simp add: functional_net_def)

lemma dec_grid_functional_net: "dec_grid (length ls) (functional_net ls)"
proof (induction ls rule: rev_induct)
  case (snoc l ls)
  from dec_grid_add [OF this dec_grid_signed] show ?case by (simp add: functional_net_snoc)
qed (simp add: functional_net_def)

lemma functional_line_Inr:
  assumes "dec_grid k q" "k < 2 ^ 64"
  shows "functional_line first l (amount_of q) = Inr net \<longleftrightarrow>
    (\<exists>f. lf_functional l = Some f \<and> currency f = currency first) \<and>
    net = amount_of (q + signed (lf_side l) (mval (the (lf_functional l))))"
  using add_signed_value(1) [OF assms] by (auto simp: functional_line_def split: option.splits)

lemma functional_lines:
  assumes "length ls \<le> 2 ^ 64"
  shows "fold_result (functional_line first) ls (from_decimal dec_zero) = Inr net \<longleftrightarrow>
    (\<forall>l\<in>set ls. \<exists>f. lf_functional l = Some f \<and> currency f = currency first) \<and>
    net = amount_of (functional_net ls)"
  using assms
proof (induction ls arbitrary: net rule: rev_induct)
  case Nil
  then show ?case by (auto simp: functional_net_def from_decimal_amount_of)
next
  case (snoc l ls)
  then have len: "length ls < 2 ^ 64" by simp
  then have IH: "fold_result (functional_line first) ls (from_decimal dec_zero) = Inr a \<longleftrightarrow>
      (\<forall>l\<in>set ls. \<exists>f. lf_functional l = Some f \<and> currency f = currency first) \<and>
      a = amount_of (functional_net ls)" for a
    using snoc.IH by simp
  show ?case
    by (simp add: fold_result_append IH functional_line_Inr [OF dec_grid_functional_net len]
        functional_net_snoc) blast
qed

section \<open>The check accepts exactly the balanced entries\<close>

lemma amount_refused_value:
  assumes "decimal_contract D"
  shows "amount_refused D l \<longleftrightarrow>
    \<not> (0 < mval (lf_money l) \<or> (mval (lf_money l) = 0 \<and> (\<exists>f. lf_functional l = Some f \<and> 0 < mval f)))"
  using contract_compare [OF assms] contract_is_zero [OF assms]
  by (auto simp: amount_refused_def not_less split: option.splits)

lemma if_Inl_Inr: "(if b then Inl e else x) = Inr u \<longleftrightarrow> \<not> b \<and> x = Inr u"
  by simp

lemma functional_count:
  "0 < length (filter P ls) \<and> length (filter P ls) < length ls \<longleftrightarrow> (\<exists>l\<in>set ls. P l) \<and> (\<exists>l\<in>set ls. \<not> P l)"
proof -
  have "length (filter P ls) = length ls \<longleftrightarrow> (\<forall>l\<in>set ls. P l)"
    using filter_id_conv [of P ls] length_filter_le [of P ls]
    by (metis filter_True length_filter_less order_less_irrefl)
  moreover have "length (filter P ls) = 0 \<longleftrightarrow> (\<forall>l\<in>set ls. \<not> P l)" by (simp add: filter_empty_conv)
  ultimately show ?thesis using length_filter_le [of P ls] by (metis le_neq_implies_less less_irrefl not_gr_zero)
qed

text \<open>The functional half of the check, after the count of functional lines is all or none.\<close>

lemma functional_check:
  assumes len: "length ls \<le> 2 ^ 64" and ne: "ls \<noteq> []"
  shows "(if 0 < length (filter (\<lambda>l. lf_functional l \<noteq> None) ls) \<and>
             length (filter (\<lambda>l. lf_functional l \<noteq> None) ls) < length ls then Inl PV_FunctionalPartial
          else (case lf_functional (ls ! 0) of
                  None \<Rightarrow> Inr ()
                | Some first \<Rightarrow>
                    rbind (fold_result (functional_line first) ls (from_decimal dec_zero)) (\<lambda>net.
                      if \<not> exact_eq net (from_decimal dec_zero) then Inl PV_FunctionalUnbalanced else Inr ())))
         = Inr () \<longleftrightarrow> functional_balanced ls"
proof -
  have hd: "ls ! 0 \<in> set ls" using ne by simp
  have zero: "exact_eq (amount_of (functional_net ls)) (from_decimal dec_zero) \<longleftrightarrow> functional_net ls = 0"
    by (rule exact_eq_zero [OF dec_grid_functional_net len])
  show ?thesis
  proof (cases "lf_functional (ls ! 0)")
    case None
    have "functional_balanced ls \<longleftrightarrow> (\<forall>l\<in>set ls. lf_functional l = None)"
      unfolding functional_balanced_def using hd None by (metis option.distinct(1))
    moreover have "\<exists>l\<in>set ls. \<not> lf_functional l \<noteq> None" using hd None by blast
    ultimately show ?thesis unfolding functional_count using None by (simp split: if_splits)
  next
    case (Some first)
    let ?all = "\<lambda>cur. \<forall>l\<in>set ls. \<exists>f. lf_functional l = Some f \<and> currency f = cur"
    have "?all cur \<Longrightarrow> cur = currency first" for cur using hd Some by fastforce
    moreover have "\<not> (\<forall>l\<in>set ls. lf_functional l = None)" using hd Some by auto
    ultimately have fb: "functional_balanced ls \<longleftrightarrow> ?all (currency first) \<and> functional_net ls = 0"
      unfolding functional_balanced_def functional_net_def by blast
    let ?mixed = "(\<exists>l\<in>set ls. lf_functional l \<noteq> None) \<and> (\<exists>l\<in>set ls. \<not> lf_functional l \<noteq> None)"
    have run: "rbind (fold_result (functional_line first) ls (from_decimal dec_zero)) (\<lambda>net.
        if \<not> exact_eq net (from_decimal dec_zero) then Inl PV_FunctionalUnbalanced else Inr ()) = Inr () \<longleftrightarrow>
        ?all (currency first) \<and> functional_net ls = 0"
      unfolding rbind_eq_Inr functional_lines [OF len] using zero by (auto split: if_splits)
    have "?all (currency first) \<Longrightarrow> \<not> ?mixed" by fastforce
    then show ?thesis
      unfolding functional_count fb Some option.case run if_Inl_Inr by blast
  qed
qed

lemma validate_balanced_entry_iff:
  assumes D: "decimal_contract D" and len: "length ls \<le> 2 ^ 64"
  shows "validate_balanced_entry D cur ls = Inr () \<longleftrightarrow> balanced_lines cur ls"
proof (cases "ls = []")
  case True
  then show ?thesis by (simp add: validate_balanced_entry_def balanced_lines_def)
next
  case ne: False
  have amounts: "list_ex (amount_refused D) ls \<longleftrightarrow> \<not> (\<forall>l\<in>set ls. 0 < mval (lf_money l) \<or>
      (mval (lf_money l) = 0 \<and> (\<exists>f. lf_functional l = Some f \<and> 0 < mval f)))"
    unfolding list_ex_iff amount_refused_value [OF D] by blast
  have payers: "list_ex (\<lambda>l. lf_payer l \<noteq> lf_payer (ls ! 0)) ls \<longleftrightarrow>
      \<not> (\<forall>l\<in>set ls. \<forall>m\<in>set ls. lf_payer l = lf_payer m)"
    unfolding list_ex_iff using ne by (metis length_greater_0_conv nth_mem)
  have curs: "list_ex (\<lambda>l. line_code l \<noteq> cur \<and> \<not> is_functional_only D (lf_money l) (lf_functional l)) ls \<longleftrightarrow>
      \<not> (\<forall>l\<in>set ls. line_code l = cur \<or> (mval (lf_money l) = 0 \<and> lf_functional l \<noteq> None))"
    unfolding list_ex_iff is_functional_only_def contract_is_zero [OF D] by blast
  show ?thesis
  proof (cases "scales_agree ls")
    case True
    then obtain g where g: "fold_result group_line ls [] = Inr g" "groups_of ls g"
      using group_lines [OF len] by auto
    have "validate_balanced_entry D cur ls = Inr () \<longleftrightarrow>
        \<not> list_ex (amount_refused D) ls \<and> \<not> list_ex (\<lambda>l. lf_payer l \<noteq> lf_payer (ls ! 0)) ls \<and>
        \<not> list_ex (\<lambda>l. line_code l \<noteq> cur \<and> \<not> is_functional_only D (lf_money l) (lf_functional l)) ls \<and>
        \<not> (\<exists>c. code_net ls c \<noteq> 0) \<and> functional_balanced ls"
      unfolding validate_balanced_entry_def g(1) rbind_simps Let_def groups_zero [OF g(2) len]
      by (simp only: ne if_False if_Inl_Inr functional_check [OF len ne, unfolded if_Inl_Inr])
    then show ?thesis
      unfolding balanced_lines_def amounts payers curs using ne True by blast
  next
    case False
    then have "fold_result group_line ls [] = Inl PV_InconsistentScale" using group_lines [OF len] by simp
    with False show ?thesis
      unfolding validate_balanced_entry_def balanced_lines_def by simp
  qed
qed

section \<open>The structural gate of the posting service\<close>

text \<open>
  \<open>infra/posting/service.rs\<close> maps the lines to facts, runs the check, bounds the line count and then
  applies the tenant lock (a repository read, here its result) and the clock-skew gate of
  \<open>infra/posting/period.rs\<close>.
\<close>

datatype clock_skew_verdict = SkewOk | SkewWarn | SkewReject

abbreviation (input) minute_ns :: int where
  "minute_ns \<equiv> 60 * 1000000000"

definition classify_clock_skew :: "offset_date_time \<Rightarrow> offset_date_time \<Rightarrow> clock_skew_verdict" where
  "classify_clock_skew posted_at now =
     (let skew = \<bar>now - posted_at\<bar>
      in if skew > 24 * 60 * minute_ns then SkewReject
         else if skew > 15 * minute_ns then SkewWarn
         else SkewOk)"

definition MAX_LINES :: nat where
  "MAX_LINES = 1000"

definition line_facts_of :: "'a post_line_scheme \<Rightarrow> line_facts" where
  "line_facts_of l =
     \<lparr>lf_side = side l, lf_money = money l, lf_payer = payer_tenant_id l, lf_functional = functional_money l\<rparr>"

definition prepare_attempt ::
  "decimal_ops \<Rightarrow> (domain_error + bool) \<Rightarrow> offset_date_time \<Rightarrow> offset_date_time \<Rightarrow> string \<Rightarrow> 'a post_line_scheme list
   \<Rightarrow> domain_error + unit" where
  "prepare_attempt D lock_read now posted_at cur ls =
     rbind (map_err violation_error (validate_balanced_entry D cur (map line_facts_of ls))) (\<lambda>_.
       if length ls > MAX_LINES then Inl D_EntryTooLarge
       else rbind lock_read (\<lambda>locked.
         if locked then Inl D_TenantPostingLocked
         else if classify_clock_skew posted_at now = SkewReject then Inl D_ClockSkewQuarantine
         else Inr ()))"

definition entry_balanced :: "post_entry \<Rightarrow> bool" where
  "entry_balanced e \<longleftrightarrow> balanced_lines (entry_currency e) (map line_facts_of (lines e))"

lemma prepare_attempt_Inr:
  assumes D: "decimal_contract D" and len: "length ls \<le> 2 ^ 64"
  shows "prepare_attempt D lock_read now posted_at cur ls = Inr () \<longleftrightarrow>
    balanced_lines cur (map line_facts_of ls) \<and> length ls \<le> 1000 \<and> lock_read = Inr False \<and>
    \<bar>now - posted_at\<bar> \<le> 24 * 60 * minute_ns"
proof -
  have v: "validate_balanced_entry D cur (map line_facts_of ls) = Inr u \<longleftrightarrow> balanced_lines cur (map line_facts_of ls)" for u
    using validate_balanced_entry_iff [OF D, of "map line_facts_of ls"] len by simp
  show ?thesis
    by (auto simp: prepare_attempt_def v MAX_LINES_def classify_clock_skew_def Let_def split: if_splits)
qed

lemma line_facts_simps [simp]:
  "lf_side (line_facts_of l) = side l" "lf_money (line_facts_of l) = money l"
  "lf_payer (line_facts_of l) = payer_tenant_id l" "lf_functional (line_facts_of l) = functional_money l"
  by (simp_all add: line_facts_of_def)

text \<open>The net of some lines, debits less credits.\<close>

definition lines_net :: "post_line list \<Rightarrow> rat" where
  "lines_net ls = (\<Sum>l\<leftarrow>ls. signed (side l) (mval (money l)))"

lemma lines_net_simps [simp]:
  "lines_net [] = 0" "lines_net (l # ls) = signed (side l) (mval (money l)) + lines_net ls"
  "lines_net (ls @ ms) = lines_net ls + lines_net ms"
  by (simp_all add: lines_net_def)

text \<open>
  Lines of one currency and one payer, positive and without functional amounts, are balanced
  exactly when they net to zero.
\<close>

definition plain_line :: "currency_spec \<Rightarrow> uuid \<Rightarrow> post_line \<Rightarrow> bool" where
  "plain_line cur payer l \<longleftrightarrow> currency (money l) = cur \<and> payer_tenant_id l = payer \<and>
     0 < mval (money l) \<and> functional_money l = None"

lemma plain_lines_balanced:
  assumes "ls \<noteq> []" "\<And>l. l \<in> set ls \<Longrightarrow> plain_line cur payer l" "lines_net ls = 0"
  shows "balanced_lines (code cur) (map line_facts_of ls)"
proof -
  have net: "code_net (map line_facts_of ls) c = (if c = code cur then lines_net ls else 0)" for c
    using assms(2) unfolding code_net_def lines_net_def
    by (induction ls) (auto simp: line_net_def plain_line_def)
  have "scales_agree (map line_facts_of ls)" "functional_balanced (map line_facts_of ls)"
    using assms(2) by (auto simp: scales_agree_def functional_balanced_def plain_line_def)
  then show ?thesis
    using assms net by (auto simp: balanced_lines_def plain_line_def)
qed

section \<open>Builders of balanced entries\<close>

text \<open>
  The interface between the document builders and the posting engine: whatever a builder returns is
  balanced, so the engine's structural check never refuses it.
\<close>

locale entry_builder =
  fixes build :: "decimal_ops \<Rightarrow> (nat \<Rightarrow> uuid) \<Rightarrow> 'i \<Rightarrow> 'e + post_entry"
    and well_formed :: "'i \<Rightarrow> bool"
  assumes build_balanced:
      "decimal_contract D \<Longrightarrow> well_formed i \<Longrightarrow> build D fresh i = Inr e \<Longrightarrow> entry_balanced e"
    and build_size:
      "decimal_contract D \<Longrightarrow> well_formed i \<Longrightarrow> build D fresh i = Inr e \<Longrightarrow> length (lines e) \<le> 2 ^ 64"
begin

lemma engine_accepts:
  assumes "decimal_contract D" "well_formed i" "build D fresh i = Inr e"
  shows "validate_balanced_entry D (entry_currency e) (map line_facts_of (lines e)) = Inr ()"
  using validate_balanced_entry_iff [OF assms(1), of "map line_facts_of (lines e)"]
    build_balanced [OF assms] build_size [OF assms] by (simp add: entry_balanced_def)

lemma engine_refusals:
  assumes "decimal_contract D" "well_formed i" "build D fresh i = Inr e"
    and "prepare_attempt D (Inr locked) now posted_at (entry_currency e) (lines e) = Inl err"
  shows "err \<in> {D_EntryTooLarge, D_TenantPostingLocked, D_ClockSkewQuarantine}"
  using engine_accepts [OF assms(1-3)] assms(4) by (auto simp: prepare_attempt_def split: if_splits)

lemma nets_to_zero:
  assumes "decimal_contract D" "well_formed i" "build D fresh i = Inr e"
  shows "(\<Sum>l\<leftarrow>lines e. if code (currency (money l)) = c then signed (side l) (mval (money l)) else 0) = 0"
proof -
  have "code_net (map line_facts_of (lines e)) c = 0"
    using build_balanced [OF assms] by (simp add: entry_balanced_def balanced_lines_def)
  then show ?thesis by (simp add: code_net_def line_net_def o_def cong: if_cong)
qed

end

end
