(* ===== verification/Versioned_Row.thy ===== *)
theory Versioned_Row
  imports Prelude
begin

text \<open>
  Optimistic concurrency on one database row.  An attempt reads the row (\<open>seen\<close>), decides, and writes
  with a compare-and-set on the version it read; the write meets whatever the row holds by then
  (\<open>cur\<close>).  A history lets every attempt read any past state of the row; \<open>valid\<close> are the requests
  with validated amounts, the only ones the types let a caller make.  The locale
  \<open>versioned_row\<close> states what a repository's attempts promise; under it every history is a serial one.
\<close>

inductive row_history :: "('req \<Rightarrow> bool) \<Rightarrow> ('req \<Rightarrow> 'row option \<Rightarrow> 'row option \<Rightarrow> 'e + 'row) \<Rightarrow> 'row option list \<Rightarrow> bool"
  for valid attempt where
  start: "row_history valid attempt [None]"
| committed: "row_history valid attempt (cur # h) \<Longrightarrow> seen \<in> set (cur # h) \<Longrightarrow> valid q \<Longrightarrow>
    attempt q seen cur = Inr r \<Longrightarrow> row_history valid attempt (Some r # cur # h)"

inductive serial_history :: "('req \<Rightarrow> bool) \<Rightarrow> ('req \<Rightarrow> 'row option \<Rightarrow> 'row option \<Rightarrow> 'e + 'row) \<Rightarrow> 'row option list \<Rightarrow> bool"
  for valid attempt where
  serial_start: "serial_history valid attempt [None]"
| serial_write: "serial_history valid attempt (cur # h) \<Longrightarrow> valid q \<Longrightarrow> attempt q cur cur = Inr r \<Longrightarrow>
    serial_history valid attempt (Some r # cur # h)"

inductive_cases row_historyE: "row_history valid attempt h"

locale versioned_row =
  fixes attempt :: "'req \<Rightarrow> 'row option \<Rightarrow> 'row option \<Rightarrow> 'e + 'row"
    and version :: "'row \<Rightarrow> int"
  assumes first_write: "attempt q None cur = Inr r \<Longrightarrow> cur = None \<and> version r = 0"
    and next_write: "attempt q (Some s) cur = Inr r \<Longrightarrow> \<exists>c. cur = Some c \<and> version c = version s \<and> version r = version c + 1"
begin

definition stamp :: "'row option \<Rightarrow> int" where
  "stamp row = (case row of None \<Rightarrow> - 1 | Some r \<Rightarrow> version r)"

lemma write_stamp: "attempt q seen cur = Inr r \<Longrightarrow> stamp (Some r) = stamp cur + 1"
  using first_write next_write by (cases seen) (force simp: stamp_def)+

lemma history_stamp:
  assumes "row_history valid attempt h" "i < length h"
  shows "stamp (h ! i) = int (length h) - 2 - int i"
  using assms
proof (induction arbitrary: i rule: row_history.induct)
  case start
  then show ?case by (simp add: stamp_def)
next
  case (committed cur h seen q r)
  show ?case
  proof (cases i)
    case 0
    then show ?thesis using write_stamp [OF committed.hyps(4)] committed.IH [of 0] by simp
  next
    case (Suc j)
    then show ?thesis using committed.IH [of j] committed.prems by simp
  qed
qed

text \<open>A write commits only when nothing was written since its read.\<close>

lemma no_stale_write:
  assumes h: "row_history valid attempt (cur # h)" and seen: "seen \<in> set (cur # h)" and run: "attempt q seen cur = Inr r"
  shows "seen = cur"
proof -
  obtain i where i: "i < length (cur # h)" "(cur # h) ! i = seen" using seen by (metis in_set_conv_nth)
  have "stamp seen = stamp cur"
  proof (cases seen)
    case None
    then show ?thesis using first_write run by auto
  next
    case (Some s)
    then show ?thesis using next_write run by (force simp: stamp_def)
  qed
  then have "i = 0" using history_stamp [OF h, of i] history_stamp [OF h, of 0] i by simp
  then show ?thesis using i by simp
qed

lemma histories_serial: "row_history valid attempt h \<Longrightarrow> serial_history valid attempt h"
proof (induction rule: row_history.induct)
  case start
  show ?case by (rule serial_start)
next
  case (committed cur h seen q r)
  then have "seen = cur" using no_stale_write by blast
  then show ?case using committed by (auto intro: serial_write)
qed

end

text \<open>What every serial step keeps holds along every history.\<close>

lemma serial_history_invariant:
  assumes "serial_history valid attempt h" and "P None"
    and "\<And>q cur r. P cur \<Longrightarrow> valid q \<Longrightarrow> attempt q cur cur = Inr r \<Longrightarrow> P (Some r)"
  shows "\<forall>row\<in>set h. P row"
  using assms(1)
proof (induction rule: serial_history.induct)
  case serial_start
  then show ?case using assms(2) by simp
next
  case (serial_write cur h q r)
  then have "P cur" by simp
  with assms(3) serial_write show ?case by auto
qed

end
