(* ===== verification/Status.thy ===== *)
theory Status
  imports Prelude
begin

text \<open>\<open>ledger/src/domain/status.rs\<close>: the stored status literals the model compares.\<close>

definition AR_STATUS_DISPUTED :: string where
  "AR_STATUS_DISPUTED = ''DISPUTED''"

definition AR_STATUS_ACTIVE :: string where
  "AR_STATUS_ACTIVE = ''ACTIVE''"

definition PERIOD_STATUS_OPEN :: string where
  "PERIOD_STATUS_OPEN = ''OPEN''"

definition LIFECYCLE_OPEN :: string where
  "LIFECYCLE_OPEN = ''OPEN''"

end
