(* ===== verification/Projector.thy ===== *)
theory Projector
  imports Posting Stored_Money Versioned_Row Status
begin

text \<open>
  \<open>ledger/src/infra/posting/projector.rs\<close>: the balance caches.  The lines of a posted entry are turned into
  signed deltas per grain, coalesced in lock order, and each grain is published to its row of one of six
  cache tables by a version-guarded write.  The six tables are maps on their primary keys; a row keeps
  its amounts as stored text, as the columns do.  The scope filter of the secure query layer is not
  modelled: a query returns the row of its key.
\<close>

section \<open>Entries and lines to insert\<close>

text \<open>\<open>NewLine\<close> is the posting DTO with one more column; \<open>NewEntry\<close> is the journal header.\<close>

record new_line = post_line +
  line_legal_entity_id :: "uuid option"

record new_entry =
  ne_entry_id :: uuid
  ne_tenant_id :: uuid
  ne_legal_entity_id :: uuid
  ne_period_id :: string
  ne_entry_currency :: string
  ne_source_doc_type :: source_doc_type
  ne_source_business_id :: string
  ne_reverses_entry_id :: "uuid option"
  ne_reverses_period_id :: "string option"
  ne_posted_at_utc :: offset_date_time
  ne_effective_at :: naive_date
  ne_origin :: string
  ne_posted_by_actor_id :: uuid
  ne_correlation_id :: uuid
  ne_rate_snapshot_ref :: "uuid option"

section \<open>Grains\<close>

datatype grain_table = AccountGrain | ArPayerGrain | ArInvoiceGrain | UnallocatedGrain | ReusableCreditGrain | TaxGrain

text \<open>The derived \<open>Ord\<close> of the enum: the order in which the tables are locked.\<close>

fun table_rank :: "grain_table \<Rightarrow> nat" where
  "table_rank AccountGrain = 0"
| "table_rank ArPayerGrain = 1"
| "table_rank ArInvoiceGrain = 2"
| "table_rank UnallocatedGrain = 3"
| "table_rank ReusableCreditGrain = 4"
| "table_rank TaxGrain = 5"

lemma table_rank_inj: "table_rank a = table_rank b \<Longrightarrow> a = b"
  by (cases a; cases b) simp_all

instantiation grain_table :: linorder
begin

definition less_eq_grain_table :: "grain_table \<Rightarrow> grain_table \<Rightarrow> bool" where
  "a \<le> b \<longleftrightarrow> table_rank a \<le> table_rank b"

definition less_grain_table :: "grain_table \<Rightarrow> grain_table \<Rightarrow> bool" where
  "a < b \<longleftrightarrow> table_rank a < table_rank b"

instance
  by standard (auto simp: less_eq_grain_table_def less_grain_table_def dest: table_rank_inj)

end

record grain_delta =
  gd_table :: grain_table
  gd_tenant_id :: uuid
  gd_account_id :: uuid
  gd_currency :: string
  gd_payer_tenant_id :: uuid
  gd_invoice_id :: string
  gd_tax_jurisdiction :: string
  gd_tax_filing_period :: string
  gd_account_class :: account_class
  gd_normal_side :: side
  gd_delta :: exact_amount
  gd_currency_spec :: currency_spec
  gd_functional_delta :: exact_amount
  gd_functional_currency :: "currency_spec option"
  gd_disputed_delta :: exact_amount
  gd_posted_at :: offset_date_time
  gd_due_date :: "naive_date option"
  gd_credit_grant_event_type :: string
  gd_first_granted_at :: "offset_date_time option"

type_synonym grain_key =
  "grain_table \<times> uuid \<times> uuid \<times> string \<times> uuid \<times> string \<times> string \<times> string \<times> string"

definition grain_sort_key :: "grain_delta \<Rightarrow> grain_key" where
  "grain_sort_key g =
     (gd_table g, gd_tenant_id g,
      if gd_table g \<in> {UnallocatedGrain, ReusableCreditGrain} then 0 else gd_account_id g,
      if gd_table g \<in> {ArInvoiceGrain, TaxGrain} then [] else gd_currency g,
      if gd_table g \<in> {AccountGrain, TaxGrain} then 0 else gd_payer_tenant_id g,
      gd_invoice_id g, gd_tax_jurisdiction g, gd_tax_filing_period g, gd_credit_grant_event_type g)"

section \<open>Errors\<close>

datatype project_error =
    P_Repo repo_error
  | P_Conflict
  | P_NegativeBalance uuid string
  | P_MissingNormalSide uuid
  | P_MissingCreditEventType uuid
  | P_Arithmetic exact_error
  | P_Db

fun project_exact :: "exact_error \<Rightarrow> project_error" where
  "project_exact (MoneyErr e) = P_Repo (R_Money e)"
| "project_exact e = P_Arithmetic e"

definition require_one :: "nat \<Rightarrow> project_error + unit" where
  "require_one rows = (if rows = 1 then Inr () else Inl P_Conflict)"

definition next_version :: "int \<Rightarrow> project_error + int" where
  "next_version v = (if v + 1 < 2 ^ 63 then Inr (v + 1) else Inl P_Db)"

definition match_currency :: "currency_spec \<Rightarrow> currency_spec \<Rightarrow> project_error + unit" where
  "match_currency a b = map_err (\<lambda>e. P_Repo (R_Money e)) (ensure_same a b)"

fun match_functional :: "currency_spec option \<Rightarrow> currency_spec option \<Rightarrow> project_error + unit" where
  "match_functional (Some a) (Some b) = match_currency a b"
| "match_functional None None = Inr ()"
| "match_functional _ _ = Inl (P_Repo (R_Money CurrencyMismatch))"

section \<open>Deltas of an entry\<close>

definition signed_amount :: "decimal_ops \<Rightarrow> side \<Rightarrow> side \<Rightarrow> posted_money \<Rightarrow> exact_amount" where
  "signed_amount D normal sd m = from_decimal (if sd = normal then amount m else dec_neg D (amount m))"

definition base_grain :: "decimal_ops \<Rightarrow> new_entry \<Rightarrow> side \<Rightarrow> new_line \<Rightarrow> grain_delta" where
  "base_grain D e normal l =
     \<lparr>gd_table = AccountGrain, gd_tenant_id = ne_tenant_id e, gd_account_id = account_id l,
      gd_currency = code (currency (money l)), gd_payer_tenant_id = payer_tenant_id l, gd_invoice_id = [],
      gd_tax_jurisdiction = [], gd_tax_filing_period = [], gd_account_class = account_class l,
      gd_normal_side = normal, gd_delta = signed_amount D normal (side l) (money l),
      gd_currency_spec = currency (money l),
      gd_functional_delta = (case functional_money l of
          Some m \<Rightarrow> signed_amount D normal (side l) m | None \<Rightarrow> from_decimal dec_zero),
      gd_functional_currency = map_option currency (functional_money l),
      gd_disputed_delta = from_decimal dec_zero, gd_posted_at = ne_posted_at_utc e, gd_due_date = None,
      gd_credit_grant_event_type = [], gd_first_granted_at = None\<rparr>"

definition line_grains ::
  "decimal_ops \<Rightarrow> new_entry \<Rightarrow> (uuid \<times> side) list \<Rightarrow> new_line \<Rightarrow> project_error + grain_delta list" where
  "line_grains D e sides l =
     rbind (ok_or (P_MissingNormalSide (account_id l)) (map_of sides (account_id l))) (\<lambda>normal.
       let base = base_grain D e normal l
       in case account_class l of
            Ar \<Rightarrow> Inr (base # base\<lparr>gd_table := ArPayerGrain\<rparr> #
              (case invoice_id l of
                 Some i \<Rightarrow> [base\<lparr>gd_table := ArInvoiceGrain, gd_invoice_id := i,
                   gd_disputed_delta := (if ar_status l = Some AR_STATUS_DISPUTED then gd_delta base else from_decimal dec_zero),
                   gd_due_date := due_date l\<rparr>]
               | None \<Rightarrow> []))
          | Unallocated \<Rightarrow> Inr [base, base\<lparr>gd_table := UnallocatedGrain\<rparr>]
          | ReusableCredit \<Rightarrow>
              rbind (ok_or (P_MissingCreditEventType (line_id l))
                       (if credit_grant_event_type l = Some [] then None else credit_grant_event_type l)) (\<lambda>event.
                Inr [base, base\<lparr>gd_table := ReusableCreditGrain, gd_credit_grant_event_type := event,
                  gd_first_granted_at := Some (ne_posted_at_utc e)\<rparr>])
          | TaxPayable \<Rightarrow>
              (case (tax_jurisdiction l, tax_filing_period l) of
                 (Some j, Some f) \<Rightarrow> Inr [base, base\<lparr>gd_table := TaxGrain, gd_tax_jurisdiction := j, gd_tax_filing_period := f\<rparr>]
               | _ \<Rightarrow> Inr [base])
          | _ \<Rightarrow> Inr [base])"

definition merge_grain :: "grain_delta \<Rightarrow> grain_delta \<Rightarrow> project_error + grain_delta" where
  "merge_grain prior g =
     rbind (match_currency (gd_currency_spec prior) (gd_currency_spec g)) (\<lambda>_.
     rbind (match_functional (gd_functional_currency prior) (gd_functional_currency g)) (\<lambda>_.
       if gd_account_id prior \<noteq> gd_account_id g \<or> gd_account_class prior \<noteq> gd_account_class g \<or>
          gd_normal_side prior \<noteq> gd_normal_side g
       then Inl P_Db
       else rbind (map_err project_exact (checked_add (gd_delta prior) (gd_delta g))) (\<lambda>delta.
            rbind (map_err project_exact (checked_add (gd_disputed_delta prior) (gd_disputed_delta g))) (\<lambda>disputed.
            rbind (map_err project_exact (checked_add (gd_functional_delta prior) (gd_functional_delta g))) (\<lambda>functional.
              Inr (prior\<lparr>gd_delta := delta, gd_disputed_delta := disputed, gd_functional_delta := functional\<rparr>))))))"

text \<open>The loop over the sorted grains, with the last element of the result held apart.\<close>

fun coalesce :: "grain_delta \<Rightarrow> grain_delta list \<Rightarrow> project_error + grain_delta list" where
  "coalesce prior [] = Inr [prior]"
| "coalesce prior (g # gs) =
     (if grain_sort_key prior = grain_sort_key g then rbind (merge_grain prior g) (\<lambda>merged. coalesce merged gs)
      else rbind (coalesce g gs) (\<lambda>rest. Inr (prior # rest)))"

definition derive_grains ::
  "decimal_ops \<Rightarrow> new_entry \<Rightarrow> new_line list \<Rightarrow> (uuid \<times> side) list \<Rightarrow> project_error + grain_delta list" where
  "derive_grains D e ls sides =
     rbind (map_result (line_grains D e sides) ls) (\<lambda>per_line.
       case sort_key grain_sort_key (concat per_line) of
         [] \<Rightarrow> Inr []
       | g # gs \<Rightarrow> coalesce g gs)"

section \<open>Post-states\<close>

definition final_amount ::
  "decimal_ops \<Rightarrow> exact_amount \<Rightarrow> posted_money option \<Rightarrow> currency_spec \<Rightarrow> project_error + posted_money" where
  "final_amount D delta old cur =
     rbind (case old of Some m \<Rightarrow> match_currency cur (currency m) | None \<Rightarrow> Inr ()) (\<lambda>_.
       map_err project_exact
         (rbind (checked_add delta (from_decimal (case old of Some m \<Rightarrow> amount m | None \<Rightarrow> dec_zero))) (\<lambda>v.
            into_posted_exact D v cur)))"

definition final_balances ::
  "decimal_ops \<Rightarrow> grain_delta \<Rightarrow> posted_money option \<Rightarrow> posted_money option
   \<Rightarrow> project_error + posted_money \<times> posted_money option" where
  "final_balances D g old functional =
     (let tax = (gd_table g = TaxGrain)
      in rbind (case old of Some m \<Rightarrow> match_currency (gd_currency_spec g) (currency m) | None \<Rightarrow> Inr ()) (\<lambda>_.
         rbind (if old \<noteq> None \<and> \<not> tax
                then match_functional (gd_functional_currency g) (map_option currency functional) else Inr ()) (\<lambda>_.
         rbind (final_amount D (gd_delta g) old (gd_currency_spec g)) (\<lambda>balance.
           if (is_guarded (gd_account_class g) \<or> gd_table g = ReusableCreditGrain) \<and> dec_lt D (amount balance) dec_zero
           then Inl (P_NegativeBalance (gd_account_id g) (encode_amount D balance))
           else rbind (if tax then Inr None
                       else case gd_functional_currency g of
                              None \<Rightarrow> Inr None
                            | Some c \<Rightarrow> rbind (final_amount D (gd_functional_delta g) functional c) (\<lambda>f. Inr (Some f))) (\<lambda>f.
                Inr (balance, f))))))"

section \<open>Cache rows\<close>

record balance_row =
  br_account_id :: uuid
  br_currency :: string
  br_currency_scale :: int
  br_balance :: string
  br_last_entry_seq :: "int option"
  br_version :: int

record cache_row = balance_row +
  cr_functional_balance :: "string option"
  cr_functional_currency :: "string option"
  cr_functional_currency_scale :: "int option"

record account_row = cache_row +
  ac_account_class :: string
  ac_normal_side :: string

record ar_invoice_row = cache_row +
  ai_disputed :: string
  ai_original_posted_at :: "offset_date_time option"
  ai_due_date :: "naive_date option"

record credit_row = cache_row +
  rc_first_granted_at :: "offset_date_time option"

definition row_balance :: "decimal_ops \<Rightarrow> 'a balance_row_scheme \<Rightarrow> repo_error + posted_money" where
  "row_balance D r = decode_money D (br_balance r) (br_currency r) (br_currency_scale r)"

definition row_functional :: "decimal_ops \<Rightarrow> 'a cache_row_scheme \<Rightarrow> repo_error + posted_money option" where
  "row_functional D r =
     decode_optional_money D (cr_functional_balance r) (cr_functional_currency r) (cr_functional_currency_scale r)"

text \<open>\<open>existing.as_ref().map(f).transpose()?\<close>\<close>

definition on_existing :: "('r \<Rightarrow> repo_error + 'a) \<Rightarrow> 'r option \<Rightarrow> project_error + 'a option" where
  "on_existing f row = (case row of None \<Rightarrow> Inr None | Some r \<Rightarrow> map_err P_Repo (rbind (f r) (\<lambda>m. Inr (Some m))))"

text \<open>
  The write of every cache: an update keyed on the version that was read, or an insert of the first
  version; \<open>seen\<close> is the row the transaction read and \<open>cur\<close> the row its write meets.
\<close>

definition guarded_write ::
  "('r \<Rightarrow> int) \<Rightarrow> 'r option \<Rightarrow> 'r option \<Rightarrow> (int \<Rightarrow> 'r \<Rightarrow> 'r) \<Rightarrow> 'r \<Rightarrow> project_error + 'r" where
  "guarded_write version seen cur set_columns first_row =
     (case seen of
        Some r \<Rightarrow>
          rbind (next_version (version r)) (\<lambda>next.
            let hit = (case cur of Some c \<Rightarrow> version c = version r | None \<Rightarrow> False)
            in rbind (require_one (if hit then 1 else 0)) (\<lambda>_. Inr (set_columns next (the cur))))
      | None \<Rightarrow> (case cur of None \<Rightarrow> Inr first_row | Some _ \<Rightarrow> Inl (P_Repo R_Conflict)))"

definition fresh_balance :: "decimal_ops \<Rightarrow> grain_delta \<Rightarrow> int \<Rightarrow> posted_money \<Rightarrow> balance_row" where
  "fresh_balance D g seq balance =
     \<lparr>br_account_id = gd_account_id g, br_currency = gd_currency g, br_currency_scale = int (cur_scale (gd_currency_spec g)),
      br_balance = encode_amount D balance, br_last_entry_seq = Some seq, br_version = 0\<rparr>"

definition fresh_cache :: "decimal_ops \<Rightarrow> grain_delta \<Rightarrow> int \<Rightarrow> posted_money \<Rightarrow> posted_money option \<Rightarrow> cache_row" where
  "fresh_cache D g seq balance functional =
     balance_row.extend (fresh_balance D g seq balance)
       (cache_row.fields (map_option (encode_amount D) functional) (map_option code (gd_functional_currency g))
          (map_option (\<lambda>c. int (cur_scale c)) (gd_functional_currency g)))"

text \<open>The columns an update sets.\<close>

definition set_balance :: "decimal_ops \<Rightarrow> int \<Rightarrow> posted_money \<Rightarrow> int \<Rightarrow> 'a balance_row_scheme \<Rightarrow> 'a balance_row_scheme" where
  "set_balance D seq balance next c =
     c\<lparr>br_balance := encode_amount D balance, br_version := next, br_last_entry_seq := Some seq\<rparr>"

definition set_cache ::
  "decimal_ops \<Rightarrow> int \<Rightarrow> posted_money \<Rightarrow> posted_money option \<Rightarrow> int \<Rightarrow> 'a cache_row_scheme \<Rightarrow> 'a cache_row_scheme" where
  "set_cache D seq balance functional next c =
     (set_balance D seq balance next c)\<lparr>cr_functional_balance := map_option (encode_amount D) functional\<rparr>"

section \<open>One row\<close>

type_synonym grain_write = "grain_delta \<times> int"

definition read_cache ::
  "decimal_ops \<Rightarrow> 'a cache_row_scheme option \<Rightarrow> project_error + posted_money option \<times> posted_money option" where
  "read_cache D seen =
     rbind (on_existing (row_balance D) seen) (\<lambda>old.
     rbind (on_existing (row_functional D) seen) (\<lambda>functional.
       Inr (old, Option.bind functional (\<lambda>f. f))))"

definition account_differs :: "grain_delta \<Rightarrow> 'a balance_row_scheme option \<Rightarrow> bool" where
  "account_differs g seen \<longleftrightarrow> (case seen of Some r \<Rightarrow> br_account_id r \<noteq> gd_account_id g | None \<Rightarrow> False)"

definition account_attempt ::
  "decimal_ops \<Rightarrow> grain_write \<Rightarrow> account_row option \<Rightarrow> account_row option \<Rightarrow> project_error + account_row" where
  "account_attempt D q seen cur =
     (let g = fst q; seq = snd q
      in rbind (read_cache D seen) (\<lambda>(old, functional).
         if account_differs g seen then Inl P_Db
         else if (case seen of Some r \<Rightarrow> ac_account_class r \<noteq> account_class_as_str (gd_account_class g) \<or>
                     ac_normal_side r \<noteq> side_as_str (gd_normal_side g) | None \<Rightarrow> False)
         then Inl P_Db
         else rbind (final_balances D g old functional) (\<lambda>(balance, f).
           guarded_write br_version seen cur (set_cache D seq balance f)
             (cache_row.extend (fresh_cache D g seq balance f)
                (account_row.fields (account_class_as_str (gd_account_class g)) (side_as_str (gd_normal_side g)))))))"

definition plain_attempt ::
  "decimal_ops \<Rightarrow> grain_write \<Rightarrow> cache_row option \<Rightarrow> cache_row option \<Rightarrow> project_error + cache_row" where
  "plain_attempt D q seen cur =
     (let g = fst q; seq = snd q
      in rbind (read_cache D seen) (\<lambda>(old, functional).
         if account_differs g seen then Inl P_Db
         else rbind (final_balances D g old functional) (\<lambda>(balance, f).
           guarded_write br_version seen cur (set_cache D seq balance f) (fresh_cache D g seq balance f))))"

definition ar_invoice_attempt ::
  "decimal_ops \<Rightarrow> grain_write \<Rightarrow> ar_invoice_row option \<Rightarrow> ar_invoice_row option \<Rightarrow> project_error + ar_invoice_row" where
  "ar_invoice_attempt D q seen cur =
     (let g = fst q; seq = snd q
      in rbind (read_cache D seen) (\<lambda>(old, functional).
         if account_differs g seen then Inl P_Db
         else rbind (final_balances D g old functional) (\<lambda>(balance, f).
           rbind (on_existing (\<lambda>r. decode_money D (ai_disputed r) (br_currency r) (br_currency_scale r)) seen) (\<lambda>old_disputed.
             if (case (old, old_disputed) of
                   (Some m, Some d) \<Rightarrow> dec_lt D (amount d) dec_zero \<or> dec_lt D (amount m) (amount d)
                 | _ \<Rightarrow> False)
             then Inl (P_Repo R_InvalidStoredMoney)
             else rbind (final_amount D (gd_disputed_delta g) old_disputed (gd_currency_spec g)) (\<lambda>disputed.
               if dec_lt D (amount disputed) dec_zero \<or> dec_lt D (amount balance) (amount disputed) then Inl P_Db
               else guarded_write br_version seen cur
                      (\<lambda>next c. (set_cache D seq balance f next c)\<lparr>ai_disputed := encode_amount D disputed\<rparr>)
                      (cache_row.extend (fresh_cache D g seq balance f)
                         (ar_invoice_row.fields (encode_amount D disputed) (Some (gd_posted_at g)) (gd_due_date g))))))))"

definition credit_attempt ::
  "decimal_ops \<Rightarrow> grain_write \<Rightarrow> credit_row option \<Rightarrow> credit_row option \<Rightarrow> project_error + credit_row" where
  "credit_attempt D q seen cur =
     (let g = fst q; seq = snd q
      in rbind (read_cache D seen) (\<lambda>(old, functional).
         if account_differs g seen then Inl P_Db
         else rbind (final_balances D g old functional) (\<lambda>(balance, f).
           guarded_write br_version seen cur (set_cache D seq balance f)
             (cache_row.extend (fresh_cache D g seq balance f) (credit_row.fields (gd_first_granted_at g))))))"

definition tax_attempt ::
  "decimal_ops \<Rightarrow> grain_write \<Rightarrow> balance_row option \<Rightarrow> balance_row option \<Rightarrow> project_error + balance_row" where
  "tax_attempt D q seen cur =
     (let g = fst q; seq = snd q
      in rbind (on_existing (row_balance D) seen) (\<lambda>old.
         if account_differs g seen then Inl P_Db
         else rbind (final_balances D g old None) (\<lambda>(balance, _).
           guarded_write br_version seen cur (set_balance D seq balance) (fresh_balance D g seq balance))))"

section \<open>The tables\<close>

record balance_caches =
  account_balance :: "uuid \<times> uuid \<times> string \<Rightarrow> account_row option"
  ar_payer_balance :: "uuid \<times> uuid \<times> uuid \<times> string \<Rightarrow> cache_row option"
  ar_invoice_balance :: "uuid \<times> uuid \<times> uuid \<times> string \<Rightarrow> ar_invoice_row option"
  unallocated_balance :: "uuid \<times> uuid \<times> string \<Rightarrow> cache_row option"
  reusable_credit_subbalance :: "uuid \<times> uuid \<times> string \<times> string \<Rightarrow> credit_row option"
  tax_subbalance :: "uuid \<times> uuid \<times> string \<times> string \<Rightarrow> balance_row option"

definition empty_caches :: balance_caches where
  "empty_caches =
     \<lparr>account_balance = (\<lambda>_. None), ar_payer_balance = (\<lambda>_. None), ar_invoice_balance = (\<lambda>_. None),
      unallocated_balance = (\<lambda>_. None), reusable_credit_subbalance = (\<lambda>_. None), tax_subbalance = (\<lambda>_. None)\<rparr>"

definition account_key :: "grain_delta \<Rightarrow> uuid \<times> uuid \<times> string" where
  "account_key g = (gd_tenant_id g, gd_account_id g, gd_currency g)"

definition ar_payer_key :: "grain_delta \<Rightarrow> uuid \<times> uuid \<times> uuid \<times> string" where
  "ar_payer_key g = (gd_tenant_id g, gd_payer_tenant_id g, gd_account_id g, gd_currency g)"

definition ar_invoice_key :: "grain_delta \<Rightarrow> uuid \<times> uuid \<times> uuid \<times> string" where
  "ar_invoice_key g = (gd_tenant_id g, gd_payer_tenant_id g, gd_account_id g, gd_invoice_id g)"

definition unallocated_key :: "grain_delta \<Rightarrow> uuid \<times> uuid \<times> string" where
  "unallocated_key g = (gd_tenant_id g, gd_payer_tenant_id g, gd_currency g)"

definition credit_key :: "grain_delta \<Rightarrow> uuid \<times> uuid \<times> string \<times> string" where
  "credit_key g = (gd_tenant_id g, gd_payer_tenant_id g, gd_currency g, gd_credit_grant_event_type g)"

definition tax_key :: "grain_delta \<Rightarrow> uuid \<times> uuid \<times> string \<times> string" where
  "tax_key g = (gd_tenant_id g, gd_account_id g, gd_tax_jurisdiction g, gd_tax_filing_period g)"

definition upsert_account_balance ::
  "decimal_ops \<Rightarrow> int \<Rightarrow> grain_delta \<Rightarrow> balance_caches \<Rightarrow> project_error + balance_caches" where
  "upsert_account_balance D seq g s =
     (let k = account_key g; row = account_balance s k
      in rbind (account_attempt D (g, seq) row row) (\<lambda>r. Inr (s\<lparr>account_balance := (account_balance s)(k \<mapsto> r)\<rparr>)))"

definition upsert_ar_payer ::
  "decimal_ops \<Rightarrow> int \<Rightarrow> grain_delta \<Rightarrow> balance_caches \<Rightarrow> project_error + balance_caches" where
  "upsert_ar_payer D seq g s =
     (let k = ar_payer_key g; row = ar_payer_balance s k
      in rbind (plain_attempt D (g, seq) row row) (\<lambda>r. Inr (s\<lparr>ar_payer_balance := (ar_payer_balance s)(k \<mapsto> r)\<rparr>)))"

definition upsert_ar_invoice ::
  "decimal_ops \<Rightarrow> int \<Rightarrow> grain_delta \<Rightarrow> balance_caches \<Rightarrow> project_error + balance_caches" where
  "upsert_ar_invoice D seq g s =
     (let k = ar_invoice_key g; row = ar_invoice_balance s k
      in rbind (ar_invoice_attempt D (g, seq) row row) (\<lambda>r. Inr (s\<lparr>ar_invoice_balance := (ar_invoice_balance s)(k \<mapsto> r)\<rparr>)))"

definition upsert_unallocated ::
  "decimal_ops \<Rightarrow> int \<Rightarrow> grain_delta \<Rightarrow> balance_caches \<Rightarrow> project_error + balance_caches" where
  "upsert_unallocated D seq g s =
     (let k = unallocated_key g; row = unallocated_balance s k
      in rbind (plain_attempt D (g, seq) row row) (\<lambda>r. Inr (s\<lparr>unallocated_balance := (unallocated_balance s)(k \<mapsto> r)\<rparr>)))"

definition upsert_reusable_credit ::
  "decimal_ops \<Rightarrow> int \<Rightarrow> grain_delta \<Rightarrow> balance_caches \<Rightarrow> project_error + balance_caches" where
  "upsert_reusable_credit D seq g s =
     (let k = credit_key g; row = reusable_credit_subbalance s k
      in rbind (credit_attempt D (g, seq) row row) (\<lambda>r.
           Inr (s\<lparr>reusable_credit_subbalance := (reusable_credit_subbalance s)(k \<mapsto> r)\<rparr>)))"

definition upsert_tax ::
  "decimal_ops \<Rightarrow> int \<Rightarrow> grain_delta \<Rightarrow> balance_caches \<Rightarrow> project_error + balance_caches" where
  "upsert_tax D seq g s =
     (let k = tax_key g; row = tax_subbalance s k
      in rbind (tax_attempt D (g, seq) row row) (\<lambda>r. Inr (s\<lparr>tax_subbalance := (tax_subbalance s)(k \<mapsto> r)\<rparr>)))"

definition upsert_grain ::
  "decimal_ops \<Rightarrow> int \<Rightarrow> grain_delta \<Rightarrow> balance_caches \<Rightarrow> project_error + balance_caches" where
  "upsert_grain D seq g =
     (case gd_table g of
        AccountGrain \<Rightarrow> upsert_account_balance D seq g
      | ArPayerGrain \<Rightarrow> upsert_ar_payer D seq g
      | ArInvoiceGrain \<Rightarrow> upsert_ar_invoice D seq g
      | UnallocatedGrain \<Rightarrow> upsert_unallocated D seq g
      | ReusableCreditGrain \<Rightarrow> upsert_reusable_credit D seq g
      | TaxGrain \<Rightarrow> upsert_tax D seq g)"

definition project ::
  "decimal_ops \<Rightarrow> new_entry \<Rightarrow> new_line list \<Rightarrow> (uuid \<times> side) list \<Rightarrow> int \<Rightarrow> balance_caches
   \<Rightarrow> project_error + balance_caches" where
  "project D e ls sides seq s =
     rbind (derive_grains D e ls sides) (\<lambda>grains. fold_result (upsert_grain D seq) grains s)"

end
