(* ===== verification/Chain.thy ===== *)
theory Chain
  imports Canonical Projector
begin

text \<open>
  \<open>ledger/src/domain/chain.rs\<close>: the bytes hashed into the tamper-evidence chain of a tenant.  The digest
  \<open>H\<close> is an argument.  \<open>covered_entry\<close> and \<open>covered_line\<close> say what the encoding covers:
  everything but the correlation id, the rate snapshot of the header, the part of the posting instant
  below a microsecond and the due date of a line.
\<close>

definition CHAIN_DOMAIN_SEP :: bytes where
  "CHAIN_DOMAIN_SEP = ''VHP-BSS-LEDGER-CHAIN-v2'' @ [char_of (31 :: nat)]"

definition genesis_prev_hash :: "(bytes \<Rightarrow> bytes) \<Rightarrow> uuid \<Rightarrow> bytes" where
  "genesis_prev_hash H tenant = H (CHAIN_DOMAIN_SEP @ put_uuid tenant @ put_str ''GENESIS'')"

definition saturate_i64 :: "int \<Rightarrow> int" where
  "saturate_i64 n = max (- (2 ^ 63)) (min (2 ^ 63 - 1) n)"

text \<open>\<open>ledger/src/domain/instant.rs\<close>: whole microseconds of an instant in nanoseconds.\<close>

definition timestamp_micros :: "offset_date_time \<Rightarrow> int" where
  "timestamp_micros t =
     saturate_i64 (saturate_i64 (t div 1000000000 * 1000000) + t mod 1000000000 div 1000)"

text \<open>\<open>num_days_from_ce\<close>: day one is 0001-01-01, and 1970-01-01 is day 719163.\<close>

definition num_days_from_ce :: "naive_date \<Rightarrow> int" where
  "num_days_from_ce d = d + 719163"

definition chain_entry :: "new_entry \<Rightarrow> bytes" where
  "chain_entry e =
     put_uuid (ne_tenant_id e) @ put_uuid (ne_entry_id e) @ put_str (ne_period_id e) @ put_uuid (ne_legal_entity_id e) @
     put_str (ne_entry_currency e) @ put_str (source_doc_type_as_str (ne_source_doc_type e)) @
     put_str (ne_source_business_id e) @ put_opt_uuid (ne_reverses_entry_id e) @ put_opt_str (ne_reverses_period_id e) @
     put_i32 (num_days_from_ce (ne_effective_at e)) @ put_i64 (timestamp_micros (ne_posted_at_utc e)) @
     put_str (ne_origin e) @ put_uuid (ne_posted_by_actor_id e)"

definition chain_line :: "decimal_ops \<Rightarrow> new_line \<Rightarrow> bytes" where
  "chain_line D l =
     put_uuid (line_id l) @ put_uuid (account_id l) @ put_str (account_class_as_str (account_class l)) @
     put_opt_str (gl_code l) @ put_str (side_as_str (side l)) @ put_money D (money l) @
     put_opt_money D (functional_money l) @ put_uuid (payer_tenant_id l) @ put_opt_uuid (seller_tenant_id l) @
     put_opt_uuid (resource_tenant_id l) @ put_opt_str (invoice_id l) @ put_opt_str (revenue_stream l) @
     put_opt_str (tax_jurisdiction l) @ put_opt_str (tax_filing_period l) @ put_opt_str (tax_rate_ref l) @
     put_opt_str (ar_status l) @ put_str (mapping_status_as_str (mapping_status l)) @ put_none @
     put_opt_str (credit_grant_event_type l) @ put_opt_str (invoice_item_ref l) @ put_opt_str (sku_or_plan_ref l) @
     put_opt_str (price_id l) @ put_opt_str (pricing_snapshot_ref l) @ put_opt_str (po_allocation_group l) @
     put_opt_uuid (line_legal_entity_id l)"

definition chain_buffer :: "decimal_ops \<Rightarrow> new_entry \<Rightarrow> new_line list \<Rightarrow> bytes \<Rightarrow> bytes" where
  "chain_buffer D e ls prev_hash =
     (let ordered = sort_key line_id ls
      in CHAIN_DOMAIN_SEP @ chain_entry e @ put (be_bytes 8 (min (length ordered) (2 ^ 64 - 1))) @
         concat (map (chain_line D) ordered) @ put prev_hash)"

definition chain_row_hash :: "decimal_ops \<Rightarrow> (bytes \<Rightarrow> bytes) \<Rightarrow> new_entry \<Rightarrow> new_line list \<Rightarrow> bytes \<Rightarrow> bytes" where
  "chain_row_hash D H e ls prev_hash = H (chain_buffer D e ls prev_hash)"

section \<open>What the bytes determine\<close>

definition covered_entry :: "new_entry \<Rightarrow> new_entry" where
  "covered_entry e = e\<lparr>ne_correlation_id := 0, ne_rate_snapshot_ref := None,
     ne_posted_at_utc := timestamp_micros (ne_posted_at_utc e)\<rparr>"

definition covered_line :: "new_line \<Rightarrow> new_line" where
  "covered_line l = l\<lparr>due_date := None\<rparr>"

text \<open>The values their types and columns admit.\<close>

definition entry_fits :: "new_entry \<Rightarrow> bool" where
  "entry_fits e \<longleftrightarrow>
     list_all uuid_fits [ne_tenant_id e, ne_entry_id e, ne_legal_entity_id e, ne_posted_by_actor_id e] \<and>
     list_all field_fits [ne_period_id e, ne_entry_currency e, ne_source_business_id e, ne_origin e] \<and>
     uuid_field.opt_fits (ne_reverses_entry_id e) \<and> field.opt_fits (ne_reverses_period_id e) \<and>
     i32_fits (num_days_from_ce (ne_effective_at e))"

definition line_fits :: "decimal_ops \<Rightarrow> new_line \<Rightarrow> bool" where
  "line_fits D l \<longleftrightarrow>
     list_all uuid_fits [line_id l, account_id l, payer_tenant_id l] \<and>
     list_all uuid_field.opt_fits [seller_tenant_id l, resource_tenant_id l, line_legal_entity_id l] \<and>
     list_all field.opt_fits [gl_code l, invoice_id l, revenue_stream l, tax_jurisdiction l, tax_filing_period l,
       tax_rate_ref l, ar_status l, credit_grant_event_type l, invoice_item_ref l, sku_or_plan_ref l, price_id l,
       pricing_snapshot_ref l, po_allocation_group l] \<and>
     money_fits D (money l) \<and> opt_money_fits D (functional_money l)"

lemma literal_fits [simp]:
  "field_fits (account_class_as_str c)" "field_fits (side_as_str n)" "field_fits (mapping_status_as_str m)"
  "field_fits (source_doc_type_as_str t)"
  subgoal by (cases c; simp add: field_fits_def)
  subgoal by (cases n; simp add: field_fits_def)
  subgoal by (cases m; simp add: field_fits_def)
  subgoal by (cases t; simp add: field_fits_def)
  done

lemma literal_split [simp]:
  "account_class_as_str c = account_class_as_str c' \<longleftrightarrow> c = c'" "side_as_str n = side_as_str n' \<longleftrightarrow> n = n'"
  "mapping_status_as_str m = mapping_status_as_str m' \<longleftrightarrow> m = m'"
  "source_doc_type_as_str t = source_doc_type_as_str t' \<longleftrightarrow> t = t'"
  using account_enum.literal_inj side_enum.literal_inj mapping_enum.literal_inj doc_enum.literal_inj by blast+

lemma saturate_fits: "i64_fits (saturate_i64 n)"
  by (simp add: i64_fits_def saturate_i64_def)

lemma chain_entry_reading:
  assumes "entry_fits e" "entry_fits f" "chain_entry e @ u = chain_entry f @ v"
  shows "covered_entry e = covered_entry f \<and> u = v"
  using assms
  by (cases e; cases f)
    (simp add: chain_entry_def entry_fits_def field_names frame_split saturate_fits timestamp_micros_def covered_entry_def num_days_from_ce_def)

interpretation chain_lines: framed "\<lambda>l. chain_line D (covered_line l)" "\<lambda>l. line_fits D l \<and> due_date l = None" for D
proof
  fix l m u v
  assume "line_fits D l \<and> due_date l = None" "line_fits D m \<and> due_date m = None"
    "chain_line D (covered_line l) @ u = chain_line D (covered_line m) @ v"
  then show "l = m \<and> u = v"
    by (cases l; cases m) (simp add: chain_line_def line_fits_def field_names frame_split covered_line_def)
qed

text \<open>Equal bytes mean equal covered content, line by line in the order of their ids, and an equal link.\<close>

lemma chain_line_covered [simp]: "chain_line D (covered_line l) = chain_line D l"
  by (simp add: chain_line_def covered_line_def)

lemma covered_line_fits [simp]: "line_fits D (covered_line l) = line_fits D l" "due_date (covered_line l) = None"
  by (simp_all add: line_fits_def covered_line_def)

lemma chain_buffer_reading:
  assumes fits: "entry_fits e" "entry_fits f" "\<forall>l\<in>set ls. line_fits D l" "\<forall>l\<in>set ms. line_fits D l"
    and len: "length ls < 2 ^ 64" "length ms < 2 ^ 64" and prev: "field_fits p" "field_fits q"
    and eq: "chain_buffer D e ls p = chain_buffer D f ms q"
  shows "covered_entry e = covered_entry f \<and> map covered_line (sort_key line_id ls) = map covered_line (sort_key line_id ms) \<and> p = q"
proof -
  let ?k = "\<lambda>xs. put (be_bytes 8 (length xs)) @ concat (map (chain_line D) (sort_key line_id xs))"
  have "chain_entry e @ ?k ls @ put p = chain_entry f @ ?k ms @ put q"
    using eq len by (simp add: chain_buffer_def Let_def)
  note E = chain_entry_reading [OF fits(1,2) this]
  have "field_fits (be_bytes 8 (length xs))" for xs :: "new_line list" by (simp add: field_fits_def)
  with E have count: "be_bytes 8 (length ls) = be_bytes 8 (length ms)"
    and lines: "concat (map (chain_line D) (sort_key line_id ls)) @ put p = concat (map (chain_line D) (sort_key line_id ms)) @ put q"
    by (simp_all add: field.split)
  have "length ls < 256 ^ 8" "length ms < 256 ^ 8" using len by simp_all
  with count have "length ls = length ms" by (rule be_bytes_inj [of 8])
  let ?c = "\<lambda>xs. map covered_line (sort_key line_id xs)"
  have "?c ls = ?c ms \<and> put p = put q"
  proof (rule chain_lines.list_reading [of D])
    show "list_all (\<lambda>l. line_fits D l \<and> due_date l = None) (?c ls)" "list_all (\<lambda>l. line_fits D l \<and> due_date l = None) (?c ms)"
      using fits(3,4) by (simp_all add: list_all_iff)
    show "length (?c ls) = length (?c ms)" using \<open>length ls = length ms\<close> by simp
    show "concat (map (\<lambda>l. chain_line D (covered_line l)) (?c ls)) @ put p = concat (map (\<lambda>l. chain_line D (covered_line l)) (?c ms)) @ put q"
      using lines by (simp add: comp_def)
  qed
  moreover have "p = q" if "put p = put q" using field.reading [OF prev, of "[]" "[]"] that by simp
  ultimately show ?thesis using E by blast
qed

end
