(* ===== verification/Journal.thy ===== *)
theory Journal
  imports Chain
begin

text \<open>
  The append-only journal: the header and line rows of
  \<open>ledger/src/infra/storage/entity\<close>, the insert and the decoding of \<open>journal_repo.rs\<close>, and the
  constraints that the schema of \<open>migrations/m20260619_000002_create_journal_tables.rs\<close> puts on an insert.
  The free-form JSON column \<open>rounding_evidence\<close> is left out: no modelled code reads it.  The sequence
  number the database generates is an argument.
\<close>

section \<open>Rows\<close>

record entry_row =
  je_entry_id :: uuid
  je_tenant_id :: uuid
  je_legal_entity_id :: uuid
  je_period_id :: string
  je_entry_currency :: string
  je_source_doc_type :: string
  je_source_business_id :: string
  je_reverses_entry_id :: "uuid option"
  je_reverses_period_id :: "string option"
  je_posted_at_utc :: offset_date_time
  je_effective_at :: naive_date
  je_origin :: string
  je_posted_by_actor_id :: uuid
  je_correlation_id :: uuid
  je_created_seq :: int
  je_row_hash :: "bytes option"
  je_prev_hash :: "bytes option"
  je_prev_entry_id :: "uuid option"
  je_prev_period_id :: "string option"

record line_row =
  jl_line_id :: uuid
  jl_entry_id :: uuid
  jl_tenant_id :: uuid
  jl_period_id :: string
  jl_payer_tenant_id :: uuid
  jl_seller_tenant_id :: "uuid option"
  jl_resource_tenant_id :: "uuid option"
  jl_account_id :: uuid
  jl_account_class :: string
  jl_gl_code :: "string option"
  jl_side :: string
  jl_amount :: string
  jl_currency :: string
  jl_currency_scale :: int
  jl_invoice_id :: "string option"
  jl_due_date :: "naive_date option"
  jl_revenue_stream :: "string option"
  jl_mapping_status :: string
  jl_functional_amount :: "string option"
  jl_functional_currency :: "string option"
  jl_functional_currency_scale :: "int option"
  jl_tax_jurisdiction :: "string option"
  jl_tax_filing_period :: "string option"
  jl_tax_rate_ref :: "string option"
  jl_legal_entity_id :: "uuid option"
  jl_invoice_item_ref :: "string option"
  jl_sku_or_plan_ref :: "string option"
  jl_price_id :: "string option"
  jl_pricing_snapshot_ref :: "string option"
  jl_po_allocation_group :: "string option"
  jl_credit_grant_event_type :: "string option"
  jl_ar_status :: "string option"
  jl_rate_snapshot_ref :: "uuid option"

record journal =
  j_entries :: "entry_row list"
  j_lines :: "line_row list"

text \<open>The columns an insert sets; the chain columns stay null until the entry is sealed.\<close>

definition entry_row_of :: "int \<Rightarrow> new_entry \<Rightarrow> entry_row" where
  "entry_row_of seq e =
     \<lparr>je_entry_id = ne_entry_id e, je_tenant_id = ne_tenant_id e, je_legal_entity_id = ne_legal_entity_id e,
      je_period_id = ne_period_id e, je_entry_currency = ne_entry_currency e,
      je_source_doc_type = source_doc_type_as_str (ne_source_doc_type e),
      je_source_business_id = ne_source_business_id e, je_reverses_entry_id = ne_reverses_entry_id e,
      je_reverses_period_id = ne_reverses_period_id e, je_posted_at_utc = ne_posted_at_utc e,
      je_effective_at = ne_effective_at e, je_origin = ne_origin e, je_posted_by_actor_id = ne_posted_by_actor_id e,
      je_correlation_id = ne_correlation_id e, je_created_seq = seq, je_row_hash = None, je_prev_hash = None,
      je_prev_entry_id = None, je_prev_period_id = None\<rparr>"

definition line_row_of :: "decimal_ops \<Rightarrow> new_entry \<Rightarrow> new_line \<Rightarrow> line_row" where
  "line_row_of D e l =
     \<lparr>jl_line_id = line_id l, jl_entry_id = ne_entry_id e, jl_tenant_id = ne_tenant_id e, jl_period_id = ne_period_id e,
      jl_payer_tenant_id = payer_tenant_id l, jl_seller_tenant_id = seller_tenant_id l,
      jl_resource_tenant_id = resource_tenant_id l, jl_account_id = account_id l,
      jl_account_class = account_class_as_str (account_class l), jl_gl_code = gl_code l, jl_side = side_as_str (side l),
      jl_amount = encode_amount D (money l), jl_currency = code (currency (money l)),
      jl_currency_scale = int (cur_scale (currency (money l))), jl_invoice_id = invoice_id l, jl_due_date = due_date l,
      jl_revenue_stream = revenue_stream l, jl_mapping_status = mapping_status_as_str (mapping_status l),
      jl_functional_amount = map_option (encode_amount D) (functional_money l),
      jl_functional_currency = map_option (\<lambda>m. code (currency m)) (functional_money l),
      jl_functional_currency_scale = map_option (\<lambda>m. int (cur_scale (currency m))) (functional_money l),
      jl_tax_jurisdiction = tax_jurisdiction l, jl_tax_filing_period = tax_filing_period l, jl_tax_rate_ref = tax_rate_ref l,
      jl_legal_entity_id = line_legal_entity_id l, jl_invoice_item_ref = invoice_item_ref l,
      jl_sku_or_plan_ref = sku_or_plan_ref l, jl_price_id = price_id l, jl_pricing_snapshot_ref = pricing_snapshot_ref l,
      jl_po_allocation_group = po_allocation_group l, jl_credit_grant_event_type = credit_grant_event_type l,
      jl_ar_status = ar_status l, jl_rate_snapshot_ref = ne_rate_snapshot_ref e\<rparr>"

section \<open>Inserting\<close>

definition entry_key :: "entry_row \<Rightarrow> uuid \<times> string \<times> uuid" where
  "entry_key r = (je_tenant_id r, je_period_id r, je_entry_id r)"

definition line_key :: "line_row \<Rightarrow> uuid \<times> string \<times> uuid" where
  "line_key r = (jl_tenant_id r, jl_period_id r, jl_line_id r)"

text \<open>
  The unique indexes of the two tables and their checks on the dimensions.  Left out are the checks that hold
  of every row the insert builds (the closed lists of literals, the paired functional columns), the check on
  the amounts, which the validation before the insert implies, and the column lengths.
\<close>

definition entry_admitted :: "entry_row list \<Rightarrow> entry_row \<Rightarrow> bool" where
  "entry_admitted rows r \<longleftrightarrow>
     entry_key r \<notin> entry_key ` set rows \<and>
     (je_reverses_entry_id r = None \<longleftrightarrow> je_reverses_period_id r = None) \<and>
     je_origin r \<in> {''SYSTEM'', ''USER''} \<and>
     (je_reverses_entry_id r = None \<or>
      (\<forall>x\<in>set rows. (je_tenant_id x, je_reverses_period_id x, je_reverses_entry_id x) \<noteq>
         (je_tenant_id r, je_reverses_period_id r, je_reverses_entry_id r)))"

definition line_admitted :: "line_row list \<Rightarrow> line_row \<Rightarrow> bool" where
  "line_admitted rows r \<longleftrightarrow>
     line_key r \<notin> line_key ` set rows \<and>
     (jl_account_class r \<noteq> ''TAX_PAYABLE'' \<or> jl_tax_jurisdiction r \<noteq> None \<and> jl_tax_filing_period r \<noteq> None) \<and>
     (jl_account_class r \<notin> {''REVENUE'', ''CONTRACT_LIABILITY''} \<or> jl_revenue_stream r \<noteq> None) \<and>
     (jl_account_class r = ''REUSABLE_CREDIT'' \<longleftrightarrow> jl_credit_grant_event_type r \<noteq> None)"

definition insert_line :: "line_row \<Rightarrow> line_row list \<Rightarrow> repo_error + line_row list" where
  "insert_line r rows = (if line_admitted rows r then Inr (rows @ [r]) else Inl R_Db)"

definition insert_entry_with_lines ::
  "decimal_ops \<Rightarrow> int \<Rightarrow> new_entry \<Rightarrow> new_line list \<Rightarrow> journal \<Rightarrow> repo_error + journal" where
  "insert_entry_with_lines D seq e ls j =
     (if entry_admitted (j_entries j) (entry_row_of seq e)
      then rbind (fold_result (\<lambda>l. insert_line (line_row_of D e l)) ls (j_lines j)) (\<lambda>rows.
             Inr \<lparr>j_entries = j_entries j @ [entry_row_of seq e], j_lines = rows\<rparr>)
      else Inl R_Db)"

lemma insert_lines_Inr:
  "fold_result (\<lambda>l. insert_line (line_row_of D e l)) ls rows = Inr out \<Longrightarrow> out = rows @ map (line_row_of D e) ls"
proof (induction ls arbitrary: rows)
  case (Cons l ls)
  then show ?case using Cons.IH [of "rows @ [line_row_of D e l]"] by (simp add: insert_line_def split: if_splits)
qed simp

lemma insert_entry_with_lines_Inr:
  "insert_entry_with_lines D seq e ls j = Inr j' \<Longrightarrow>
     entry_admitted (j_entries j) (entry_row_of seq e) \<and>
     j' = \<lparr>j_entries = j_entries j @ [entry_row_of seq e], j_lines = j_lines j @ map (line_row_of D e) ls\<rparr>"
  by (auto simp: insert_entry_with_lines_def split: if_splits dest: insert_lines_Inr)

section \<open>Reading\<close>

definition entry_lines :: "journal \<Rightarrow> uuid \<Rightarrow> string \<Rightarrow> uuid \<Rightarrow> line_row list" where
  "entry_lines j tenant period entry =
     filter (\<lambda>r. jl_tenant_id r = tenant \<and> jl_period_id r = period \<and> jl_entry_id r = entry) (j_lines j)"

definition decode_line :: "decimal_ops \<Rightarrow> line_row \<Rightarrow> repo_error + new_line" where
  "decode_line D r =
     rbind (stored (account_class_from_str (jl_account_class r))) (\<lambda>class.
     rbind (stored (side_from_str (jl_side r))) (\<lambda>sd.
     rbind (stored (decode_money D (jl_amount r) (jl_currency r) (jl_currency_scale r))) (\<lambda>m.
     rbind (stored (mapping_status_from_str (jl_mapping_status r))) (\<lambda>mapping.
     rbind (stored (decode_optional_money D (jl_functional_amount r) (jl_functional_currency r)
              (jl_functional_currency_scale r))) (\<lambda>functional.
       Inr \<lparr>line_id = jl_line_id r, payer_tenant_id = jl_payer_tenant_id r, seller_tenant_id = jl_seller_tenant_id r,
            resource_tenant_id = jl_resource_tenant_id r, account_id = jl_account_id r, account_class = class,
            gl_code = jl_gl_code r, side = sd, money = m, invoice_id = jl_invoice_id r, due_date = jl_due_date r,
            revenue_stream = jl_revenue_stream r, mapping_status = mapping, functional_money = functional,
            tax_jurisdiction = jl_tax_jurisdiction r, tax_filing_period = jl_tax_filing_period r,
            tax_rate_ref = jl_tax_rate_ref r, invoice_item_ref = jl_invoice_item_ref r,
            sku_or_plan_ref = jl_sku_or_plan_ref r, price_id = jl_price_id r, pricing_snapshot_ref = jl_pricing_snapshot_ref r,
            po_allocation_group = jl_po_allocation_group r, credit_grant_event_type = jl_credit_grant_event_type r,
            ar_status = jl_ar_status r, line_legal_entity_id = jl_legal_entity_id r\<rparr>)))))"

definition read_lines_to_reverse ::
  "decimal_ops \<Rightarrow> journal \<Rightarrow> uuid \<Rightarrow> uuid \<Rightarrow> string \<Rightarrow> repo_error + uuid option \<times> new_line list" where
  "read_lines_to_reverse D j tenant entry period =
     (let rows = entry_lines j tenant period entry;
          snapshot = (case rows of [] \<Rightarrow> None | r # _ \<Rightarrow> jl_rate_snapshot_ref r)
      in if list_ex (\<lambda>r. jl_rate_snapshot_ref r \<noteq> snapshot) rows then Inl R_InvalidStoredMoney
         else rbind (map_result (decode_line D) rows) (\<lambda>ls. Inr (snapshot, ls)))"

section \<open>Lines survive storage\<close>

definition line_storable :: "new_line \<Rightarrow> bool" where
  "line_storable l \<longleftrightarrow> posted_ok (money l) \<and> spec_ok (currency (money l)) \<and>
     (\<forall>m. functional_money l = Some m \<longrightarrow> posted_ok m \<and> spec_ok (currency m))"

lemma decode_optional_stored:
  assumes D: "decimal_contract D" and T: "text_contract D" and f: "\<forall>m. f = Some m \<longrightarrow> posted_ok m \<and> spec_ok (currency m)"
  shows "decode_optional_money D (map_option (encode_amount D) f) (map_option (\<lambda>m. code (currency m)) f)
    (map_option (\<lambda>m. int (cur_scale (currency m))) f) = Inr f"
  using f by (cases f) (simp_all add: decode_money_Inr [OF D T])

lemma decode_line_stored:
  assumes D: "decimal_contract D" and T: "text_contract D" and l: "line_storable l"
  shows "decode_line D (line_row_of D e l) = Inr l"
proof -
  have "decode_money D (encode_amount D (money l)) (code (currency (money l))) (int (cur_scale (currency (money l)))) = Inr (money l)"
    using l by (simp add: decode_money_Inr [OF D T] line_storable_def)
  moreover have "decode_optional_money D (map_option (encode_amount D) (functional_money l))
      (map_option (\<lambda>m. code (currency m)) (functional_money l)) (map_option (\<lambda>m. int (cur_scale (currency m))) (functional_money l)) =
      Inr (functional_money l)"
    using l by (intro decode_optional_stored [OF D T]) (simp add: line_storable_def)
  ultimately show ?thesis
    by (simp add: decode_line_def line_row_of_def stored_def account_enum.read_back side_enum.read_back mapping_enum.read_back)
qed

end
