(* ===== verification/Settlement.thy ===== *)
theory Settlement
  imports Posting
begin

text \<open>
  \<open>ledger/src/domain/payment/settlement.rs\<close> and \<open>settlement_return.rs\<close> (Pattern A and its
  symmetric reverse), with \<open>pro_rata_fee_share\<close> of \<open>infra/payment/settlement_return.rs\<close> and
  \<open>to_naive_date\<close> of \<open>domain/instant.rs\<close>.

  \<open>Uuid::now_v7()\<close> is the parameter \<open>fresh\<close>: \<open>fresh k\<close> is the value of the k-th call the
  builder makes.  A settlement posts \<open>net + fee = gross\<close>; the builder's entries pass the engine's
  check, a return's entries too whenever the fee share is less than the amount returned.
\<close>

section \<open>Lines and headers shared by the payment builders\<close>

definition to_naive_date :: "offset_date_time \<Rightarrow> naive_date" where
  "to_naive_date ts = ts div (86400 * 1000000000)"

text \<open>\<open>1970-01-01\<close>, the placeholder date a caller overwrites.\<close>

definition placeholder_date :: naive_date where
  "placeholder_date = 0"

definition effective_date :: "offset_date_time option \<Rightarrow> naive_date" where
  "effective_date ts = (case ts of None \<Rightarrow> placeholder_date | Some t \<Rightarrow> to_naive_date t)"

definition nil_uuid :: uuid where
  "nil_uuid = 0"

text \<open>The line closure of the payment builders: a nil account, resolved, no functional amount.\<close>

definition payment_line ::
  "uuid \<Rightarrow> uuid \<Rightarrow> uuid \<Rightarrow> account_class \<Rightarrow> side \<Rightarrow> posted_money \<Rightarrow> string option \<Rightarrow> post_line" where
  "payment_line lid payer seller cls sd m inv_id =
     \<lparr>line_id = lid, payer_tenant_id = payer, seller_tenant_id = Some seller, resource_tenant_id = None,
      account_id = nil_uuid, account_class = cls, gl_code = None, side = sd, money = m,
      invoice_id = inv_id, due_date = None, revenue_stream = None, mapping_status = Resolved,
      functional_money = None, tax_jurisdiction = None, tax_filing_period = None, tax_rate_ref = None,
      invoice_item_ref = None, sku_or_plan_ref = None, price_id = None, pricing_snapshot_ref = None,
      po_allocation_group = None, credit_grant_event_type = None, ar_status = None\<rparr>"

definition payment_entry ::
  "uuid \<Rightarrow> uuid \<Rightarrow> string \<Rightarrow> source_doc_type \<Rightarrow> string \<Rightarrow> offset_date_time option \<Rightarrow> post_line list \<Rightarrow> post_entry" where
  "payment_entry eid tenant cur doc business ts ls =
     \<lparr>entry_id = eid, tenant_id = tenant, period_id = [], entry_currency = cur, source_doc_type = doc,
      source_business_id = business, effective_at = effective_date ts, posted_by_actor_id = nil_uuid,
      correlation_id = nil_uuid, reverses_entry_id = None, reverses_period_id = None, lines = ls\<rparr>"

section \<open>Settlement\<close>

record settlement_input =
  st_tenant_id :: uuid
  st_payer_tenant_id :: uuid
  st_payment_id :: string
  st_gross :: posted_money
  st_fee :: posted_money
  st_effective_at :: "offset_date_time option"

definition build_settlement_entry ::
  "decimal_ops \<Rightarrow> (nat \<Rightarrow> uuid) \<Rightarrow> settlement_input \<Rightarrow> domain_error + post_entry" where
  "build_settlement_entry D fresh i =
     rbind (matching_spec (st_gross i) (st_fee i)) (\<lambda>_.
       if dec_le D (amount (st_gross i)) dec_zero then Inl D_InvalidRequest
       else if dec_lt D (amount (st_fee i)) dec_zero then Inl D_InvalidRequest
       else if dec_le D (amount (st_gross i)) (amount (st_fee i)) then Inl D_InvalidRequest
       else rbind (subtract_posted D (st_gross i) (st_fee i)) (\<lambda>net.
         let line = (\<lambda>k cls sd m.
               payment_line (fresh k) (st_payer_tenant_id i) (st_tenant_id i) cls sd m None);
             has_fee = dec_lt D dec_zero (amount (st_fee i));
             fees = (if has_fee then [line 1 PspFeeExpense Debit (st_fee i)] else []);
             k = (if has_fee then 2 else 1);
             ls = [line 0 CashClearing Debit net] @ fees @ [line k Unallocated Credit (st_gross i)]
         in Inr (payment_entry (fresh (k + 1)) (st_tenant_id i) (code (currency (st_gross i)))
                   PaymentSettle (st_payment_id i) (st_effective_at i) ls)))"

section \<open>Settlement return\<close>

record settlement_return_input =
  sr_tenant_id :: uuid
  sr_payer_tenant_id :: uuid
  sr_payment_id :: string
  sr_psp_return_id :: string
  sr_amount :: posted_money
  sr_effective_at :: "offset_date_time option"

definition pro_rata_fee_share ::
  "decimal_ops \<Rightarrow> posted_money \<Rightarrow> posted_money \<Rightarrow> posted_money \<Rightarrow> domain_error + posted_money" where
  "pro_rata_fee_share D fee returned settled =
     map_err map_exact_error
       (rbind (checked_mul (from_decimal (amount fee)) (from_decimal (amount returned))) (\<lambda>v.
        rbind (checked_div v (from_decimal (amount settled))) (\<lambda>w.
          round_half_even D w (currency settled))))"

definition build_settlement_return_entry ::
  "decimal_ops \<Rightarrow> (nat \<Rightarrow> uuid) \<Rightarrow> settlement_return_input \<Rightarrow> posted_money \<Rightarrow> domain_error + post_entry" where
  "build_settlement_return_entry D fresh i fee_share =
     rbind (matching_spec (sr_amount i) fee_share) (\<lambda>_.
       if dec_le D (amount (sr_amount i)) dec_zero then Inl D_InvalidRequest
       else if dec_lt D (amount fee_share) dec_zero \<or> dec_lt D (amount (sr_amount i)) (amount fee_share)
       then Inl D_InvalidRequest
       else rbind (subtract_posted D (sr_amount i) fee_share) (\<lambda>net.
         let line = (\<lambda>k cls sd m.
               payment_line (fresh k) (sr_payer_tenant_id i) (sr_tenant_id i) cls sd m None);
             has_fee = dec_lt D dec_zero (amount fee_share);
             fees = (if has_fee then [line 2 PspFeeExpense Credit fee_share] else []);
             ls = [line 0 Unallocated Debit (sr_amount i), line 1 CashClearing Credit net] @ fees
         in Inr (payment_entry (fresh (if has_fee then 3 else 2)) (sr_tenant_id i)
                   (code (currency (sr_amount i))) SettlementReturn (sr_psp_return_id i)
                   (sr_effective_at i) ls)))"

section \<open>Both builders balance\<close>

lemma payment_line_simps [simp]:
  "money (payment_line lid payer seller cls sd m inv_id) = m"
  "side (payment_line lid payer seller cls sd m inv_id) = sd"
  "payer_tenant_id (payment_line lid payer seller cls sd m inv_id) = payer"
  "account_class (payment_line lid payer seller cls sd m inv_id) = cls"
  "invoice_id (payment_line lid payer seller cls sd m inv_id) = inv_id"
  "functional_money (payment_line lid payer seller cls sd m inv_id) = None"
  "line_id (payment_line lid payer seller cls sd m inv_id) = lid"
  "revenue_stream (payment_line lid payer seller cls sd m inv_id) = None"
  "ar_status (payment_line lid payer seller cls sd m inv_id) = None"
  "credit_grant_event_type (payment_line lid payer seller cls sd m inv_id) = None"
  by (simp_all add: payment_line_def)

lemma payment_entry_simps [simp]:
  "lines (payment_entry eid tenant cur doc business ts ls) = ls"
  "entry_currency (payment_entry eid tenant cur doc business ts ls) = cur"
  "source_doc_type (payment_entry eid tenant cur doc business ts ls) = doc"
  "source_business_id (payment_entry eid tenant cur doc business ts ls) = business"
  by (simp_all add: payment_entry_def)

lemma plain_payment_line:
  "plain_line cur payer (payment_line lid payer' seller cls sd m inv_id) \<longleftrightarrow>
     currency m = cur \<and> payer' = payer \<and> 0 < mval m"
  by (auto simp: plain_line_def)

text \<open>The accounts an entry touches: class, side and value of each line in order.\<close>

definition legs :: "post_entry \<Rightarrow> (account_class \<times> side \<times> rat) list" where
  "legs e = map (\<lambda>l. (account_class l, side l, mval (money l))) (lines e)"

definition settlement_ok :: "settlement_input \<Rightarrow> bool" where
  "settlement_ok i \<longleftrightarrow> posting_ok (st_gross i) \<and> posting_ok (st_fee i)"

lemma build_settlement_Inr:
  assumes D: "decimal_contract D" and ok: "settlement_ok i"
    and run: "build_settlement_entry D fresh i = Inr e"
  shows "0 \<le> mval (st_fee i)" "mval (st_fee i) < mval (st_gross i)"
    "currency (st_fee i) = currency (st_gross i)" "entry_currency e = code (currency (st_gross i))"
    "legs e = [(CashClearing, Debit, mval (st_gross i) - mval (st_fee i))] @
       (if mval (st_fee i) = 0 then [] else [(PspFeeExpense, Debit, mval (st_fee i))]) @
       [(Unallocated, Credit, mval (st_gross i))]"
    "\<forall>l\<in>set (lines e). plain_line (currency (st_gross i)) (st_payer_tenant_id i) l"
    "lines_net (lines e) = 0"
proof -
  have s: "cur_scale (currency (st_gross i)) \<le> 28" using ok by (simp add: settlement_ok_def posting_ok_def)
  from run obtain net where cur: "currency (st_gross i) = currency (st_fee i)" and
      v: "0 \<le> mval (st_fee i)" "mval (st_fee i) < mval (st_gross i)" and
      net: "subtract_posted D (st_gross i) (st_fee i) = Inr net" and
      e: "e = payment_entry (fresh ((if 0 < mval (st_fee i) then 2 else 1) + 1)) (st_tenant_id i)
            (code (currency (st_gross i))) PaymentSettle (st_payment_id i) (st_effective_at i)
            ([payment_line (fresh 0) (st_payer_tenant_id i) (st_tenant_id i) CashClearing Debit net None] @
             (if 0 < mval (st_fee i)
              then [payment_line (fresh 1) (st_payer_tenant_id i) (st_tenant_id i) PspFeeExpense Debit (st_fee i) None]
              else []) @
             [payment_line (fresh (if 0 < mval (st_fee i) then 2 else 1)) (st_payer_tenant_id i) (st_tenant_id i)
                Unallocated Credit (st_gross i) None])"
    by (auto simp: build_settlement_entry_def contract_compare [OF D] Let_def not_less split: if_splits)
  have n: "mval net = mval (st_gross i) - mval (st_fee i)" "currency net = currency (st_gross i)"
    using net by (auto simp: subtract_posted_Inr [OF D s] represents_def)
  show "0 \<le> mval (st_fee i)" "mval (st_fee i) < mval (st_gross i)"
    "currency (st_fee i) = currency (st_gross i)" "entry_currency e = code (currency (st_gross i))"
    using v cur by (simp_all add: e)
  show "legs e = [(CashClearing, Debit, mval (st_gross i) - mval (st_fee i))] @
       (if mval (st_fee i) = 0 then [] else [(PspFeeExpense, Debit, mval (st_fee i))]) @
       [(Unallocated, Credit, mval (st_gross i))]"
    using v n by (simp add: e legs_def)
  show "\<forall>l\<in>set (lines e). plain_line (currency (st_gross i)) (st_payer_tenant_id i) l"
    using v n cur by (simp add: e plain_payment_line)
  show "lines_net (lines e) = 0" using v n by (simp add: e)
qed

lemma legs_nonempty: "legs e \<noteq> [] \<longleftrightarrow> lines e \<noteq> []"
  by (simp add: legs_def)

lemma length_legs: "length (legs e) = length (lines e)"
  by (simp add: legs_def)

lemma plain_entry_balanced:
  assumes "entry_currency e = code cur" "lines e \<noteq> []" "\<forall>l\<in>set (lines e). plain_line cur payer l"
    "lines_net (lines e) = 0"
  shows "entry_balanced e"
  using plain_lines_balanced [of "lines e" cur payer] assms by (simp add: entry_balanced_def)

interpretation settlement: entry_builder build_settlement_entry settlement_ok
proof unfold_locales
  fix D :: decimal_ops and i fresh e
  assume D: "decimal_contract D" and i: "settlement_ok i" and e: "build_settlement_entry D fresh i = Inr e"
  note B = build_settlement_Inr [OF D i e]
  show "length (lines e) \<le> 2 ^ 64" using arg_cong [OF B(5), of length] by (simp add: length_legs split: if_splits)
  have "lines e \<noteq> []" using B(5) legs_nonempty [of e] by simp
  then show "entry_balanced e" using B by (intro plain_entry_balanced)
qed

section \<open>Refusals\<close>

lemma ensure_same_Inl: "ensure_same a b = Inl e \<Longrightarrow> e = CurrencyMismatch \<or> e = ScaleMismatch"
  by (simp add: ensure_same_def split: if_splits)

lemma subtract_posted_Inl:
  assumes D: "decimal_contract D" and l: "posting_ok l" and r: "posting_ok r"
    and cur: "currency l = currency r" and run: "subtract_posted D l r = Inl err"
  shows "err = D_AmountOutOfRange" "\<forall>m. \<not> represents m (currency l) (mval l - mval r)"
proof -
  have s: "cur_scale (currency l) \<le> 28" using l by (simp add: posting_ok_def)
  have "on_grid (mval l) (cur_scale (currency l))" "on_grid (mval r) (cur_scale (currency l))"
    using l r cur represents_on_grid [of l "currency l"] represents_on_grid [of r "currency l"]
    by (simp_all add: represents_def posting_ok_def)
  then have g: "on_grid (mval l - mval r) (cur_scale (currency l))"
    by (simp add: on_grid_def left_diff_distrib)
  from run obtain e where "into_posted_exact D (amount_of (mval l - mval r)) (currency l) = Inl e"
      "err = map_exact_error e"
    using cur by (auto simp: subtract_posted_def difference_narrow(1) map_err_eq_Inl)
  then show "err = D_AmountOutOfRange" "\<forall>m. \<not> represents m (currency l) (mval l - mval r)"
    using g by (auto simp: into_posted_exact_Inl [OF D difference_narrow(2) s])
qed

lemma build_settlement_outcome:
  assumes D: "decimal_contract D" and ok: "settlement_ok i"
  shows "case build_settlement_entry D fresh i of
      Inr e \<Rightarrow> currency (st_fee i) = currency (st_gross i) \<and> 0 \<le> mval (st_fee i) \<and>
        mval (st_fee i) < mval (st_gross i)
    | Inl err \<Rightarrow>
        (if currency (st_fee i) \<noteq> currency (st_gross i) then err \<in> {D_CurrencyMismatch, D_InconsistentScale}
         else if mval (st_fee i) < 0 \<or> mval (st_gross i) \<le> mval (st_fee i) then err = D_InvalidRequest
         else err = D_AmountOutOfRange \<and>
           (\<forall>m. \<not> represents m (currency (st_gross i)) (mval (st_gross i) - mval (st_fee i))))"
proof (cases "build_settlement_entry D fresh i")
  case (Inr e)
  with build_settlement_Inr [OF D ok Inr] show ?thesis by simp
next
  case (Inl err)
  show ?thesis
  proof (cases "currency (st_fee i) = currency (st_gross i)")
    case False
    with Inl have "matching_spec (st_gross i) (st_fee i) = Inl err"
      by (cases "matching_spec (st_gross i) (st_fee i)") (auto simp: build_settlement_entry_def)
    with False Inl show ?thesis
      by (auto simp: matching_spec_def matching_currency_def map_err_eq_Inl dest: ensure_same_Inl)
  next
    case cur: True
    have g: "posting_ok (st_gross i)" "posting_ok (st_fee i)" using ok by (simp_all add: settlement_ok_def)
    show ?thesis
    proof (cases "mval (st_fee i) < 0 \<or> mval (st_gross i) \<le> mval (st_fee i)")
      case True
      with Inl cur show ?thesis
        by (auto simp: build_settlement_entry_def contract_compare [OF D] not_less split: if_splits)
    next
      case False
      with Inl cur have "subtract_posted D (st_gross i) (st_fee i) = Inl err"
        by (cases "subtract_posted D (st_gross i) (st_fee i)")
          (auto simp: build_settlement_entry_def contract_compare [OF D] not_less Let_def)
      from subtract_posted_Inl [OF D g cur [symmetric] this] False cur Inl show ?thesis by simp
    qed
  qed
qed

section \<open>Returns\<close>

definition return_ok :: "settlement_return_input \<times> posted_money \<Rightarrow> bool" where
  "return_ok p \<longleftrightarrow> posting_ok (sr_amount (fst p)) \<and> posting_ok (snd p) \<and> mval (snd p) < mval (sr_amount (fst p))"

lemma build_return_Inr:
  assumes D: "decimal_contract D" and ok: "posting_ok (sr_amount i)"
    and run: "build_settlement_return_entry D fresh i f = Inr e"
  shows "0 \<le> mval f" "mval f \<le> mval (sr_amount i)" "0 < mval (sr_amount i)" "currency f = currency (sr_amount i)"
    "entry_currency e = code (currency (sr_amount i))"
    "legs e = [(Unallocated, Debit, mval (sr_amount i)), (CashClearing, Credit, mval (sr_amount i) - mval f)] @
       (if mval f = 0 then [] else [(PspFeeExpense, Credit, mval f)])"
    "\<forall>l\<in>set (lines e). currency (money l) = currency (sr_amount i) \<and> payer_tenant_id l = sr_payer_tenant_id i \<and>
       functional_money l = None"
proof -
  have s: "cur_scale (currency (sr_amount i)) \<le> 28" using ok by (simp add: posting_ok_def)
  from run obtain net where cur: "currency (sr_amount i) = currency f" and
      v: "0 < mval (sr_amount i)" "0 \<le> mval f" "mval f \<le> mval (sr_amount i)" and
      net: "subtract_posted D (sr_amount i) f = Inr net" and
      e: "e = payment_entry (fresh (if 0 < mval f then 3 else 2)) (sr_tenant_id i)
            (code (currency (sr_amount i))) SettlementReturn (sr_psp_return_id i) (sr_effective_at i)
            ([payment_line (fresh 0) (sr_payer_tenant_id i) (sr_tenant_id i) Unallocated Debit (sr_amount i) None,
              payment_line (fresh 1) (sr_payer_tenant_id i) (sr_tenant_id i) CashClearing Credit net None] @
             (if 0 < mval f
              then [payment_line (fresh 2) (sr_payer_tenant_id i) (sr_tenant_id i) PspFeeExpense Credit f None]
              else []))"
    by (auto simp: build_settlement_return_entry_def contract_compare [OF D] Let_def not_less split: if_splits)
  have n: "mval net = mval (sr_amount i) - mval f" "currency net = currency (sr_amount i)"
    using net by (auto simp: subtract_posted_Inr [OF D s] represents_def)
  show "0 \<le> mval f" "mval f \<le> mval (sr_amount i)" "0 < mval (sr_amount i)" "currency f = currency (sr_amount i)"
    "entry_currency e = code (currency (sr_amount i))"
    using v cur by (simp_all add: e)
  show "legs e = [(Unallocated, Debit, mval (sr_amount i)), (CashClearing, Credit, mval (sr_amount i) - mval f)] @
       (if mval f = 0 then [] else [(PspFeeExpense, Credit, mval f)])"
    using v n by (simp add: e legs_def)
  show "\<forall>l\<in>set (lines e). currency (money l) = currency (sr_amount i) \<and> payer_tenant_id l = sr_payer_tenant_id i \<and>
       functional_money l = None"
    using n cur by (simp add: e)
qed

lemma lines_net_legs: "lines_net (lines e) = (\<Sum>(c, sd, q)\<leftarrow>legs e. signed sd q)"
  by (simp add: lines_net_def legs_def o_def)

lemma leg_positive:
  "(\<And>c sd q. (c, sd, q) \<in> set (legs e) \<Longrightarrow> 0 < q) \<Longrightarrow> l \<in> set (lines e) \<Longrightarrow> 0 < mval (money l)"
  by (force simp: legs_def)

interpretation settlement_return:
  entry_builder "\<lambda>D fresh p. build_settlement_return_entry D fresh (fst p) (snd p)" return_ok
proof unfold_locales
  fix D :: decimal_ops and p fresh e
  assume D: "decimal_contract D" and p: "return_ok p"
    and e: "build_settlement_return_entry D fresh (fst p) (snd p) = Inr e"
  have ok: "posting_ok (sr_amount (fst p))" using p by (simp add: return_ok_def)
  note B = build_return_Inr [OF D ok e]
  show "length (lines e) \<le> 2 ^ 64" using arg_cong [OF B(6), of length] by (simp add: length_legs split: if_splits)
  have lt: "mval (snd p) < mval (sr_amount (fst p))" using p by (simp add: return_ok_def)
  have "0 < q" if "(c, sd, q) \<in> set (legs e)" for c sd q
    using that lt B(1,3) unfolding B(6) by (auto split: if_splits)
  then have pos: "0 < mval (money l)" if "l \<in> set (lines e)" for l using leg_positive that by blast
  have "lines_net (lines e) = 0" unfolding lines_net_legs B(6) by simp
  moreover have "lines e \<noteq> []" using B(6) legs_nonempty [of e] by simp
  moreover have "\<forall>l\<in>set (lines e). plain_line (currency (sr_amount (fst p))) (sr_payer_tenant_id (fst p)) l"
    using B(7) pos by (simp add: plain_line_def)
  ultimately show "entry_balanced e" using B(5) by (intro plain_entry_balanced)
qed

text \<open>
  A fee share equal to the whole return is within the builder's range; its cash leg is then a zero
  line, which the engine refuses.
\<close>

lemma whole_fee_refused:
  assumes D: "decimal_contract D" and ok: "posting_ok (sr_amount i)" and f: "mval f = mval (sr_amount i)"
    and run: "build_settlement_return_entry D fresh i f = Inr e"
  shows "validate_balanced_entry D (entry_currency e) (map line_facts_of (lines e)) = Inl PV_AmountOutOfRange"
proof -
  note B = build_return_Inr [OF D ok run]
  have "(CashClearing, Credit, 0) \<in> set (legs e)" unfolding B(6) using f by simp
  then obtain l where l: "l \<in> set (lines e)" "mval (money l) = 0" by (auto simp: legs_def)
  then have "amount_refused D (line_facts_of l)" using B(7) by (simp add: amount_refused_value [OF D])
  with l show ?thesis by (auto simp: validate_balanced_entry_def list_ex_iff)
qed

lemma pro_rata_fee_share_Inr:
  assumes D: "decimal_contract D" and s: "posting_ok settled"
    and run: "pro_rata_fee_share D fee returned settled = Inr f"
  shows "represents f (currency settled)
    (of_int (half_even (mval fee * mval returned / mval settled * 10 ^ cur_scale (currency settled))) /
       10 ^ cur_scale (currency settled))"
proof -
  let ?s = "cur_scale (currency settled)"
  have s28: "?s \<le> 28" using s by (simp add: posting_ok_def)
  from run obtain p q r where p: "checked_mul (from_decimal (amount fee)) (from_decimal (amount returned)) = Inr p"
      and q: "checked_div p (from_decimal (amount settled)) = Inr q"
      and r: "round_half_even_exact q ?s = Inr r" and f: "into_posted_exact D r (currency settled) = Inr f"
    by (auto simp: pro_rata_fee_share_def round_half_even_def)
  have P: "exact_ready p" "exval p = mval fee * mval returned"
    using p narrow_ready by (auto simp: checked_mul_narrow)
  have Q: "exact_ready q" "exval q = mval fee * mval returned / mval settled"
    using q narrow_ready P by (auto simp: checked_div_narrow split: if_splits)
  have R: "exact_ready r" "exval r = of_int (half_even (exval q * 10 ^ ?s)) / 10 ^ ?s"
    using r narrow_ready by (auto simp: round_half_even_exact_narrow [OF Q(1) s28])
  show ?thesis using f R Q(2) by (simp add: into_posted_exact_Inr [OF D R(1) s28])
qed

end
