(* ===== verification/Reversal.thy ===== *)
theory Reversal
  imports Digits Settlement
begin

text \<open>
  \<open>ledger/src/domain/invoice/reversal.rs\<close>: the reversing entry, the re-post of a mapping correction,
  and the governed magnitude of a reversal.  \<open>EntryView\<close> and \<open>LineView\<close> are the read-back DTOs of
  \<open>ledger-sdk/src/posting.rs\<close>.  The text of a \<open>Uuid\<close> and the SHA-256 digest are arguments.
\<close>

record line_view =
  lv_line_id :: uuid
  lv_entry_id :: uuid
  lv_payer_tenant_id :: uuid
  lv_account_id :: uuid
  lv_account_class :: account_class
  lv_gl_code :: "string option"
  lv_side :: side
  lv_money :: posted_money
  lv_invoice_id :: "string option"
  lv_due_date :: "naive_date option"
  lv_revenue_stream :: "string option"
  lv_mapping_status :: mapping_status
  lv_functional_money :: "posted_money option"
  lv_tax_jurisdiction :: "string option"
  lv_tax_filing_period :: "string option"
  lv_ar_status :: "string option"

record entry_view =
  ev_entry_id :: uuid
  ev_tenant_id :: uuid
  ev_period_id :: string
  ev_entry_currency :: string
  ev_source_doc_type :: source_doc_type
  ev_source_business_id :: string
  ev_reverses_entry_id :: "uuid option"
  ev_reverses_period_id :: "string option"
  ev_posted_at_utc :: offset_date_time
  ev_effective_at :: naive_date
  ev_posted_by_actor_id :: uuid
  ev_origin :: string
  ev_correlation_id :: uuid
  ev_created_seq :: int
  ev_lines :: "line_view list"

datatype reversal_error =
    CannotReverseReversal
  | ReversalMoney money_error
  | CreditGrantNotReconstructible

definition reversal_business_id :: "(uuid \<Rightarrow> string) \<Rightarrow> uuid \<Rightarrow> string" where
  "reversal_business_id U original_entry_id = ''reverses='' @ U original_entry_id"

fun flip :: "side \<Rightarrow> side" where
  "flip Debit = Credit"
| "flip Credit = Debit"

definition foreign_functional_only :: "decimal_ops \<Rightarrow> string \<Rightarrow> posted_money \<Rightarrow> posted_money option \<Rightarrow> bool" where
  "foreign_functional_only D header m f \<longleftrightarrow> is_functional_only D m f \<and> code (currency m) \<noteq> header"

fun validate_money ::
  "decimal_ops \<Rightarrow> string \<Rightarrow> nat option \<Rightarrow> (posted_money \<times> posted_money option) list \<Rightarrow> money_error + unit" where
  "validate_money D header seen [] = Inr ()"
| "validate_money D header seen ((v, f) # rest) =
     (if foreign_functional_only D header v f then validate_money D header seen rest
      else if code (currency v) \<noteq> header then Inl CurrencyMismatch
      else if seen \<noteq> None \<and> seen \<noteq> Some (cur_scale (currency v)) then Inl ScaleMismatch
      else validate_money D header (Some (cur_scale (currency v))) rest)"

definition flip_line :: "uuid \<Rightarrow> line_view \<Rightarrow> post_line" where
  "flip_line lid l =
     \<lparr>line_id = lid, payer_tenant_id = lv_payer_tenant_id l, seller_tenant_id = None, resource_tenant_id = None,
      account_id = lv_account_id l, account_class = lv_account_class l, gl_code = lv_gl_code l,
      side = flip (lv_side l), money = lv_money l, invoice_id = lv_invoice_id l, due_date = lv_due_date l,
      revenue_stream = lv_revenue_stream l, mapping_status = lv_mapping_status l,
      functional_money = lv_functional_money l, tax_jurisdiction = lv_tax_jurisdiction l,
      tax_filing_period = lv_tax_filing_period l, tax_rate_ref = None, invoice_item_ref = None,
      sku_or_plan_ref = None, price_id = None, pricing_snapshot_ref = None, po_allocation_group = None,
      credit_grant_event_type = None, ar_status = lv_ar_status l\<rparr>"

fun flip_lines :: "(nat \<Rightarrow> uuid) \<Rightarrow> nat \<Rightarrow> line_view list \<Rightarrow> post_line list" where
  "flip_lines fresh k [] = []"
| "flip_lines fresh k (l # ls) = flip_line (fresh k) l # flip_lines fresh (Suc k) ls"

definition build_reversal ::
  "decimal_ops \<Rightarrow> (uuid \<Rightarrow> string) \<Rightarrow> (nat \<Rightarrow> uuid) \<Rightarrow> entry_view \<Rightarrow> string \<Rightarrow> naive_date \<Rightarrow> uuid \<Rightarrow> uuid
   \<Rightarrow> reversal_error + post_entry" where
  "build_reversal D U fresh original into_period_id effective_on actor correlation =
     (if ev_source_doc_type original = Reversal then Inl CannotReverseReversal
      else if list_ex (\<lambda>l. lv_account_class l = ReusableCredit) (ev_lines original) then Inl CreditGrantNotReconstructible
      else rbind (map_err ReversalMoney
                    (validate_money D (ev_entry_currency original) None
                       (map (\<lambda>l. (lv_money l, lv_functional_money l)) (ev_lines original)))) (\<lambda>_.
             Inr \<lparr>entry_id = fresh 0, tenant_id = ev_tenant_id original, period_id = into_period_id,
                  entry_currency = ev_entry_currency original, source_doc_type = Reversal,
                  source_business_id = reversal_business_id U (ev_entry_id original), effective_at = effective_on,
                  posted_by_actor_id = actor, correlation_id = correlation,
                  reverses_entry_id = Some (ev_entry_id original), reverses_period_id = Some (ev_period_id original),
                  lines = flip_lines fresh 1 (ev_lines original)\<rparr>))"

text \<open>\<open>{byte:02x}\<close> for every byte of the digest.\<close>

definition hex_digit :: "nat \<Rightarrow> char" where
  "hex_digit n = (if n < 10 then char_of (48 + n) else char_of (87 + n))"

fun hex_text :: "nat list \<Rightarrow> string" where
  "hex_text [] = []"
| "hex_text (b # bs) = hex_digit (b div 16) # hex_digit (b mod 16) # hex_text bs"

definition correction_id :: "(uuid \<Rightarrow> string) \<Rightarrow> (string \<Rightarrow> nat list) \<Rightarrow> uuid \<Rightarrow> uuid \<Rightarrow> string" where
  "correction_id U sha256 original_entry_id reversal_entry_id =
     hex_text (sha256 (U original_entry_id @ '':'' @ U reversal_entry_id))"

definition build_mapping_correction ::
  "decimal_ops \<Rightarrow> (uuid \<Rightarrow> string) \<Rightarrow> (string \<Rightarrow> nat list) \<Rightarrow> (nat \<Rightarrow> uuid) \<Rightarrow> entry_view \<Rightarrow> uuid \<Rightarrow> string \<Rightarrow> string
   \<Rightarrow> naive_date \<Rightarrow> uuid \<Rightarrow> uuid \<Rightarrow> post_line list \<Rightarrow> reversal_error + post_entry" where
  "build_mapping_correction D U sha256 fresh original reversal_entry_id inv_id into_period_id effective_on actor
     correlation corrected_lines =
     rbind (map_err ReversalMoney
              (validate_money D (ev_entry_currency original) None
                 (map (\<lambda>l. (money l, functional_money l)) corrected_lines))) (\<lambda>_.
       Inr \<lparr>entry_id = fresh 0, tenant_id = ev_tenant_id original, period_id = into_period_id,
            entry_currency = ev_entry_currency original, source_doc_type = MappingCorrection,
            source_business_id = inv_id @ '':'' @ correction_id U sha256 (ev_entry_id original) reversal_entry_id,
            effective_at = effective_on, posted_by_actor_id = actor, correlation_id = correlation,
            reverses_entry_id = Some reversal_entry_id, reverses_period_id = Some (ev_period_id original),
            lines = corrected_lines\<rparr>)"

definition reverse_governed_amount :: "decimal_ops \<Rightarrow> entry_view \<Rightarrow> domain_error + posted_money option" where
  "reverse_governed_amount D original =
     (let header = ev_entry_currency original
      in rbind (map_err (\<lambda>_. D_Internal)
                  (validate_money D header None
                     (map (\<lambda>l. (lv_money l, lv_functional_money l)) (ev_lines original)))) (\<lambda>_.
           case filter (\<lambda>l. lv_side l = Debit \<and>
                  \<not> foreign_functional_only D header (lv_money l) (lv_functional_money l)) (ev_lines original) of
             [] \<Rightarrow> Inr None
           | first # rest \<Rightarrow>
               map_err (\<lambda>_. D_Internal)
                 (rbind (sum_posted D (lv_money first # map lv_money rest) (currency (lv_money first))) (\<lambda>m.
                    Inr (Some m)))))"

section \<open>A reversal undoes the original\<close>

definition view_facts :: "line_view \<Rightarrow> line_facts" where
  "view_facts l = \<lparr>lf_side = lv_side l, lf_money = lv_money l, lf_payer = lv_payer_tenant_id l,
     lf_functional = lv_functional_money l\<rparr>"

lemma view_facts_simps [simp]:
  "lf_side (view_facts l) = lv_side l" "lf_money (view_facts l) = lv_money l"
  "lf_payer (view_facts l) = lv_payer_tenant_id l" "lf_functional (view_facts l) = lv_functional_money l"
  by (simp_all add: view_facts_def)

definition flip_facts :: "line_facts \<Rightarrow> line_facts" where
  "flip_facts l = l\<lparr>lf_side := flip (lf_side l)\<rparr>"

lemma flip_facts_simps [simp]:
  "lf_side (flip_facts l) = flip (lf_side l)" "lf_money (flip_facts l) = lf_money l"
  "lf_payer (flip_facts l) = lf_payer l" "lf_functional (flip_facts l) = lf_functional l"
  by (simp_all add: flip_facts_def)

lemma signed_flip [simp]: "signed (flip s) q = - signed s q"
  by (cases s) simp_all

lemma flip_flip [simp]: "flip (flip s) = s"
  by (cases s) simp_all

lemma flip_lines_facts: "map line_facts_of (flip_lines fresh k ls) = map (flip_facts \<circ> view_facts) ls"
  by (induction ls arbitrary: k) (simp_all add: flip_line_def line_facts_of_def flip_facts_def view_facts_def)

lemma sum_list_neg: "(\<Sum>x\<leftarrow>xs. - f x) = - (\<Sum>x\<leftarrow>xs. f x :: rat)"
  by (induction xs) simp_all

lemma code_net_flip: "code_net (map flip_facts ls) c = - code_net ls c"
  by (induction ls) (simp_all add: code_net_def line_net_def)

lemma functional_balanced_flip:
  assumes "functional_balanced ls"
  shows "functional_balanced (map flip_facts ls)"
proof -
  have sum: "(\<Sum>l\<leftarrow>map flip_facts ls. signed (lf_side l) (mval (the (lf_functional l)))) =
      - (\<Sum>l\<leftarrow>ls. signed (lf_side l) (mval (the (lf_functional l))))"
    by (simp add: o_def sum_list_neg)
  have all: "(\<forall>l\<in>set (map flip_facts ls). P (lf_functional l)) \<longleftrightarrow> (\<forall>l\<in>set ls. P (lf_functional l))" for P
    by simp
  show ?thesis
    using assms unfolding functional_balanced_def sum all [of "\<lambda>f. f = None"] all [of "\<lambda>x. \<exists>f. x = Some f \<and> currency f = _"]
    by simp
qed

lemma balanced_lines_flip:
  assumes "balanced_lines cur ls"
  shows "balanced_lines cur (map flip_facts ls)"
proof -
  have scales: "scales_agree (map flip_facts ls) \<longleftrightarrow> scales_agree ls" by (simp add: scales_agree_def)
  show ?thesis
    using assms functional_balanced_flip [of ls]
    unfolding balanced_lines_def code_net_flip scales set_map ball_simps flip_facts_simps map_is_Nil_conv
      neg_equal_0_iff_equal
    by blast
qed

lemma validate_money_ok:
  assumes "\<forall>(v, f)\<in>set ls. foreign_functional_only D h v f \<or> code (currency v) = h \<and> cur_scale (currency v) = s"
    and "seen = None \<or> seen = Some s"
  shows "validate_money D h seen ls = Inr ()"
  using assms by (induction D h seen ls rule: validate_money.induct) auto

lemma balanced_line_code:
  assumes "balanced_lines h (map view_facts ls)" "l \<in> set ls"
  shows "code (currency (lv_money l)) = h \<or> mval (lv_money l) = 0 \<and> lv_functional_money l \<noteq> None"
  using assms unfolding balanced_lines_def set_map ball_simps view_facts_simps by blast

lemma balanced_line_scale:
  assumes "balanced_lines h (map view_facts ls)" "l \<in> set ls" "k \<in> set ls"
    and "code (currency (lv_money l)) = code (currency (lv_money k))"
  shows "cur_scale (currency (lv_money l)) = cur_scale (currency (lv_money k))"
  using assms unfolding balanced_lines_def scales_agree_def set_map ball_simps view_facts_simps by blast

lemma foreign_value:
  assumes "decimal_contract D"
  shows "foreign_functional_only D h m f \<longleftrightarrow> mval m = 0 \<and> f \<noteq> None \<and> code (currency m) \<noteq> h"
  using assms by (auto simp: foreign_functional_only_def is_functional_only_def decimal_rules)

lemma balanced_money_valid:
  assumes D: "decimal_contract D" and b: "balanced_lines h (map view_facts ls)"
  shows "validate_money D h None (map (\<lambda>l. (lv_money l, lv_functional_money l)) ls) = Inr ()"
proof (cases "\<exists>l\<in>set ls. code (currency (lv_money l)) = h")
  case True
  then obtain k where k: "k \<in> set ls" "code (currency (lv_money k)) = h" by blast
  have "foreign_functional_only D h (lv_money l) (lv_functional_money l) \<or>
      code (currency (lv_money l)) = h \<and> cur_scale (currency (lv_money l)) = cur_scale (currency (lv_money k))"
    if "l \<in> set ls" for l
    using balanced_line_code [OF b that] balanced_line_scale [OF b that k(1)] k(2) by (auto simp: foreign_value [OF D])
  then show ?thesis by (intro validate_money_ok) auto
next
  case False
  have "foreign_functional_only D h (lv_money l) (lv_functional_money l)" if "l \<in> set ls" for l
    using that balanced_line_code [OF b that] False by (auto simp: foreign_value [OF D])
  then show ?thesis by (intro validate_money_ok [where s = 0]) auto
qed

text \<open>The dimensions a line moves: what the balance caches key their grains by.\<close>

type_synonym grain =
  "uuid \<times> uuid \<times> account_class \<times> string option \<times> string option \<times> string option \<times> string option \<times> string option"

definition view_grain :: "line_view \<Rightarrow> grain" where
  "view_grain l = (lv_payer_tenant_id l, lv_account_id l, lv_account_class l, lv_invoice_id l, lv_revenue_stream l,
     lv_tax_jurisdiction l, lv_tax_filing_period l, lv_ar_status l)"

definition line_grain :: "post_line \<Rightarrow> grain" where
  "line_grain l = (payer_tenant_id l, account_id l, account_class l, invoice_id l, revenue_stream l,
     tax_jurisdiction l, tax_filing_period l, ar_status l)"

definition views_move :: "line_view list \<Rightarrow> grain \<Rightarrow> string \<Rightarrow> rat" where
  "views_move ls g c = (\<Sum>l\<leftarrow>ls. if view_grain l = g \<and> code (currency (lv_money l)) = c
     then signed (lv_side l) (mval (lv_money l)) else 0)"

definition lines_move :: "post_line list \<Rightarrow> grain \<Rightarrow> string \<Rightarrow> rat" where
  "lines_move ls g c = (\<Sum>l\<leftarrow>ls. if line_grain l = g \<and> code (currency (money l)) = c
     then signed (side l) (mval (money l)) else 0)"

definition functional_value :: "posted_money option \<Rightarrow> rat" where
  "functional_value f = (case f of None \<Rightarrow> 0 | Some m \<Rightarrow> mval m)"

definition views_functional :: "line_view list \<Rightarrow> grain \<Rightarrow> rat" where
  "views_functional ls g = (\<Sum>l\<leftarrow>ls. if view_grain l = g then signed (lv_side l) (functional_value (lv_functional_money l)) else 0)"

definition lines_functional :: "post_line list \<Rightarrow> grain \<Rightarrow> rat" where
  "lines_functional ls g = (\<Sum>l\<leftarrow>ls. if line_grain l = g then signed (side l) (functional_value (functional_money l)) else 0)"

lemma flip_line_simps [simp]:
  "line_grain (flip_line i l) = view_grain l" "money (flip_line i l) = lv_money l" "side (flip_line i l) = flip (lv_side l)"
  "functional_money (flip_line i l) = lv_functional_money l" "account_class (flip_line i l) = lv_account_class l"
  by (simp_all add: flip_line_def line_grain_def view_grain_def)

lemma flip_lines_move:
  "lines_move (flip_lines fresh k ls) g c = - views_move ls g c"
  "lines_functional (flip_lines fresh k ls) g = - views_functional ls g"
  by (induction ls arbitrary: k)
    (simp_all add: lines_move_def views_move_def lines_functional_def views_functional_def)

definition reversible :: "entry_view \<Rightarrow> bool" where
  "reversible original \<longleftrightarrow> balanced_lines (ev_entry_currency original) (map view_facts (ev_lines original)) \<and>
     ev_source_doc_type original \<noteq> Reversal \<and> (\<forall>l\<in>set (ev_lines original). lv_account_class l \<noteq> ReusableCredit)"

lemma build_reversal_run:
  assumes D: "decimal_contract D" and r: "reversible original"
  shows "\<exists>e. build_reversal D U fresh original into on actor corr = Inr e \<and>
    lines e = flip_lines fresh 1 (ev_lines original) \<and> entry_currency e = ev_entry_currency original \<and>
    source_doc_type e = Reversal \<and> reverses_entry_id e = Some (ev_entry_id original) \<and>
    source_business_id e = reversal_business_id U (ev_entry_id original) \<and> entry_balanced e"
proof -
  have b: "balanced_lines (ev_entry_currency original) (map view_facts (ev_lines original))"
    using r by (simp add: reversible_def)
  have c: "\<not> list_ex (\<lambda>l. lv_account_class l = ReusableCredit) (ev_lines original)" "ev_source_doc_type original \<noteq> Reversal"
    using r by (simp_all add: reversible_def list_ex_iff)
  show ?thesis
    unfolding build_reversal_def balanced_money_valid [OF D b]
    using c balanced_lines_flip [OF b] by (simp add: entry_balanced_def flip_lines_facts)
qed

lemma length_flip_lines [simp]: "length (flip_lines fresh k ls) = length ls"
  by (induction ls arbitrary: k) simp_all

text \<open>The reversal as a builder of balanced entries, from the original, the period, the date and the two ids.\<close>

definition reversal_ok :: "entry_view \<times> string \<times> naive_date \<times> uuid \<times> uuid \<Rightarrow> bool" where
  "reversal_ok p \<longleftrightarrow> reversible (fst p) \<and> length (ev_lines (fst p)) \<le> 2 ^ 64"

interpretation reversing:
  entry_builder "\<lambda>D fresh (original, into, on, actor, corr). build_reversal D U fresh original into on actor corr" reversal_ok for U
proof unfold_locales
  fix D :: decimal_ops and p fresh e
  assume D: "decimal_contract D" and p: "reversal_ok p"
    and e: "(case p of (original, into, on, actor, corr) \<Rightarrow> build_reversal D U fresh original into on actor corr) = Inr e"
  obtain original into on actor corr where q: "p = (original, into, on, actor, corr)" by (cases p) auto
  from build_reversal_run [OF D, of original U fresh into on actor corr] p e
  show "entry_balanced e" "length (lines e) \<le> 2 ^ 64" by (auto simp: q reversal_ok_def)
qed

section \<open>The governed magnitude\<close>

definition debit_total :: "string \<Rightarrow> line_view list \<Rightarrow> rat" where
  "debit_total header ls =
     (\<Sum>l\<leftarrow>ls. if lv_side l = Debit \<and> code (currency (lv_money l)) = header then mval (lv_money l) else 0)"

text \<open>In a balanced entry the governed amount is what the debits carry, which is what the credits carry.\<close>

lemma governed_amount_Inr:
  assumes D: "decimal_contract D" and b: "balanced_lines (ev_entry_currency original) (map view_facts (ev_lines original))"
    and scale: "\<forall>l\<in>set (ev_lines original). posting_ok (lv_money l)" and len: "length (ev_lines original) \<le> 2 ^ 64"
    and m: "reverse_governed_amount D original = Inr (Some m)"
  shows "mval m = debit_total (ev_entry_currency original) (ev_lines original)"
    and "code (currency m) = ev_entry_currency original"
proof -
  let ?h = "ev_entry_currency original"
  let ?P = "\<lambda>l. lv_side l = Debit \<and> \<not> foreign_functional_only D ?h (lv_money l) (lv_functional_money l)"
  let ?ds = "filter ?P (ev_lines original)"
  have own: "code (currency (lv_money l)) = ?h" if "l \<in> set ?ds" for l
    using that balanced_line_code [OF b, of l] by (auto simp: foreign_value [OF D])
  have same: "?P l \<longleftrightarrow> lv_side l = Debit \<and> code (currency (lv_money l)) = ?h" if "l \<in> set (ev_lines original)" for l
    using that balanced_line_code [OF b that] by (auto simp: foreign_value [OF D])
  obtain first rest where ds: "?ds = first # rest"
    using m by (cases ?ds) (auto simp: reverse_governed_amount_def Let_def)
  then have s: "sum_posted D (map lv_money ?ds) (currency (lv_money first)) = Inr m"
    using m by (auto simp: reverse_governed_amount_def Let_def)
  have fd: "first \<in> set ?ds" unfolding ds by simp
  then have sc: "cur_scale (currency (lv_money first)) \<le> 28" using scale by (auto simp: posting_ok_def)
  have "length (map lv_money ?ds) \<le> 2 ^ 64" using len le_trans [OF length_filter_le] by simp
  then have rep: "represents m (currency (lv_money first)) (\<Sum>v\<leftarrow>map lv_money ?ds. mval v)"
    using s sum_posted_Inr [OF D sc] by blast
  show "code (currency m) = ?h" using rep own [OF fd] by (simp add: represents_def)
  have "(\<Sum>l\<leftarrow>?ds. mval (lv_money l)) = (\<Sum>l\<leftarrow>ev_lines original. if ?P l then mval (lv_money l) else 0)"
    by (rule sum_list_map_filter')
  also have "\<dots> = debit_total ?h (ev_lines original)"
    unfolding debit_total_def using same by (intro arg_cong [of _ _ sum_list] map_cong refl) simp
  finally show "mval m = debit_total ?h (ev_lines original)" using rep by (simp add: represents_def o_def)
qed

lemma debits_are_credits:
  assumes "balanced_lines h (map view_facts ls)"
  shows "debit_total h ls = (\<Sum>l\<leftarrow>ls. if lv_side l = Credit \<and> code (currency (lv_money l)) = h then mval (lv_money l) else 0)"
proof -
  have "code_net (map view_facts ls) h = debit_total h ls -
      (\<Sum>l\<leftarrow>ls. if lv_side l = Credit \<and> code (currency (lv_money l)) = h then mval (lv_money l) else 0)"
    unfolding code_net_def debit_total_def
  proof (induction ls)
    case (Cons l ls)
    then show ?case by (cases "lv_side l") (simp_all add: line_net_def)
  qed simp
  then show ?thesis using assms by (simp add: balanced_lines_def)
qed

section \<open>The correction id\<close>

lemma hex_digits_distinct: "distinct (map hex_digit [0..<16])"
  by code_simp

lemma hex_digit_inj: "m < 16 \<Longrightarrow> n < 16 \<Longrightarrow> hex_digit m = hex_digit n \<Longrightarrow> m = n"
  using hex_digits_distinct by (auto simp: distinct_map inj_on_def)

lemma hex_text_inj:
  assumes "\<forall>b\<in>set bs. b < 256" "\<forall>b\<in>set cs. b < 256" "hex_text bs = hex_text cs"
  shows "bs = cs"
  using assms
proof (induction bs arbitrary: cs)
  case Nil
  then show ?case by (cases cs) simp_all
next
  case (Cons b bs)
  then obtain c ds where cs: "cs = c # ds" by (cases cs) auto
  have "b div 16 = c div 16" "b mod 16 = c mod 16"
    using Cons.prems hex_digit_inj [of "b div 16" "c div 16"] hex_digit_inj [of "b mod 16" "c mod 16"]
    by (simp_all add: cs less_mult_imp_div_less)
  then have "b = c" using div_mult_mod_eq [of b 16] div_mult_mod_eq [of c 16] by arith
  moreover have "bs = ds" using Cons.prems by (intro Cons.IH) (simp_all add: cs)
  ultimately show ?case by (simp add: cs)
qed

end
