(* ===== verification/Gates.thy ===== *)
theory Gates
  imports Journal Iso Reversal
begin

text \<open>
  The gates of the posting transaction (\<open>ledger/src/infra/posting\<close>): the idempotency claim, the tamper
  freeze, the fiscal period, the currency registry and the reuse of pinned evidence, each on the rows it
  reads.  A table is a map on its primary key, or the list of its rows where a query scans it.
\<close>

section \<open>Errors across the transaction\<close>

text \<open>
  \<open>error_transport.rs\<close>: inside a transaction a business rejection travels in an envelope of the database
  error type; every other database error is an infrastructure fault.
\<close>

datatype db_error = Business domain_error | Infra

fun repo_to_domain :: "repo_error \<Rightarrow> domain_error" where
  "repo_to_domain R_InvalidRequest = D_InvalidRequest"
| "repo_to_domain R_ApprovalPolicyOutOfRange = D_DualControlPolicyOutOfRange"
| "repo_to_domain R_Conflict = D_ConcurrentModification"
| "repo_to_domain R_DisputeNotOpen = D_InvalidDisputeTransition"
| "repo_to_domain R_RecognitionPolicyConflict = D_RecognitionPolicyConflict"
| "repo_to_domain (R_Money e) = map_money_error e"
| "repo_to_domain R_InvalidStoredMoney = D_Internal"
| "repo_to_domain R_CurrencyScaleLocked = D_CurrencyScaleLocked"
| "repo_to_domain R_ScaleOutOfRange = D_AmountOutOfRange"
| "repo_to_domain R_Db = D_Internal"
| "repo_to_domain R_RowVanished = D_Internal"
| "repo_to_domain R_MoneyOutCapExceeded = D_Internal"

definition repo_to_db :: "repo_error \<Rightarrow> db_error" where
  "repo_to_db e = Business (repo_to_domain e)"

fun project_to_db :: "project_error \<Rightarrow> db_error" where
  "project_to_db (P_Repo e) = repo_to_db e"
| "project_to_db P_Conflict = Business D_ConcurrentModification"
| "project_to_db (P_NegativeBalance a b) = Business D_NegativeBalance"
| "project_to_db (P_MissingNormalSide a) = Business D_AccountClosed"
| "project_to_db (P_MissingCreditEventType l) = Business D_Internal"
| "project_to_db P_Db = Infra"
| "project_to_db (P_Arithmetic e) = Infra"

section \<open>Idempotency\<close>

definition STATUS_CLAIMED :: string where
  "STATUS_CLAIMED = ''CLAIMED''"

definition STATUS_POSTED :: string where
  "STATUS_POSTED = ''POSTED''"

definition STATUS_QUEUED :: string where
  "STATUS_QUEUED = ''QUEUED''"

record dedup_row =
  dr_payload_hash :: string
  dr_result_entry_id :: "uuid option"
  dr_result_schedule_id :: "string option"
  dr_posted_at_utc :: "offset_date_time option"
  dr_status :: string
  dr_retain_until :: "offset_date_time option"

type_synonym dedup_key = "uuid \<times> string \<times> string"
type_synonym dedup_table = "dedup_key \<Rightarrow> dedup_row option"

datatype claim_outcome = Claimed | Replay dedup_row

text \<open>The insert does nothing on a conflict, and the row is then read back.\<close>

definition claim_with_status :: "string \<Rightarrow> dedup_key \<Rightarrow> string \<Rightarrow> dedup_table \<Rightarrow> claim_outcome \<times> dedup_table" where
  "claim_with_status seed_status k payload_hash t =
     (case t k of
        None \<Rightarrow>
          (Claimed, t(k \<mapsto> \<lparr>dr_payload_hash = payload_hash, dr_result_entry_id = None, dr_result_schedule_id = None,
             dr_posted_at_utc = None, dr_status = seed_status, dr_retain_until = None\<rparr>))
      | Some row \<Rightarrow> (Replay row, t))"

definition claim :: "dedup_key \<Rightarrow> string \<Rightarrow> dedup_table \<Rightarrow> claim_outcome \<times> dedup_table" where
  "claim = claim_with_status STATUS_CLAIMED"

definition claim_queued :: "dedup_key \<Rightarrow> string \<Rightarrow> dedup_table \<Rightarrow> claim_outcome \<times> dedup_table" where
  "claim_queued = claim_with_status STATUS_QUEUED"

definition finalize :: "offset_date_time \<Rightarrow> dedup_key \<Rightarrow> uuid \<Rightarrow> dedup_table \<Rightarrow> repo_error + dedup_table" where
  "finalize now k entry t =
     (case t k of
        None \<Rightarrow> Inl R_RowVanished
      | Some row \<Rightarrow>
          Inr (t(k \<mapsto> row\<lparr>dr_result_entry_id := Some entry, dr_posted_at_utc := Some now, dr_status := STATUS_POSTED\<rparr>)))"

text \<open>
  The payload hash: SHA-256 over the framed financial content, the lines in the order of their bytes.  The
  text of a date is an argument, as is the digest.
\<close>

definition PAYLOAD_DOMAIN_SEP :: bytes where
  "PAYLOAD_DOMAIN_SEP = ''VHP-BSS-LEDGER-PAYLOAD-v1'' @ [char_of (31 :: nat)]"

definition payload_line :: "decimal_ops \<Rightarrow> (naive_date \<Rightarrow> string) \<Rightarrow> new_line \<Rightarrow> bytes" where
  "payload_line D date_text l =
     put_uuid (account_id l) @ put_str (account_class_as_str (account_class l)) @ put_money D (money l) @
     put_str (side_as_str (side l)) @ put_uuid (payer_tenant_id l) @ put_opt_uuid (seller_tenant_id l) @
     put_opt_str (invoice_id l) @ put_opt_str (map_option date_text (due_date l)) @ put_opt_str (revenue_stream l) @
     put_opt_money D (functional_money l) @ put_opt_str (tax_jurisdiction l) @ put_opt_str (tax_filing_period l) @
     put_opt_str (credit_grant_event_type l) @ put_opt_str (ar_status l)"

definition payload_header :: "(naive_date \<Rightarrow> string) \<Rightarrow> new_entry \<Rightarrow> bytes" where
  "payload_header date_text e =
     put_str (source_doc_type_as_str (ne_source_doc_type e)) @ put_str (ne_source_business_id e) @
     put_str (ne_entry_currency e) @ put_str (date_text (ne_effective_at e)) @ put_str (ne_period_id e)"

definition payload_buffer :: "decimal_ops \<Rightarrow> (naive_date \<Rightarrow> string) \<Rightarrow> new_entry \<Rightarrow> new_line list \<Rightarrow> bytes" where
  "payload_buffer D date_text e ls =
     (let keys = sort (map (payload_line D date_text) ls)
      in PAYLOAD_DOMAIN_SEP @ payload_header date_text e @ put (be_bytes 8 (length keys)) @ concat (map put keys))"

definition digest32_hex :: "(bytes \<Rightarrow> bytes) \<Rightarrow> bytes \<Rightarrow> string" where
  "digest32_hex H b = hex_text (map of_char (H b))"

definition payload_hash ::
  "decimal_ops \<Rightarrow> (bytes \<Rightarrow> bytes) \<Rightarrow> (naive_date \<Rightarrow> string) \<Rightarrow> new_entry \<Rightarrow> new_line list \<Rightarrow> string" where
  "payload_hash D H date_text e ls = digest32_hex H (payload_buffer D date_text e ls)"

section \<open>Tamper freeze\<close>

definition PERIOD_ALL :: string where
  "PERIOD_ALL = ''ALL''"

record freeze_row =
  fz_tenant_id :: uuid
  fz_scope :: string
  fz_period_id :: string
  fz_reason :: string
  fz_frozen_at :: offset_date_time
  fz_set_by :: string
  fz_cleared_by :: "string option"
  fz_cleared_at :: "offset_date_time option"

definition freeze_key :: "freeze_row \<Rightarrow> uuid \<times> string \<times> string" where
  "freeze_key r = (fz_tenant_id r, fz_scope r, fz_period_id r)"

definition active_freeze :: "freeze_row list \<Rightarrow> uuid \<Rightarrow> string \<Rightarrow> bool" where
  "active_freeze rows tenant period \<longleftrightarrow>
     list_ex (\<lambda>r. fz_tenant_id r = tenant \<and> fz_cleared_at r = None \<and> fz_period_id r \<in> {PERIOD_ALL, period}) rows"

text \<open>An insert that does nothing when the key exists; whether a row was inserted.\<close>

definition freeze_set ::
  "offset_date_time \<Rightarrow> uuid \<Rightarrow> string \<Rightarrow> string \<Rightarrow> string \<Rightarrow> string \<Rightarrow> freeze_row list \<Rightarrow> bool \<times> freeze_row list" where
  "freeze_set now tenant scope_kind period reason set_by rows =
     (if (tenant, scope_kind, period) \<in> freeze_key ` set rows then (False, rows)
      else (True, rows @ [\<lparr>fz_tenant_id = tenant, fz_scope = scope_kind, fz_period_id = period, fz_reason = reason,
             fz_frozen_at = now, fz_set_by = set_by, fz_cleared_by = None, fz_cleared_at = None\<rparr>]))"

definition freeze_clear ::
  "offset_date_time \<Rightarrow> uuid \<Rightarrow> string \<Rightarrow> string \<Rightarrow> string \<Rightarrow> freeze_row list \<Rightarrow> freeze_row list" where
  "freeze_clear now tenant scope_kind period cleared_by =
     map (\<lambda>r. if freeze_key r = (tenant, scope_kind, period) \<and> fz_cleared_at r = None
              then r\<lparr>fz_cleared_at := Some now, fz_cleared_by := Some cleared_by\<rparr> else r)"

definition freeze_check :: "freeze_row list \<Rightarrow> uuid \<Rightarrow> string \<Rightarrow> db_error + unit" where
  "freeze_check rows tenant period =
     (if active_freeze rows tenant period then Inl (Business D_TamperVerificationFailed) else Inr ())"

section \<open>Fiscal period and currency registry\<close>

type_synonym period_table = "uuid \<times> uuid \<times> string \<Rightarrow> string option"

text \<open>\<open>pin_open\<close> with the mapping of its error in \<open>post_in_txn\<close>.\<close>

definition pin_open :: "period_table \<Rightarrow> uuid \<Rightarrow> uuid \<Rightarrow> string \<Rightarrow> db_error + unit" where
  "pin_open t tenant legal_entity period =
     (if t (tenant, legal_entity, period) = Some PERIOD_STATUS_OPEN then Inr () else Inl (Business D_PeriodClosed))"

type_synonym scale_table = "uuid \<times> string \<Rightarrow> int option"

text \<open>\<open>CurrencyScaleResolver::resolve_in\<close>: the ISO table first, then the registry row.\<close>

definition resolve_scale :: "scale_table \<Rightarrow> uuid \<Rightarrow> string \<Rightarrow> domain_error + nat" where
  "resolve_scale t tenant cur =
     (case iso_scale cur of
        Some s \<Rightarrow> Inr s
      | None \<Rightarrow>
          (case t (tenant, cur) of
             None \<Rightarrow> Inl D_InvalidRequest
           | Some n \<Rightarrow> rbind (map_err repo_to_domain (decode_currency cur n)) (\<lambda>spec. Inr (cur_scale spec))))"

definition line_moneys :: "new_line \<Rightarrow> posted_money list" where
  "line_moneys l = money l # (case functional_money l of Some f \<Rightarrow> [f] | None \<Rightarrow> [])"

text \<open>The memo of the source returns what the resolver returned for the same code.\<close>

definition check_scale :: "scale_table \<Rightarrow> uuid \<Rightarrow> posted_money \<Rightarrow> db_error + unit" where
  "check_scale t tenant m =
     rbind (map_err Business (resolve_scale t tenant (code (currency m)))) (\<lambda>s.
       if s \<noteq> cur_scale (currency m) then Inl (Business D_InconsistentScale) else Inr ())"

definition check_scales :: "scale_table \<Rightarrow> uuid \<Rightarrow> new_line list \<Rightarrow> db_error + unit" where
  "check_scales t tenant ls = each_result (check_scale t tenant) (concat (map line_moneys ls))"

section \<open>Evidence reuse\<close>

text \<open>\<open>ledger/src/infra/policy_version.rs\<close>\<close>

type_synonym evidence_tuple = "string option \<times> string option \<times> string option \<times> string option \<times> string option"

definition is_all_null :: "evidence_tuple \<Rightarrow> bool" where
  "is_all_null t \<longleftrightarrow> t = (None, None, None, None, None)"

definition first_unreused_tuple :: "evidence_tuple list \<Rightarrow> evidence_tuple list \<Rightarrow> evidence_tuple option" where
  "first_unreused_tuple original correction =
     (let original_set = filter (\<lambda>t. \<not> is_all_null t) original
      in find (\<lambda>t. \<not> is_all_null t \<and> t \<notin> set original_set) correction)"

definition line_tuple :: "new_line \<Rightarrow> evidence_tuple" where
  "line_tuple l = (pricing_snapshot_ref l, po_allocation_group l, price_id l, sku_or_plan_ref l, invoice_item_ref l)"

definition row_tuple :: "line_row \<Rightarrow> evidence_tuple" where
  "row_tuple r =
     (jl_pricing_snapshot_ref r, jl_po_allocation_group r, jl_price_id r, jl_sku_or_plan_ref r, jl_invoice_item_ref r)"

definition policy_check :: "journal \<Rightarrow> new_entry \<Rightarrow> new_line list \<Rightarrow> db_error + unit" where
  "policy_check j e ls =
     (case ne_reverses_entry_id e of
        None \<Rightarrow> Inr ()
      | Some original \<Rightarrow>
          let rows = filter (\<lambda>r. jl_tenant_id r = ne_tenant_id e \<and> jl_entry_id r = original \<and>
                       (case ne_reverses_period_id e of Some p \<Rightarrow> jl_period_id r = p | None \<Rightarrow> True)) (j_lines j)
          in if rows = [] then Inl Infra
             else (case first_unreused_tuple (map row_tuple rows) (map line_tuple ls) of
                     Some _ \<Rightarrow> Inl (Business D_PolicyVersionViolation)
                   | None \<Rightarrow> Inr ()))"

end
