(* ===== verification/Engine.thy ===== *)
theory Engine
  imports Gates
begin

text \<open>
  \<open>ledger/src/infra/posting/service.rs\<close>: one posting attempt as a function on the database.  An error
  leaves no new database, as the transaction rolls back.  The attempt runs against one state: the source
  runs it in a serializable transaction.  The chain step is that of \<open>chain.rs\<close> and \<open>chain_state_repo.rs\<close>.
  A sidecar is an argument: it reads and writes the counter tables, which the model keeps as one component
  \<open>db_counters\<close> of an arbitrary type, and it may claim idempotency keys of its own, as the schedule builder
  of \<open>recognition/sidecar.rs\<close> does.  Publishing an event only logs in this version and is left out.
\<close>

section \<open>State\<close>

record account_record =
  ar_normal_side :: string
  ar_lifecycle_state :: string

record tip_row =
  last_row_hash :: bytes
  last_entry_id :: uuid
  last_period_id :: string
  last_seq :: int

type_synonym tip_table = "uuid \<Rightarrow> tip_row option"

record 'x ledger_db =
  db_locks :: "uuid \<Rightarrow> bool option"
  db_accounts :: "uuid \<Rightarrow> account_record option"
  db_registry :: scale_table
  db_dedup :: dedup_table
  db_freezes :: "freeze_row list"
  db_periods :: period_table
  db_journal :: journal
  db_caches :: balance_caches
  db_tips :: tip_table
  db_counters :: 'x

record posted_facts =
  pf_entry_id :: uuid
  pf_created_seq :: int

text \<open>A run of a sidecar sees the claims and the counters; it returns the claims it makes, in order, and the new counters.\<close>

record 'x post_sidecar =
  sc_check_before_projection :: "'x \<Rightarrow> domain_error + unit"
  sc_run_before_projection :: bool
  sc_run :: "posted_facts \<Rightarrow> dedup_table \<Rightarrow> 'x \<Rightarrow> domain_error + (dedup_key \<times> string) list \<times> 'x"

datatype claim_mode = Fresh | QueuedApply

record claim_spec =
  cs_mode :: claim_mode
  cs_payload_hash_override :: "string option"

datatype money_origin = Current | StoredReversal

datatype post_outcome = Posted uuid int | ReplayOf uuid

record posting_ref =
  pr_entry_id :: uuid
  pr_created_seq :: int
  pr_replayed :: bool

text \<open>What an attempt takes from outside: the digest, the text of a date, the clock, and the
  sequence number and line ids it is given.\<close>

record engine_env =
  ee_digest :: "bytes \<Rightarrow> bytes"
  ee_date_text :: "naive_date \<Rightarrow> string"
  ee_now :: offset_date_time
  ee_seq :: int
  ee_fresh :: "nat \<Rightarrow> uuid"

section \<open>Steps\<close>

definition dedup_key_of :: "new_entry \<Rightarrow> dedup_key" where
  "dedup_key_of e = (ne_tenant_id e, source_doc_type_as_str (ne_source_doc_type e), ne_source_business_id e)"

text \<open>The gate of step 1: the entry to replay, or the table with the claim to go on with.\<close>

definition idempotency_gate ::
  "decimal_ops \<Rightarrow> engine_env \<Rightarrow> claim_spec \<Rightarrow> new_entry \<Rightarrow> new_line list \<Rightarrow> dedup_table
   \<Rightarrow> db_error + uuid option \<times> dedup_table" where
  "idempotency_gate D env spec e ls t =
     (case cs_mode spec of
        Fresh \<Rightarrow>
          let hash = (case cs_payload_hash_override spec of
                        Some h \<Rightarrow> h | None \<Rightarrow> payload_hash D (ee_digest env) (ee_date_text env) e ls)
          in (case claim (dedup_key_of e) hash t of
                (Replay row, t') \<Rightarrow>
                  if dr_payload_hash row \<noteq> hash then Inl (Business D_IdempotencyConflict)
                  else (case dr_result_entry_id row of
                          Some entry \<Rightarrow> if dr_status row = STATUS_POSTED then Inr (Some entry, t') else Inl Infra
                        | None \<Rightarrow> Inl Infra)
              | (Claimed, t') \<Rightarrow> Inr (None, t'))
      | QueuedApply \<Rightarrow>
          (case t (dedup_key_of e) of
             None \<Rightarrow> Inl Infra
           | Some row \<Rightarrow>
               (case dr_result_entry_id row of
                  Some entry \<Rightarrow>
                    if dr_status row = STATUS_POSTED then Inr (Some entry, t)
                    else if dr_status row = STATUS_QUEUED then Inr (None, t) else Inl Infra
                | None \<Rightarrow> if dr_status row = STATUS_QUEUED then Inr (None, t) else Inl Infra)))"

definition load_normal_side :: "(uuid \<Rightarrow> account_record option) \<Rightarrow> uuid \<Rightarrow> db_error + side" where
  "load_normal_side accounts a =
     (case accounts a of
        None \<Rightarrow> Inl (Business D_AccountClosed)
      | Some r \<Rightarrow>
          if ar_lifecycle_state r \<noteq> LIFECYCLE_OPEN then Inl (Business D_AccountClosed)
          else if ar_normal_side r = ''DR'' then Inr Debit
          else if ar_normal_side r = ''CR'' then Inr Credit
          else Inl Infra)"

fun load_normal_sides ::
  "(uuid \<Rightarrow> account_record option) \<Rightarrow> new_line list \<Rightarrow> (uuid \<times> side) list \<Rightarrow> db_error + (uuid \<times> side) list" where
  "load_normal_sides accounts [] sides = Inr sides"
| "load_normal_sides accounts (l # ls) sides =
     (if map_of sides (account_id l) \<noteq> None then load_normal_sides accounts ls sides
      else rbind (load_normal_side accounts (account_id l)) (\<lambda>sd.
             load_normal_sides accounts ls (AList.update (account_id l) sd sides)))"

definition seal_row :: "uuid \<times> string \<times> uuid \<Rightarrow> bytes \<Rightarrow> bytes \<Rightarrow> tip_row option \<Rightarrow> entry_row \<Rightarrow> entry_row" where
  "seal_row k row_hash prev_hash tip r =
     (if entry_key r = k \<and> je_row_hash r = None
      then r\<lparr>je_row_hash := Some row_hash, je_prev_hash := Some prev_hash,
             je_prev_entry_id := map_option last_entry_id tip, je_prev_period_id := map_option last_period_id tip\<rparr>
      else r)"

definition seal ::
  "decimal_ops \<Rightarrow> (bytes \<Rightarrow> bytes) \<Rightarrow> new_entry \<Rightarrow> new_line list \<Rightarrow> int \<Rightarrow> journal \<Rightarrow> tip_table
   \<Rightarrow> db_error + journal \<times> tip_table" where
  "seal D H e ls seq j tips =
     (let tip = tips (ne_tenant_id e); k = (ne_tenant_id e, ne_period_id e, ne_entry_id e)
      in rbind (case tip of
                  Some t \<Rightarrow> if length (last_row_hash t) = 32 then Inr (last_row_hash t) else Inl Infra
                | None \<Rightarrow> Inr (genesis_prev_hash H (ne_tenant_id e))) (\<lambda>prev_hash.
         let row_hash = chain_row_hash D H e ls prev_hash;
             hits = filter (\<lambda>r. entry_key r = k \<and> je_row_hash r = None) (j_entries j)
         in if length hits \<noteq> 1 then Inl Infra
            else Inr (j\<lparr>j_entries := map (seal_row k row_hash prev_hash tip) (j_entries j)\<rparr>,
                      tips(ne_tenant_id e \<mapsto> \<lparr>last_row_hash = row_hash, last_entry_id = ne_entry_id e,
                        last_period_id = ne_period_id e, last_seq = seq\<rparr>))))"

fun run_claims :: "(dedup_key \<times> string) list \<Rightarrow> dedup_table \<Rightarrow> dedup_table" where
  "run_claims [] t = t"
| "run_claims ((k, hash) # cs) t = run_claims cs (snd (claim k hash t))"

definition run_sidecar ::
  "'x post_sidecar option \<Rightarrow> bool \<Rightarrow> posted_facts \<Rightarrow> dedup_table \<Rightarrow> 'x \<Rightarrow> db_error + dedup_table \<times> 'x" where
  "run_sidecar sc before facts t x =
     (case sc of
        Some s \<Rightarrow>
          if sc_run_before_projection s = before
          then rbind (map_err Business (sc_run s facts t x)) (\<lambda>(cs, y). Inr (run_claims cs t, y))
          else Inr (t, x)
      | None \<Rightarrow> Inr (t, x))"

definition check_sidecar_state :: "'x post_sidecar option \<Rightarrow> 'x \<Rightarrow> db_error + unit" where
  "check_sidecar_state sc x =
     (case sc of Some s \<Rightarrow> map_err Business (sc_check_before_projection s x) | None \<Rightarrow> Inr ())"

section \<open>One attempt\<close>

text \<open>The gates between the claim and the first write of the journal, none of which writes.\<close>

definition posting_gates ::
  "money_origin \<Rightarrow> 'x post_sidecar option \<Rightarrow> new_entry \<Rightarrow> new_line list \<Rightarrow> 'x ledger_db \<Rightarrow> db_error + unit" where
  "posting_gates origin sc e ls db =
     rbind (if origin = Current then check_scales (db_registry db) (ne_tenant_id e) ls else Inr ()) (\<lambda>_.
     rbind (freeze_check (db_freezes db) (ne_tenant_id e) (ne_period_id e)) (\<lambda>_.
     rbind (pin_open (db_periods db) (ne_tenant_id e) (ne_legal_entity_id e) (ne_period_id e)) (\<lambda>_.
     rbind (policy_check (db_journal db) e ls) (\<lambda>_.
       check_sidecar_state sc (db_counters db)))))"

definition posting_writes ::
  "decimal_ops \<Rightarrow> engine_env \<Rightarrow> (uuid \<times> side) list \<Rightarrow> 'x post_sidecar option \<Rightarrow> new_entry \<Rightarrow> new_line list
   \<Rightarrow> 'x ledger_db \<Rightarrow> db_error + 'x ledger_db" where
  "posting_writes D env sides sc e ls db =
     (let seq = ee_seq env; facts = \<lparr>pf_entry_id = ne_entry_id e, pf_created_seq = seq\<rparr>
      in rbind (map_err repo_to_db (insert_entry_with_lines D seq e ls (db_journal db))) (\<lambda>j.
         rbind (run_sidecar sc True facts (db_dedup db) (db_counters db)) (\<lambda>(t, x).
         rbind (map_err project_to_db (project D e ls sides seq (db_caches db))) (\<lambda>caches.
         rbind (run_sidecar sc False facts t x) (\<lambda>(u, y).
         rbind (seal D (ee_digest env) e ls seq j (db_tips db)) (\<lambda>(j', tips).
         rbind (map_err repo_to_db (finalize (ee_now env) (dedup_key_of e) (ne_entry_id e) u)) (\<lambda>dedup.
           Inr (db\<lparr>db_dedup := dedup, db_journal := j', db_caches := caches, db_tips := tips, db_counters := y\<rparr>))))))))"

definition post_in_txn ::
  "decimal_ops \<Rightarrow> engine_env \<Rightarrow> (uuid \<times> side) list \<Rightarrow> 'x post_sidecar option \<Rightarrow> claim_spec \<Rightarrow> money_origin
   \<Rightarrow> new_entry \<Rightarrow> new_line list \<Rightarrow> 'x ledger_db \<Rightarrow> db_error + post_outcome \<times> 'x ledger_db" where
  "post_in_txn D env sides sc spec origin e ls db =
     rbind (idempotency_gate D env spec e ls (db_dedup db)) (\<lambda>(replay, dedup).
       case replay of
         Some entry \<Rightarrow> Inr (ReplayOf entry, db\<lparr>db_dedup := dedup\<rparr>)
       | None \<Rightarrow>
           let db' = db\<lparr>db_dedup := dedup\<rparr>
           in rbind (posting_gates origin sc e ls db') (\<lambda>_.
              rbind (posting_writes D env sides sc e ls db') (\<lambda>db''.
                Inr (Posted (ne_entry_id e) (ee_seq env), db''))))"

fun reference_of :: "post_outcome \<Rightarrow> posting_ref" where
  "reference_of (Posted entry seq) = \<lparr>pr_entry_id = entry, pr_created_seq = seq, pr_replayed = False\<rparr>"
| "reference_of (ReplayOf entry) = \<lparr>pr_entry_id = entry, pr_created_seq = 0, pr_replayed = True\<rparr>"

definition is_tenant_posting_locked :: "'x ledger_db \<Rightarrow> uuid \<Rightarrow> domain_error + bool" where
  "is_tenant_posting_locked db tenant = Inr (db_locks db tenant = Some True)"

text \<open>The part shared by \<open>post_once\<close> and \<open>post_reversal_once\<close>.\<close>

definition attempt_post ::
  "decimal_ops \<Rightarrow> engine_env \<Rightarrow> 'x post_sidecar option \<Rightarrow> claim_spec \<Rightarrow> money_origin \<Rightarrow> new_entry \<Rightarrow> new_line list
   \<Rightarrow> 'x ledger_db \<Rightarrow> db_error + posting_ref \<times> 'x ledger_db" where
  "attempt_post D env sc spec origin e ls db =
     rbind (map_err Business (prepare_attempt D (is_tenant_posting_locked db (ne_tenant_id e)) (ee_now env)
              (ne_posted_at_utc e) (ne_entry_currency e) ls)) (\<lambda>_.
     rbind (load_normal_sides (db_accounts db) ls []) (\<lambda>sides.
     rbind (post_in_txn D env sides sc spec origin e ls db) (\<lambda>(outcome, db').
       Inr (reference_of outcome, db'))))"

definition post_once ::
  "decimal_ops \<Rightarrow> engine_env \<Rightarrow> 'x post_sidecar option \<Rightarrow> claim_spec \<Rightarrow> new_entry \<Rightarrow> new_line list
   \<Rightarrow> 'x ledger_db \<Rightarrow> db_error + posting_ref \<times> 'x ledger_db" where
  "post_once D env sc spec e ls db =
     (if ne_source_doc_type e = Reversal then Inl (Business D_InvalidRequest)
      else attempt_post D env sc spec Current e ls db)"

fun flip_journal_lines :: "(nat \<Rightarrow> uuid) \<Rightarrow> nat \<Rightarrow> new_line list \<Rightarrow> new_line list" where
  "flip_journal_lines fresh n [] = []"
| "flip_journal_lines fresh n (l # ls) = l\<lparr>line_id := fresh n, side := flip (side l)\<rparr> # flip_journal_lines fresh (Suc n) ls"

definition post_reversal_once ::
  "decimal_ops \<Rightarrow> engine_env \<Rightarrow> 'x post_sidecar option \<Rightarrow> claim_spec \<Rightarrow> new_entry
   \<Rightarrow> 'x ledger_db \<Rightarrow> db_error + posting_ref \<times> 'x ledger_db" where
  "post_reversal_once D env sc spec e db =
     rbind (ok_or (Business D_InvalidRequest) (ne_reverses_entry_id e)) (\<lambda>original.
     rbind (ok_or (Business D_InvalidRequest) (ne_reverses_period_id e)) (\<lambda>period.
     rbind (map_err repo_to_db (read_lines_to_reverse D (db_journal db) (ne_tenant_id e) original period)) (\<lambda>(snapshot, ls).
       if ls = [] then Inl (Business D_InvalidRequest)
       else attempt_post D env sc spec StoredReversal (e\<lparr>ne_rate_snapshot_ref := snapshot\<rparr>)
              (flip_journal_lines (ee_fresh env) 0 ls) db)))"

end
