(* ===== verification/Verifier.thy ===== *)
theory Verifier
  imports Engine
begin

text \<open>
  \<open>ledger/src/infra/jobs/verifier.rs\<close>: the walk over the hash chain of a tenant, from the tip back to the
  first entry.  A clean walk is followed by a count of the sealed entries, which a concurrent posting may
  change; the count and the second read of the tip are therefore made on a later state.
\<close>

section \<open>The walk\<close>

datatype break_kind = RowHashMismatch | BrokenBackLink | GenesisMismatch | CorruptRow | Cycle | OrphanBranch

record chain_break =
  cb_entry_id :: uuid
  cb_period_id :: string
  cb_kind :: break_kind

type_synonym walk_key = "uuid \<times> string"

text \<open>The header and lines as the posting engine hashed them; \<open>None\<close> for a row that no longer decodes.\<close>

definition reconstruct :: "decimal_ops \<Rightarrow> entry_row \<Rightarrow> line_row list \<Rightarrow> (new_entry \<times> new_line list) option" where
  "reconstruct D header rows =
     (case source_doc_type_from_str (je_source_doc_type header) of
        Inl _ \<Rightarrow> None
      | Inr doc \<Rightarrow>
          let entry = \<lparr>ne_entry_id = je_entry_id header, ne_tenant_id = je_tenant_id header,
                ne_legal_entity_id = je_legal_entity_id header, ne_period_id = je_period_id header,
                ne_entry_currency = je_entry_currency header, ne_source_doc_type = doc,
                ne_source_business_id = je_source_business_id header, ne_reverses_entry_id = je_reverses_entry_id header,
                ne_reverses_period_id = je_reverses_period_id header, ne_posted_at_utc = je_posted_at_utc header,
                ne_effective_at = je_effective_at header, ne_origin = je_origin header,
                ne_posted_by_actor_id = je_posted_by_actor_id header, ne_correlation_id = je_correlation_id header,
                ne_rate_snapshot_ref = None\<rparr>
          in (case map_result (decode_line D) rows of Inr ls \<Rightarrow> Some (entry, ls) | Inl _ \<Rightarrow> None))"

definition find_header :: "journal \<Rightarrow> uuid \<Rightarrow> walk_key \<Rightarrow> entry_row option" where
  "find_header j tenant k =
     find (\<lambda>r. je_entry_id r = fst k \<and> je_tenant_id r = tenant \<and> je_period_id r = snd k) (j_entries j)"

text \<open>The step to the parent; an entry without one must link to the seed of the tenant.\<close>

definition parent_of :: "(bytes \<Rightarrow> bytes) \<Rightarrow> uuid \<Rightarrow> entry_row \<Rightarrow> bytes \<Rightarrow> break_kind + walk_key option \<times> bytes" where
  "parent_of H tenant header prev_hash =
     (case (je_prev_entry_id header, je_prev_period_id header) of
        (Some parent, Some period) \<Rightarrow> Inr (Some (parent, period), prev_hash)
      | (None, None) \<Rightarrow>
          if prev_hash \<noteq> genesis_prev_hash H tenant then Inl GenesisMismatch else Inr (None, prev_hash)
      | _ \<Rightarrow> Inl CorruptRow)"

text \<open>What one round of the loop finds: a break, or the parent with the hash it must have.\<close>

definition check_entry ::
  "decimal_ops \<Rightarrow> (bytes \<Rightarrow> bytes) \<Rightarrow> journal \<Rightarrow> uuid \<Rightarrow> walk_key \<Rightarrow> bytes option \<Rightarrow> break_kind + walk_key option \<times> bytes" where
  "check_entry D H j tenant k child_link =
     rbind (ok_or CorruptRow (find_header j tenant k)) (\<lambda>header.
     rbind (ok_or CorruptRow (je_row_hash header)) (\<lambda>row_hash.
     rbind (ok_or CorruptRow (je_prev_hash header)) (\<lambda>prev_hash.
       if length prev_hash \<noteq> 32 then Inl CorruptRow
       else rbind (ok_or CorruptRow (reconstruct D header (entry_lines j tenant (snd k) (fst k)))) (\<lambda>(e, ls).
         if chain_row_hash D H e ls prev_hash \<noteq> row_hash then Inl RowHashMismatch
         else if child_link \<noteq> None \<and> child_link \<noteq> Some row_hash then Inl BrokenBackLink
         else parent_of H tenant header prev_hash))))"

lemma check_entry_eq_Inr:
  "check_entry D H j tenant k link = Inr y \<longleftrightarrow>
     (\<exists>header row_hash prev_hash e ls.
        find_header j tenant k = Some header \<and> je_row_hash header = Some row_hash \<and> je_prev_hash header = Some prev_hash \<and>
        length prev_hash = 32 \<and> reconstruct D header (entry_lines j tenant (snd k) (fst k)) = Some (e, ls) \<and>
        chain_row_hash D H e ls prev_hash = row_hash \<and> (link = None \<or> link = Some row_hash) \<and> parent_of H tenant header prev_hash = Inr y)"
  (is "?run \<longleftrightarrow> ?facts")
proof
  show "?run \<Longrightarrow> ?facts" unfolding check_entry_def rbind_eq_Inr ok_or_eq_Inr by (auto split: if_splits)
  show "?facts \<Longrightarrow> ?run" by (elim exE conjE) (simp only: check_entry_def ok_or_simps rbind_simps if_False simp_thms prod.case, auto)
qed

definition walk_keys :: "journal \<Rightarrow> walk_key set" where
  "walk_keys j = (\<lambda>r. (je_entry_id r, je_period_id r)) ` set (j_entries j)"

lemma check_entry_key: "check_entry D H j tenant k link = Inr y \<Longrightarrow> k \<in> walk_keys j"
  by (cases k) (force simp: check_entry_eq_Inr find_header_def walk_keys_def find_Some_iff)

text \<open>The keys visited, newest last, and the first break.  An entry met twice is a break, so the walk ends.\<close>

function verify_walk ::
  "decimal_ops \<Rightarrow> (bytes \<Rightarrow> bytes) \<Rightarrow> journal \<Rightarrow> uuid \<Rightarrow> walk_key option \<Rightarrow> bytes option \<Rightarrow> walk_key list
   \<Rightarrow> walk_key list \<times> chain_break option" where
  "verify_walk D H j tenant None link seen = (seen, None)"
| "verify_walk D H j tenant (Some k) link seen =
     (if k \<in> set seen then (seen, Some \<lparr>cb_entry_id = fst k, cb_period_id = snd k, cb_kind = Cycle\<rparr>)
      else (case check_entry D H j tenant k link of
              Inl kind \<Rightarrow> (k # seen, Some \<lparr>cb_entry_id = fst k, cb_period_id = snd k, cb_kind = kind\<rparr>)
            | Inr (parent, prev_hash) \<Rightarrow> verify_walk D H j tenant parent (Some prev_hash) (k # seen)))"
  by pat_completeness auto

termination
proof (relation "measure (\<lambda>(D, H, j, tenant, cursor, link, seen). card (walk_keys j - set seen))")
  fix D H j tenant k link seen y parent prev_hash
  assume "k \<notin> set seen" "check_entry D H j tenant k link = Inr y"
  then have "k \<in> walk_keys j - set seen" using check_entry_key by blast
  moreover have "finite (walk_keys j)" by (simp add: walk_keys_def)
  ultimately have "card (walk_keys j - set seen - {k}) < card (walk_keys j - set seen)" by (meson card_Diff1_less finite_Diff)
  moreover have "walk_keys j - set (k # seen) = walk_keys j - set seen - {k}" by auto
  ultimately show "((D, H, j, tenant, parent, Some prev_hash, k # seen), (D, H, j, tenant, Some k, link, seen)) \<in>
      measure (\<lambda>(D, H, j, tenant, cursor, link, seen). card (walk_keys j - set seen))"
    by (simp only: measure_def inv_image_def mem_Collect_eq case_prod_conv less_than_iff in_inv_image)
qed simp

section \<open>One tenant\<close>

definition tip_cursor :: "tip_row \<Rightarrow> walk_key" where
  "tip_cursor tip = (last_entry_id tip, last_period_id tip)"

definition sealed_count :: "journal \<Rightarrow> uuid \<Rightarrow> nat" where
  "sealed_count j tenant = length (filter (\<lambda>r. je_tenant_id r = tenant \<and> je_row_hash r \<noteq> None) (j_entries j))"

definition verify_tenant ::
  "decimal_ops \<Rightarrow> (bytes \<Rightarrow> bytes) \<Rightarrow> 'x ledger_db \<Rightarrow> 'x ledger_db \<Rightarrow> uuid \<Rightarrow> nat \<times> chain_break option" where
  "verify_tenant D H db later tenant =
     (case db_tips db tenant of
        None \<Rightarrow> (0, None)
      | Some tip \<Rightarrow>
          let (seen, found) = verify_walk D H (db_journal db) tenant (Some (tip_cursor tip)) None [];
              advanced = (case db_tips later tenant of
                            None \<Rightarrow> True
                          | Some t \<Rightarrow> last_seq t \<noteq> last_seq tip \<or> last_entry_id t \<noteq> last_entry_id tip)
          in if found = None \<and> sealed_count (db_journal later) tenant \<noteq> length seen \<and> \<not> advanced
             then (length seen, Some \<lparr>cb_entry_id = last_entry_id tip, cb_period_id = last_period_id tip, cb_kind = OrphanBranch\<rparr>)
             else (length seen, found))"

section \<open>The freeze\<close>

definition SCOPE_KIND_TENANT :: string where
  "SCOPE_KIND_TENANT = ''tenant''"

definition SET_BY_VERIFIER :: string where
  "SET_BY_VERIFIER = ''Verifier''"

definition FREEZE_ATTEMPTS :: nat where
  "FREEZE_ATTEMPTS = 3"

definition freeze_tenant :: "offset_date_time \<Rightarrow> string \<Rightarrow> uuid \<Rightarrow> 'x ledger_db \<Rightarrow> 'x ledger_db" where
  "freeze_tenant now reason tenant db =
     db\<lparr>db_freezes := snd (freeze_set now tenant SCOPE_KIND_TENANT PERIOD_ALL reason SET_BY_VERIFIER (db_freezes db))\<rparr>"

text \<open>
  The freeze is written in a transaction of its own, tried up to three times; \<open>commits\<close> says which attempt the
  database accepts.  An attempt that fails rolls back.  The answer is whether the freeze was committed.
\<close>

fun try_freeze_from ::
  "offset_date_time \<Rightarrow> string \<Rightarrow> uuid \<Rightarrow> (nat \<Rightarrow> bool) \<Rightarrow> nat \<Rightarrow> nat \<Rightarrow> 'x ledger_db \<Rightarrow> bool \<times> 'x ledger_db" where
  "try_freeze_from now reason tenant commits attempt 0 db = (False, db)"
| "try_freeze_from now reason tenant commits attempt (Suc left) db =
     (if commits attempt then (True, freeze_tenant now reason tenant db)
      else try_freeze_from now reason tenant commits (Suc attempt) left db)"

definition try_freeze_with_retry ::
  "offset_date_time \<Rightarrow> string \<Rightarrow> uuid \<Rightarrow> (nat \<Rightarrow> bool) \<Rightarrow> 'x ledger_db \<Rightarrow> bool \<times> 'x ledger_db" where
  "try_freeze_with_retry now reason tenant commits = try_freeze_from now reason tenant commits 1 FREEZE_ATTEMPTS"

text \<open>
  The pass of the job over one tenant: a failed read skips the tenant, a break is answered by the freeze.  The
  freeze meets the ledger as it is by then, \<open>met\<close>.  The text of the reason is an argument; the alarm, the metrics and the audit record of the freeze are left out.
\<close>

datatype tenant_outcome = ReadFailed | CleanChain | Frozen | FreezeFailed

definition verify_and_freeze ::
  "decimal_ops \<Rightarrow> (bytes \<Rightarrow> bytes) \<Rightarrow> offset_date_time \<Rightarrow> (chain_break \<Rightarrow> string) \<Rightarrow> bool \<Rightarrow> (nat \<Rightarrow> bool)
   \<Rightarrow> 'x ledger_db \<Rightarrow> 'x ledger_db \<Rightarrow> 'x ledger_db \<Rightarrow> uuid \<Rightarrow> tenant_outcome \<times> 'x ledger_db" where
  "verify_and_freeze D H now reason read_fails commits db later met tenant =
     (if read_fails then (ReadFailed, met)
      else (case snd (verify_tenant D H db later tenant) of
              None \<Rightarrow> (CleanChain, met)
            | Some b \<Rightarrow>
                let (committed, db') = try_freeze_with_retry now (reason b) tenant commits met
                in (if committed then Frozen else FreezeFailed, db')))"

lemma try_freeze_with_retry_eq:
  "try_freeze_with_retry now reason tenant commits db =
     (if commits 1 \<or> commits 2 \<or> commits 3 then (True, freeze_tenant now reason tenant db) else (False, db))"
  by (simp add: try_freeze_with_retry_def FREEZE_ATTEMPTS_def eval_nat_numeral)

end
