(* ===== verification/Line_Grains.thy ===== *)
theory Line_Grains
  imports Projector
begin

text \<open>
  What one line of an entry contributes to the balance caches: \<open>line_keys\<close> states the grains it touches,
  \<open>line_value\<close>, \<open>line_functional\<close> and \<open>line_disputed\<close> what it adds to each, and \<open>line_grains_Inr\<close>
  that \<open>line_grains\<close> computes exactly these.
\<close>

section \<open>What a line contributes\<close>

definition line_keys :: "uuid \<Rightarrow> new_line \<Rightarrow> grain_key list" where
  "line_keys t l =
     (let a = account_id l; c = code (currency (money l)); p = payer_tenant_id l
      in (AccountGrain, t, a, c, 0, [], [], [], []) #
         (case account_class l of
            Ar \<Rightarrow> (ArPayerGrain, t, a, c, p, [], [], [], []) #
              (case invoice_id l of Some i \<Rightarrow> [(ArInvoiceGrain, t, a, [], p, i, [], [], [])] | None \<Rightarrow> [])
          | Unallocated \<Rightarrow> [(UnallocatedGrain, t, 0, c, p, [], [], [], [])]
          | ReusableCredit \<Rightarrow> [(ReusableCreditGrain, t, 0, c, p, [], [], [], the (credit_grant_event_type l))]
          | TaxPayable \<Rightarrow>
              (case (tax_jurisdiction l, tax_filing_period l) of
                 (Some j, Some f) \<Rightarrow> [(TaxGrain, t, a, [], 0, [], j, f, [])] | _ \<Rightarrow> [])
          | _ \<Rightarrow> []))"

definition line_value :: "(uuid \<Rightarrow> side option) \<Rightarrow> new_line \<Rightarrow> rat" where
  "line_value n l = (if n (account_id l) = Some (side l) then mval (money l) else - mval (money l))"

definition line_functional :: "(uuid \<Rightarrow> side option) \<Rightarrow> new_line \<Rightarrow> rat" where
  "line_functional n l =
     (case functional_money l of None \<Rightarrow> 0
      | Some m \<Rightarrow> if n (account_id l) = Some (side l) then mval m else - mval m)"

definition line_disputed :: "(uuid \<Rightarrow> side option) \<Rightarrow> grain_key \<Rightarrow> new_line \<Rightarrow> rat" where
  "line_disputed n k l =
     (if fst k = ArInvoiceGrain \<and> ar_status l = Some AR_STATUS_DISPUTED then line_value n l else 0)"

text \<open>The movement of a grain under an entry.\<close>

definition entry_moves :: "uuid \<Rightarrow> (new_line \<Rightarrow> rat) \<Rightarrow> new_line list \<Rightarrow> grain_key \<Rightarrow> rat" where
  "entry_moves t v ls k = (\<Sum>l\<leftarrow>ls. if k \<in> set (line_keys t l) then v l else 0)"

lemma line_keys_length: "length (line_keys (ne_tenant_id e) l) \<le> 3"
  by (simp add: line_keys_def Let_def split: account_class.splits option.splits)

lemma line_keys_distinct: "distinct (line_keys (ne_tenant_id e) l)"
  by (simp add: line_keys_def Let_def split: account_class.splits option.splits)

text \<open>A raw grain: the attributes and amounts it takes from its line.\<close>

definition grain_of :: "new_entry \<Rightarrow> (uuid \<times> side) list \<Rightarrow> new_line \<Rightarrow> grain_delta \<Rightarrow> bool" where
  "grain_of e sides l g \<longleftrightarrow>
     map_of sides (account_id l) = Some (gd_normal_side g) \<and>
     gd_tenant_id g = ne_tenant_id e \<and> gd_account_id g = account_id l \<and> gd_account_class g = account_class l \<and>
     gd_currency g = code (currency (money l)) \<and> gd_currency_spec g = currency (money l) \<and>
     gd_functional_currency g = map_option currency (functional_money l) \<and> gd_payer_tenant_id g = payer_tenant_id l \<and>
     gd_posted_at g = ne_posted_at_utc e \<and>
     gd_delta g = amount_of (line_value (map_of sides) l) \<and> gd_functional_delta g = amount_of (line_functional (map_of sides) l) \<and>
     gd_disputed_delta g = amount_of (line_disputed (map_of sides) (grain_sort_key g) l)"

lemma signed_amount_value:
  assumes "decimal_contract D"
  shows "signed_amount D normal sd m = amount_of (if sd = normal then mval m else - mval m)"
  using assms by (simp add: signed_amount_def from_decimal_amount_of decimal_rules)

lemma base_grain_simps [simp]:
  "gd_table (base_grain D e n l) = AccountGrain" "gd_tenant_id (base_grain D e n l) = ne_tenant_id e"
  "gd_account_id (base_grain D e n l) = account_id l" "gd_currency (base_grain D e n l) = code (currency (money l))"
  "gd_payer_tenant_id (base_grain D e n l) = payer_tenant_id l" "gd_invoice_id (base_grain D e n l) = []"
  "gd_tax_jurisdiction (base_grain D e n l) = []" "gd_tax_filing_period (base_grain D e n l) = []"
  "gd_credit_grant_event_type (base_grain D e n l) = []" "gd_account_class (base_grain D e n l) = account_class l"
  "gd_normal_side (base_grain D e n l) = n" "gd_currency_spec (base_grain D e n l) = currency (money l)"
  "gd_functional_currency (base_grain D e n l) = map_option currency (functional_money l)"
  "gd_posted_at (base_grain D e n l) = ne_posted_at_utc e" "gd_disputed_delta (base_grain D e n l) = from_decimal dec_zero"
  by (simp_all add: base_grain_def)

lemma base_grain_amounts:
  assumes "decimal_contract D" "map_of sides (account_id l) = Some n"
  shows "gd_delta (base_grain D e n l) = amount_of (line_value (map_of sides) l)"
    and "gd_functional_delta (base_grain D e n l) = amount_of (line_functional (map_of sides) l)"
  using assms
  by (auto simp: base_grain_def signed_amount_value line_value_def line_functional_def from_decimal_amount_of split: option.splits)

lemma line_grains_Inr:
  assumes D: "decimal_contract D" and run: "line_grains D e sides l = Inr gs"
  shows "map grain_sort_key gs = line_keys (ne_tenant_id e) l" "\<forall>g\<in>set gs. grain_of e sides l g"
proof -
  obtain n where n: "map_of sides (account_id l) = Some n" using run by (auto simp: line_grains_def)
  note amounts = base_grain_amounts [OF D n, of e]
  have zero: "from_decimal dec_zero = amount_of 0" by (simp add: from_decimal_amount_of)
  show "map grain_sort_key gs = line_keys (ne_tenant_id e) l"
    using run n
    by (cases "account_class l"; auto simp: line_grains_def line_keys_def Let_def grain_sort_key_def split: option.splits if_splits)
  show "\<forall>g\<in>set gs. grain_of e sides l g"
    using run n
    by (cases "account_class l"; auto simp: line_grains_def Let_def grain_of_def amounts zero line_disputed_def grain_sort_key_def
        split: option.splits if_splits)
qed

definition grain_wf :: "grain_delta \<Rightarrow> bool" where
  "grain_wf g \<longleftrightarrow>
     (gd_table g \<noteq> ArInvoiceGrain \<longrightarrow> gd_invoice_id g = []) \<and>
     (gd_table g \<noteq> TaxGrain \<longrightarrow> gd_tax_jurisdiction g = [] \<and> gd_tax_filing_period g = []) \<and>
     (gd_table g \<noteq> ReusableCreditGrain \<longrightarrow> gd_credit_grant_event_type g = []) \<and>
     (gd_table g \<in> {ArPayerGrain, ArInvoiceGrain} \<longrightarrow> gd_account_class g = Ar) \<and>
     (gd_table g = UnallocatedGrain \<longrightarrow> gd_account_class g = Unallocated) \<and>
     (gd_table g = ReusableCreditGrain \<longrightarrow> gd_account_class g = ReusableCredit) \<and>
     (gd_table g = TaxGrain \<longrightarrow> gd_account_class g = TaxPayable) \<and>
     gd_currency g = code (gd_currency_spec g)"

lemma line_grains_wf:
  assumes "line_grains D e sides l = Inr gs"
  shows "\<forall>g\<in>set gs. grain_wf g"
proof -
  obtain n where n: "map_of sides (account_id l) = Some n" using assms by (auto simp: line_grains_def)
  show ?thesis
  proof (cases "account_class l = TaxPayable")
    case True
    then show ?thesis using assms n
      by (cases "tax_jurisdiction l"; cases "tax_filing_period l") (auto simp: line_grains_def Let_def grain_wf_def)
  next
    case False
    then show ?thesis using assms n
      by (cases "account_class l"; auto simp: line_grains_def Let_def grain_wf_def split: option.splits if_splits)
  qed
qed

end
