(* ===== verification/Grain_Deltas.thy ===== *)
theory Grain_Deltas
  imports Line_Grains "HOL-Library.Multiset"
begin

text \<open>
  What \<open>derive_grains\<close> computes: one delta per grain that a line of the entry touches, in lock order, each
  the exact sum of the signed amounts of the lines that touch it.  \<open>derived\<close> is its contract.
\<close>

section \<open>Coalescing\<close>

definition grain_grid :: "nat \<Rightarrow> grain_delta \<Rightarrow> bool" where
  "grain_grid n g \<longleftrightarrow> (\<forall>x\<in>{gd_delta g, gd_functional_delta g, gd_disputed_delta g}. x = amount_of (exval x) \<and> dec_grid n (exval x))"

definition grain_attributes :: "grain_delta \<Rightarrow> uuid \<times> account_class \<times> side \<times> currency_spec \<times> currency_spec option" where
  "grain_attributes g =
     (gd_account_id g, gd_account_class g, gd_normal_side g, gd_currency_spec g, gd_functional_currency g)"

definition grain_measures :: "(grain_delta \<Rightarrow> rat) set" where
  "grain_measures = {exval \<circ> gd_delta, exval \<circ> gd_functional_delta, exval \<circ> gd_disputed_delta}"

definition grain_total :: "(grain_delta \<Rightarrow> rat) \<Rightarrow> grain_delta list \<Rightarrow> grain_key \<Rightarrow> rat" where
  "grain_total v gs k = (\<Sum>g\<leftarrow>gs. if grain_sort_key g = k then v g else 0)"

lemma match_currency_Inr [simp]: "match_currency a b = Inr u \<longleftrightarrow> a = b"
  by (simp add: match_currency_def)

lemma match_functional_Inr [simp]: "match_functional a b = Inr u \<longleftrightarrow> a = b"
  by (cases "(a, b)" rule: match_functional.cases) simp_all

lemma exact_sum:
  assumes "a = amount_of (exval a)" "dec_grid i (exval a)" "b = amount_of (exval b)" "dec_grid j (exval b)" "i + j \<le> 2 ^ 64"
  shows "checked_add a b = Inr (amount_of (exval a + exval b))"
proof -
  have "exact_ready a" "exact_ready b"
    using dec_grid_ready [OF assms(2)] dec_grid_ready [OF assms(4)] assms(1,3,5) by simp_all
  then show ?thesis using dec_grid_narrow [OF dec_grid_add [OF assms(2,4)]] assms(5) by (simp add: checked_add_narrow)
qed

lemma merge_grain_Inr:
  assumes p: "grain_grid i p" and g: "grain_grid j g" and ij: "i + j \<le> 2 ^ 64" and run: "merge_grain p g = Inr m"
  shows "grain_grid (i + j) m" "grain_sort_key m = grain_sort_key p" "grain_attributes m = grain_attributes p"
    "grain_attributes g = grain_attributes p" "\<forall>v\<in>grain_measures. v m = v p + v g"
proof -
  have sums: "checked_add (gd_delta p) (gd_delta g) = Inr (amount_of (exval (gd_delta p) + exval (gd_delta g)))"
      "checked_add (gd_functional_delta p) (gd_functional_delta g) =
        Inr (amount_of (exval (gd_functional_delta p) + exval (gd_functional_delta g)))"
      "checked_add (gd_disputed_delta p) (gd_disputed_delta g) =
        Inr (amount_of (exval (gd_disputed_delta p) + exval (gd_disputed_delta g)))"
    using p g by (auto simp: grain_grid_def intro!: exact_sum [OF _ _ _ _ ij])
  have m: "m = p\<lparr>gd_delta := amount_of (exval (gd_delta p) + exval (gd_delta g)),
      gd_disputed_delta := amount_of (exval (gd_disputed_delta p) + exval (gd_disputed_delta g)),
      gd_functional_delta := amount_of (exval (gd_functional_delta p) + exval (gd_functional_delta g))\<rparr>"
    and a: "gd_currency_spec p = gd_currency_spec g" "gd_functional_currency p = gd_functional_currency g"
      "gd_account_id p = gd_account_id g" "gd_account_class p = gd_account_class g" "gd_normal_side p = gd_normal_side g"
    using run sums by (auto simp: merge_grain_def split: if_splits)
  show "grain_grid (i + j) m" using p g by (auto simp: m grain_grid_def intro: dec_grid_add)
  show "grain_sort_key m = grain_sort_key p" by (simp add: m grain_sort_key_def)
  show "grain_attributes m = grain_attributes p" by (simp add: m grain_attributes_def)
  show "grain_attributes g = grain_attributes p" using a by (simp add: grain_attributes_def)
  show "\<forall>v\<in>grain_measures. v m = v p + v g" by (simp add: m grain_measures_def)
qed

lemma dec_grid_mono: "dec_grid i q \<Longrightarrow> i \<le> j \<Longrightarrow> dec_grid j q"
  using dec_grid_add [of i q "j - i" 0] by simp

lemma grain_grid_mono: "grain_grid i g \<Longrightarrow> i \<le> j \<Longrightarrow> grain_grid j g"
  unfolding grain_grid_def using dec_grid_mono by blast

definition coalesced :: "nat \<Rightarrow> grain_delta list \<Rightarrow> grain_delta list \<Rightarrow> bool" where
  "coalesced n gs out \<longleftrightarrow> sorted_wrt (<) (map grain_sort_key out) \<and> grain_sort_key ` set out = grain_sort_key ` set gs \<and>
     (\<forall>g\<in>set out. grain_grid n g) \<and>
     (\<forall>g\<in>set out. \<forall>v\<in>grain_measures. v g = grain_total v gs (grain_sort_key g)) \<and>
     (\<forall>g\<in>set out. \<forall>h\<in>set gs. grain_sort_key h = grain_sort_key g \<longrightarrow> grain_attributes h = grain_attributes g)"

lemma coalesced_mono: "coalesced i gs out \<Longrightarrow> i \<le> n \<Longrightarrow> coalesced n gs out"
  unfolding coalesced_def using grain_grid_mono [of i _ n] by blast

lemma grain_total_simps [simp]:
  "grain_total v [] k = 0"
  "grain_total v (g # gs) k = (if grain_sort_key g = k then v g else 0) + grain_total v gs k"
  "grain_total v (gs @ hs) k = grain_total v gs k + grain_total v hs k"
  by (simp_all add: grain_total_def)

lemma grain_total_absent: "k \<notin> grain_sort_key ` set gs \<Longrightarrow> grain_total v gs k = 0"
  by (induction gs) auto

lemma coalesce_Inr:
  assumes "coalesce p gs = Inr out" "sorted (map grain_sort_key (p # gs))" "grain_grid i p" "\<forall>g\<in>set gs. grain_grid 1 g"
    and "i + length gs \<le> 2 ^ 64"
  shows "coalesced (i + length gs) (p # gs) out"
  using assms
proof (induction p gs arbitrary: i out rule: coalesce.induct)
  case (1 p)
  then have "out = [p]" by simp
  then show ?case using "1.prems"(3) by (simp add: coalesced_def)
next
  case (2 p g gs)
  let ?key = grain_sort_key
  show ?case
  proof (cases "?key p = ?key g")
    case True
    with "2.prems"(1) obtain m where m: "merge_grain p g = Inr m" and out: "coalesce m gs = Inr out" by auto
    have "grain_grid 1 g" "i + 1 \<le> 2 ^ 64" using "2.prems" by simp_all
    note M = merge_grain_Inr [OF "2.prems"(3) this m]
    have "coalesced (i + 1 + length gs) (m # gs) out"
      using "2.prems" True M(1,2) by (intro "2.IH"(1) [OF True m out]) simp_all
    note C = this [unfolded coalesced_def]
    have attributes: "grain_attributes h = grain_attributes x"
      if "x \<in> set out" "h \<in> set (p # g # gs)" "?key h = ?key x" for x h
    proof (cases "h \<in> set gs")
      case True
      then show ?thesis using C that by simp
    next
      case False
      then have "h = p \<or> h = g" using that by simp
      then have "?key m = ?key x" "grain_attributes h = grain_attributes m"
        using that(3) \<open>?key p = ?key g\<close> M(2,3,4) by auto
      then show ?thesis using C that(1) by simp
    qed
    have keys: "?key ` set (p # g # gs) = ?key ` set (m # gs)" using True M(2) by simp
    have totals: "grain_total v (p # g # gs) k = grain_total v (m # gs) k" if "v \<in> grain_measures" for v k
      using True M(2,5) that by simp
    show ?thesis unfolding coalesced_def
    proof (intro conjI ballI impI)
      show "sorted_wrt (<) (map ?key out)" "?key ` set out = ?key ` set (p # g # gs)" unfolding keys using C by blast+
      show "grain_grid (i + length (g # gs)) x" if "x \<in> set out" for x using C that by simp
      show "v x = grain_total v (p # g # gs) (?key x)" if "x \<in> set out" "v \<in> grain_measures" for x v
        unfolding totals [OF that(2)] using C that by blast
    qed (rule attributes)
  next
    case False
    with "2.prems"(1) obtain rest where rest: "coalesce g gs = Inr rest" and out: "out = p # rest" by auto
    have less: "?key p < ?key h" if "h \<in> set (g # gs)" for h
      using "2.prems"(2) False that by (auto simp: order_less_le)
    have "coalesced (1 + length gs) (g # gs) rest"
      using "2.prems" by (intro "2.IH"(2) [OF False rest]) simp_all
    note C = this [unfolded coalesced_def]
    then have sorted: "sorted_wrt (<) (map ?key rest)" and keys: "?key ` set rest = ?key ` set (g # gs)"
      and grid: "\<forall>x\<in>set rest. grain_grid (1 + length gs) x" by blast+
    have lessr: "?key p < ?key x" if "x \<in> set rest" for x
    proof -
      have "?key x \<in> ?key ` set (g # gs)" unfolding keys [symmetric] by (rule imageI [OF that])
      then show ?thesis by (rule imageE) (simp only: less)
    qed
    have absent: "?key p \<notin> ?key ` set (g # gs)"
    proof
      assume "?key p \<in> ?key ` set (g # gs)"
      then obtain h where "?key p = ?key h" "h \<in> set (g # gs)" by (rule imageE)
      with less [OF this(2)] show False by simp
    qed
    show ?thesis unfolding coalesced_def
    proof (intro conjI ballI impI)
      show "sorted_wrt (<) (map ?key out)" using sorted lessr by (simp add: out)
      show "?key ` set out = ?key ` set (p # g # gs)" using keys by (simp add: out)
    next
      fix x assume "x \<in> set out"
      then consider "x = p" | "x \<in> set rest" by (auto simp: out)
      note xs = this
      show "grain_grid (i + length (g # gs)) x"
        using grid "2.prems"(3) by (cases rule: xs) (auto intro: grain_grid_mono)
      show "v x = grain_total v (p # g # gs) (?key x)" if "v \<in> grain_measures" for v
      proof (cases rule: xs)
        case 1
        then show ?thesis using grain_total_absent [OF absent, of v] by simp
      next
        case 2
        then have "v x = grain_total v (g # gs) (?key x)" using C that by blast
        then show ?thesis using order.strict_implies_not_eq [OF lessr [OF 2]] by simp
      qed
      show "grain_attributes h = grain_attributes x" if h: "h \<in> set (p # g # gs)" "?key h = ?key x" for h
      proof (cases rule: xs)
        case 1
        then show ?thesis using h less [of h] by auto
      next
        case 2
        then have "h \<noteq> p" using h(2) order.strict_implies_not_eq [OF lessr [OF 2]] by auto
        then have "h \<in> set (g # gs)" using h(1) by simp
        then show ?thesis using C 2 h(2) by blast
      qed
    qed
  qed
qed

section \<open>The deltas of an entry\<close>

lemma grain_total_perm: "mset gs = mset hs \<Longrightarrow> grain_total v gs k = grain_total v hs k"
  unfolding grain_total_def sum_mset_sum_list [symmetric] by (simp add: mset_map)

lemma grain_of_grid:
  assumes "grain_of e sides l g"
  shows "grain_grid 1 g"
proof -
  have m: "dec_grid 1 (mval m)" "dec_grid 1 (- mval m)" for m using dec_grid_dval by simp_all
  then have v: "dec_grid 1 (line_value (map_of sides) l)" by (simp add: line_value_def)
  moreover have "dec_grid 1 (line_functional (map_of sides) l)" using m by (simp add: line_functional_def split: option.splits)
  ultimately show ?thesis using assms by (auto simp: grain_grid_def grain_of_def line_disputed_def)
qed

text \<open>The measures of a line's grains, as its contribution to a key.\<close>

lemma line_total:
  assumes keys: "map grain_sort_key gs = line_keys (ne_tenant_id e) l" and same: "\<forall>g\<in>set gs. f g = v (grain_sort_key g)"
  shows "grain_total f gs k = (if k \<in> set (line_keys (ne_tenant_id e) l) then v k else 0)"
proof -
  have "distinct (map grain_sort_key gs)" using line_keys_distinct [of e l] by (simp add: keys)
  then have "grain_total f gs k = (if k \<in> grain_sort_key ` set gs then v k else 0)" using same
    by (induction gs) (auto simp: grain_total_absent)
  then show ?thesis unfolding keys [symmetric] by simp
qed

lemma lines_total:
  assumes "list_all2 (\<lambda>l gs. map grain_sort_key gs = line_keys (ne_tenant_id e) l \<and> (\<forall>g\<in>set gs. f g = v (grain_sort_key g) l)) ls gss"
  shows "grain_total f (concat gss) k = entry_moves (ne_tenant_id e) (v k) ls k"
  using assms
proof (induction rule: list_all2_induct)
  case Nil
  show ?case by (simp add: entry_moves_def)
next
  case (Cons l ls gs gss)
  then show ?case using line_total [of gs e l f "\<lambda>k. v k l" k] by (simp add: entry_moves_def)
qed

text \<open>The whole derivation: \<open>derived e sides ls gs\<close> is its contract.\<close>

definition derived :: "new_entry \<Rightarrow> (uuid \<times> side) list \<Rightarrow> new_line list \<Rightarrow> grain_delta list \<Rightarrow> bool" where
  "derived e sides ls gs \<longleftrightarrow>
     sorted_wrt (<) (map grain_sort_key gs) \<and>
     grain_sort_key ` set gs = (\<Union>l\<in>set ls. set (line_keys (ne_tenant_id e) l)) \<and>
     (\<forall>g\<in>set gs. grain_wf g \<and> grain_grid (3 * length ls) g \<and>
        exval (gd_delta g) = entry_moves (ne_tenant_id e) (line_value (map_of sides)) ls (grain_sort_key g) \<and>
        exval (gd_functional_delta g) = entry_moves (ne_tenant_id e) (line_functional (map_of sides)) ls (grain_sort_key g) \<and>
        exval (gd_disputed_delta g) =
          entry_moves (ne_tenant_id e) (line_disputed (map_of sides) (grain_sort_key g)) ls (grain_sort_key g) \<and>
        (\<forall>l\<in>set ls. grain_sort_key g \<in> set (line_keys (ne_tenant_id e) l) \<longrightarrow>
           map_of sides (account_id l) = Some (gd_normal_side g) \<and> account_id l = gd_account_id g \<and>
           account_class l = gd_account_class g \<and> currency (money l) = gd_currency_spec g \<and>
           map_option currency (functional_money l) = gd_functional_currency g))"

lemma lines_length: "list_all2 (\<lambda>l gs. map grain_sort_key gs = line_keys (ne_tenant_id e) l) ls gss \<Longrightarrow> length (concat gss) \<le> 3 * length ls"
proof (induction rule: list_all2_induct)
  case (Cons l ls gs gss)
  have "length gs \<le> 3" using line_keys_length [of e l] Cons.hyps(1) by (metis length_map)
  then show ?case using Cons.IH by simp
qed simp

lemma merge_grain_wf:
  assumes "merge_grain p g = Inr m" "grain_wf p"
  shows "grain_wf m"
proof -
  obtain a b c where "m = p\<lparr>gd_delta := a, gd_disputed_delta := b, gd_functional_delta := c\<rparr>"
    using assms(1) by (auto simp: merge_grain_def split: if_splits)
  then show ?thesis using assms(2) by (simp add: grain_wf_def)
qed

lemma coalesce_wf: "coalesce p gs = Inr out \<Longrightarrow> \<forall>g\<in>set (p # gs). grain_wf g \<Longrightarrow> \<forall>g\<in>set out. grain_wf g"
proof (induction p gs arbitrary: out rule: coalesce.induct)
  case (2 p g gs)
  then show ?case using merge_grain_wf by (auto split: if_splits)
qed auto

text \<open>The raw grains of the lines, before sorting.\<close>

lemma raw_grains:
  assumes "list_all2 (\<lambda>l gs. map grain_sort_key gs = line_keys (ne_tenant_id e) l \<and> (\<forall>g\<in>set gs. grain_of e sides l g \<and> grain_wf g)) ls gss"
  shows "grain_sort_key ` set (concat gss) = (\<Union>l\<in>set ls. set (line_keys (ne_tenant_id e) l))"
    and "\<forall>g\<in>set (concat gss). grain_grid 1 g \<and> grain_wf g"
    and "\<forall>l\<in>set ls. \<forall>k\<in>set (line_keys (ne_tenant_id e) l). \<exists>h\<in>set (concat gss). grain_sort_key h = k \<and> grain_of e sides l h"
  using assms
proof (induction rule: list_all2_induct)
  case (Cons l ls gs gss)
  have keys: "set (line_keys (ne_tenant_id e) l) = grain_sort_key ` set gs" using Cons.hyps(1) by (metis list.set_map)
  { case 1 show ?case using Cons.IH(1) by (simp add: keys image_Un) }
  { case 2 show ?case using Cons.IH(2) Cons.hyps(1) grain_of_grid by auto }
  { case 3
    have "\<exists>h\<in>set gs. grain_sort_key h = k \<and> grain_of e sides l h" if "k \<in> set (line_keys (ne_tenant_id e) l)" for k
      using that Cons.hyps(1) unfolding keys by blast
    then show ?case using Cons.IH(3) unfolding concat.simps set_append list.set by blast }
qed simp_all

lemma coalesce_sorted:
  assumes "(case sort_key grain_sort_key raw of [] \<Rightarrow> Inr [] | g # gs \<Rightarrow> coalesce g gs) = Inr out"
    and "\<forall>g\<in>set raw. grain_grid 1 g \<and> grain_wf g" "length raw \<le> n" "n \<le> 2 ^ 64"
  shows "coalesced n (sort_key grain_sort_key raw) out \<and> (\<forall>g\<in>set out. grain_wf g)"
proof (cases "sort_key grain_sort_key raw")
  case Nil
  then show ?thesis using assms(1) by (simp add: coalesced_def)
next
  case (Cons g gs)
  have raw: "set raw = set (g # gs)" "length raw = 1 + length gs"
    unfolding Cons [symmetric] using arg_cong [OF Cons, of length] by simp_all
  have "sorted (map grain_sort_key (g # gs))" unfolding Cons [symmetric] by simp
  moreover have run: "coalesce g gs = Inr out" using assms(1) Cons by simp
  ultimately have "coalesced (1 + length gs) (g # gs) out" using assms raw by (intro coalesce_Inr) simp_all
  then have "coalesced n (g # gs) out" using assms(3) raw(2) by (elim coalesced_mono) simp
  moreover have "\<forall>g\<in>set out. grain_wf g" using coalesce_wf [OF run] assms(2) raw(1) by blast
  ultimately show ?thesis by (simp only: Cons)
qed

lemma derive_grains_Inr:
  assumes D: "decimal_contract D" and run: "derive_grains D e ls sides = Inr gs" and small: "3 * length ls \<le> 2 ^ 64"
  shows "derived e sides ls gs"
proof -
  from run obtain gss where "list_all2 (\<lambda>l gs. line_grains D e sides l = Inr gs) ls gss"
    and co: "(case sort_key grain_sort_key (concat gss) of [] \<Rightarrow> Inr [] | g # gs \<Rightarrow> coalesce g gs) = Inr gs"
    by (auto simp: derive_grains_def map_result_Inr_iff)
  then have per: "list_all2 (\<lambda>l gs. map grain_sort_key gs = line_keys (ne_tenant_id e) l \<and> (\<forall>g\<in>set gs. grain_of e sides l g \<and> grain_wf g)) ls gss"
    using line_grains_Inr [OF D] line_grains_wf by (elim list_all2_mono) blast
  let ?raw = "concat gss" and ?key = grain_sort_key
  note raw = raw_grains [OF per]
  have "length ?raw \<le> 3 * length ls" using per by (intro lines_length) (auto elim: list_all2_mono)
  then have "coalesced (3 * length ls) (sort_key ?key ?raw) gs \<and> (\<forall>g\<in>set gs. grain_wf g)"
    using co raw(2) small by (intro coalesce_sorted) simp_all
  then have "coalesced (3 * length ls) (sort_key ?key ?raw) gs" and wf: "\<forall>g\<in>set gs. grain_wf g" by blast+
  note C = this(1) [unfolded coalesced_def set_sort]
  have total: "grain_total f (sort_key ?key ?raw) k = entry_moves (ne_tenant_id e) (v k) ls k"
    if "\<And>l g. grain_of e sides l g \<Longrightarrow> f g = v (?key g) l" for f v k
  proof -
    have "grain_total f (sort_key ?key ?raw) k = grain_total f ?raw k" by (rule grain_total_perm) simp
    also have "\<dots> = entry_moves (ne_tenant_id e) (v k) ls k" using per that by (intro lines_total) (auto elim: list_all2_mono)
    finally show ?thesis .
  qed
  have totals: "grain_total (exval \<circ> gd_delta) (sort_key ?key ?raw) k = entry_moves (ne_tenant_id e) (line_value (map_of sides)) ls k"
      "grain_total (exval \<circ> gd_functional_delta) (sort_key ?key ?raw) k = entry_moves (ne_tenant_id e) (line_functional (map_of sides)) ls k"
      "grain_total (exval \<circ> gd_disputed_delta) (sort_key ?key ?raw) k = entry_moves (ne_tenant_id e) (line_disputed (map_of sides) k) ls k" for k
    by (rule total; simp add: grain_of_def)+
  have measured: "v g = grain_total v (sort_key ?key ?raw) (?key g)" if "g \<in> set gs" "v \<in> grain_measures" for g v
    using C that by blast
  have sums: "exval (gd_delta g) = entry_moves (ne_tenant_id e) (line_value (map_of sides)) ls (?key g)"
      "exval (gd_functional_delta g) = entry_moves (ne_tenant_id e) (line_functional (map_of sides)) ls (?key g)"
      "exval (gd_disputed_delta g) = entry_moves (ne_tenant_id e) (line_disputed (map_of sides) (?key g)) ls (?key g)" if "g \<in> set gs" for g
    using measured [OF that, of "exval \<circ> gd_delta"] measured [OF that, of "exval \<circ> gd_functional_delta"]
      measured [OF that, of "exval \<circ> gd_disputed_delta"]
    unfolding totals by (simp_all add: grain_measures_def)
  have line: "map_of sides (account_id l) = Some (gd_normal_side g) \<and> account_id l = gd_account_id g \<and>
        account_class l = gd_account_class g \<and> currency (money l) = gd_currency_spec g \<and>
        map_option currency (functional_money l) = gd_functional_currency g"
    if g: "g \<in> set gs" and l: "l \<in> set ls" "?key g \<in> set (line_keys (ne_tenant_id e) l)" for g l
  proof -
    obtain h where h: "h \<in> set ?raw" "?key h = ?key g" "grain_of e sides l h" using raw(3) l by blast
    then have "grain_attributes h = grain_attributes g" using C g by blast
    then show ?thesis using h(3) by (simp add: grain_attributes_def grain_of_def)
  qed
  show ?thesis unfolding derived_def
  proof (intro conjI)
    show "sorted_wrt (<) (map ?key gs)" "?key ` set gs = (\<Union>l\<in>set ls. set (line_keys (ne_tenant_id e) l))"
      unfolding raw(1) [symmetric] using C by blast+
    have "\<forall>g\<in>set gs. grain_grid (3 * length ls) g" using C by blast
    then show "\<forall>g\<in>set gs. grain_wf g \<and> grain_grid (3 * length ls) g \<and>
        exval (gd_delta g) = entry_moves (ne_tenant_id e) (line_value (map_of sides)) ls (?key g) \<and>
        exval (gd_functional_delta g) = entry_moves (ne_tenant_id e) (line_functional (map_of sides)) ls (?key g) \<and>
        exval (gd_disputed_delta g) = entry_moves (ne_tenant_id e) (line_disputed (map_of sides) (?key g)) ls (?key g) \<and>
        (\<forall>l\<in>set ls. ?key g \<in> set (line_keys (ne_tenant_id e) l) \<longrightarrow>
           map_of sides (account_id l) = Some (gd_normal_side g) \<and> account_id l = gd_account_id g \<and>
           account_class l = gd_account_class g \<and> currency (money l) = gd_currency_spec g \<and>
           map_option currency (functional_money l) = gd_functional_currency g)"
      using wf sums line by blast
  qed
qed

end
