(* ===== verification/Cache_Views.thy ===== *)
theory Cache_Views
  imports Grain_Deltas
begin

text \<open>
  The six cache tables seen as one store on grain keys.  A view is what the tables have in common, the
  disputed part of an invoice row and the class and side of an account row; \<open>view_step\<close> is the write
  that every upsert makes on the view of its grain, and \<open>upsert_view\<close> states that it is the only change.
\<close>

record grain_view = cache_row +
  gv_disputed :: "string option"
  gv_class :: "(string \<times> string) option"

definition plain_view :: "'a cache_row_scheme \<Rightarrow> grain_view" where
  "plain_view r = cache_row.extend (cache_row.truncate r) (grain_view.fields None None)"

definition account_view :: "account_row \<Rightarrow> grain_view" where
  "account_view r = (plain_view r)\<lparr>gv_class := Some (ac_account_class r, ac_normal_side r)\<rparr>"

definition ar_invoice_view :: "ar_invoice_row \<Rightarrow> grain_view" where
  "ar_invoice_view r = (plain_view r)\<lparr>gv_disputed := Some (ai_disputed r)\<rparr>"

definition tax_view :: "balance_row \<Rightarrow> grain_view" where
  "tax_view r = plain_view (balance_row.extend r (cache_row.fields None None None))"

text \<open>Only the keys that \<open>grain_sort_key\<close> forms have a view.\<close>

fun view :: "balance_caches \<Rightarrow> grain_key \<Rightarrow> grain_view option" where
  "view s (AccountGrain, t, a, c, p, i, j, f, ev) =
     (if (p, i, j, f, ev) = (0, [], [], [], []) then map_option account_view (account_balance s (t, a, c)) else None)"
| "view s (ArPayerGrain, t, a, c, p, i, j, f, ev) =
     (if (i, j, f, ev) = ([], [], [], []) then map_option plain_view (ar_payer_balance s (t, p, a, c)) else None)"
| "view s (ArInvoiceGrain, t, a, c, p, i, j, f, ev) =
     (if (c, j, f, ev) = ([], [], [], []) then map_option ar_invoice_view (ar_invoice_balance s (t, p, a, i)) else None)"
| "view s (UnallocatedGrain, t, a, c, p, i, j, f, ev) =
     (if (a, i, j, f, ev) = (0, [], [], [], []) then map_option plain_view (unallocated_balance s (t, p, c)) else None)"
| "view s (ReusableCreditGrain, t, a, c, p, i, j, f, ev) =
     (if (a, i, j, f) = (0, [], [], []) then map_option plain_view (reusable_credit_subbalance s (t, p, c, ev)) else None)"
| "view s (TaxGrain, t, a, c, p, i, j, f, ev) =
     (if (c, p, i, ev) = ([], 0, [], []) then map_option tax_view (tax_subbalance s (t, a, j, f)) else None)"

lemmas view_defs = plain_view_def account_view_def ar_invoice_view_def tax_view_def

text \<open>A view holds the columns of its row.\<close>

lemma plain_view_simps [simp]:
  "br_account_id (plain_view r) = br_account_id r" "br_currency (plain_view r) = br_currency r"
  "br_currency_scale (plain_view r) = br_currency_scale r" "br_balance (plain_view r) = br_balance r"
  "br_last_entry_seq (plain_view r) = br_last_entry_seq r" "br_version (plain_view r) = br_version r"
  "cr_functional_balance (plain_view r) = cr_functional_balance r"
  "cr_functional_currency (plain_view r) = cr_functional_currency r"
  "cr_functional_currency_scale (plain_view r) = cr_functional_currency_scale r"
  "gv_disputed (plain_view r) = None" "gv_class (plain_view r) = None"
  by (simp_all add: plain_view_def cache_row.defs grain_view.defs)

lemma row_view [simp]:
  "row_balance D (plain_view r) = row_balance D r" "row_functional D (plain_view r) = row_functional D r"
  by (simp_all add: row_balance_def row_functional_def)

lemma row_fields [simp]:
  "row_balance D (v\<lparr>gv_class := x\<rparr>) = row_balance D v" "row_functional D (v\<lparr>gv_class := x\<rparr>) = row_functional D v"
  "row_balance D (v\<lparr>gv_disputed := y\<rparr>) = row_balance D v" "row_functional D (v\<lparr>gv_disputed := y\<rparr>) = row_functional D v"
  by (simp_all add: row_balance_def row_functional_def)

section \<open>The write of a view\<close>

definition grain_class :: "grain_delta \<Rightarrow> (string \<times> string) option" where
  "grain_class g =
     (if gd_table g = AccountGrain
      then Some (account_class_as_str (gd_account_class g), side_as_str (gd_normal_side g)) else None)"

definition disputed_step ::
  "decimal_ops \<Rightarrow> grain_delta \<Rightarrow> grain_view option \<Rightarrow> posted_money \<Rightarrow> string option \<Rightarrow> bool" where
  "disputed_step D g old balance d \<longleftrightarrow>
     (if gd_table g = ArInvoiceGrain
      then \<exists>before after.
             on_existing (\<lambda>r. decode_money D (the (gv_disputed r)) (br_currency r) (br_currency_scale r)) old = Inr before \<and>
             final_amount D (gd_disputed_delta g) before (gd_currency_spec g) = Inr after \<and>
             \<not> dec_lt D (amount after) dec_zero \<and> \<not> dec_lt D (amount balance) (amount after) \<and>
             d = Some (encode_amount D after)
      else d = None)"

definition fresh_view ::
  "decimal_ops \<Rightarrow> grain_delta \<Rightarrow> int \<Rightarrow> posted_money \<Rightarrow> posted_money option \<Rightarrow> string option \<Rightarrow> grain_view" where
  "fresh_view D g seq balance functional d =
     (plain_view (fresh_cache D (if gd_table g = TaxGrain then g\<lparr>gd_functional_currency := None\<rparr> else g) seq balance functional))
       \<lparr>gv_disputed := d, gv_class := grain_class g\<rparr>"

definition view_step :: "decimal_ops \<Rightarrow> int \<Rightarrow> grain_delta \<Rightarrow> grain_view option \<Rightarrow> grain_view \<Rightarrow> bool" where
  "view_step D seq g old new \<longleftrightarrow>
     (\<exists>m fo b f d. read_cache D old = Inr (m, fo) \<and> final_balances D g m fo = Inr (b, f) \<and> disputed_step D g old b d \<and>
        (case old of
           None \<Rightarrow> new = fresh_view D g seq b f d
         | Some c \<Rightarrow> br_account_id c = gd_account_id g \<and> gv_class c = grain_class g \<and> br_version c + 1 < 2 ^ 63 \<and>
             new = (set_cache D seq b f (br_version c + 1) c)\<lparr>gv_disputed := d\<rparr>))"

lemma guarded_write_same:
  "guarded_write version row row set_columns first_row = Inr r \<longleftrightarrow>
     (case row of None \<Rightarrow> r = first_row | Some c \<Rightarrow> version c + 1 < 2 ^ 63 \<and> r = set_columns (version c + 1) c)"
  by (auto simp: guarded_write_def next_version_def require_one_def split: option.splits)

lemma read_cache_view [simp]:
  "read_cache D (map_option plain_view row) = read_cache D row"
  "read_cache D (map_option account_view arow) = read_cache D arow"
  "read_cache D (map_option ar_invoice_view irow) = read_cache D irow"
  by (cases row; cases arow; cases irow; simp add: read_cache_def on_existing_def account_view_def ar_invoice_view_def)+

lemma plain_view_set: "plain_view (set_cache D seq b f n c) = set_cache D seq b f n (plain_view c)"
  by (simp add: set_cache_def set_balance_def plain_view_def cache_row.defs grain_view.defs)

lemma set_cache_fields [simp]:
  "gv_class (set_cache D seq b f n v) = gv_class v" "gv_disputed (set_cache D seq b f n v) = gv_disputed v"
  "ac_account_class (set_cache D seq b f n a) = ac_account_class a" "ac_normal_side (set_cache D seq b f n a) = ac_normal_side a"
  "set_cache D seq b f n (v\<lparr>gv_class := x\<rparr>) = (set_cache D seq b f n v)\<lparr>gv_class := x\<rparr>"
  "set_cache D seq b f n (v\<lparr>gv_disputed := y\<rparr>) = (set_cache D seq b f n v)\<lparr>gv_disputed := y\<rparr>"
  by (simp_all add: set_cache_def set_balance_def)

lemma plain_view_extend [simp]: "plain_view (cache_row.extend r x) = plain_view r"
  by (simp add: plain_view_def cache_row.defs)

lemma plain_view_disputed [simp]: "plain_view (c\<lparr>ai_disputed := x\<rparr>) = plain_view c"
  by (simp add: plain_view_def cache_row.defs)

lemma row_extend [simp]:
  "ac_account_class (cache_row.extend r (account_row.fields c n)) = c"
  "ac_normal_side (cache_row.extend r (account_row.fields c n)) = n"
  "ai_disputed (cache_row.extend r (ar_invoice_row.fields d p u)) = d"
  by (simp_all add: cache_row.defs account_row.defs ar_invoice_row.defs)

lemma view_same: "gv_disputed v = d \<Longrightarrow> v\<lparr>gv_disputed := d\<rparr> = v" "gv_class v = x \<Longrightarrow> v\<lparr>gv_class := x\<rparr> = v"
  by (cases v; simp)+

text \<open>Every attempt, against the row it read, makes the write of \<open>view_step\<close>.\<close>

lemma view_stepI:
  assumes "read_cache D old = Inr (m, fo)" "final_balances D g m fo = Inr (b, f)" "disputed_step D g old b d"
    and "old = None \<Longrightarrow> new = fresh_view D g seq b f d"
    and "\<And>c. old = Some c \<Longrightarrow> br_account_id c = gd_account_id g \<and> gv_class c = grain_class g \<and> br_version c + 1 < 2 ^ 63 \<and>
             new = (set_cache D seq b f (br_version c + 1) c)\<lparr>gv_disputed := d\<rparr>"
  shows "view_step D seq g old new"
  unfolding view_step_def
  by (rule exI [of _ m], rule exI [of _ fo], rule exI [of _ b], rule exI [of _ f], rule exI [of _ d])
    (use assms in \<open>simp split: option.split\<close>)

lemma account_attempt_view:
  assumes run: "account_attempt D (g, seq) row row = Inr r" and t: "gd_table g = AccountGrain"
  shows "view_step D seq g (map_option account_view row) (account_view r)"
proof -
  obtain m fo b f where read: "read_cache D row = Inr (m, fo)" "final_balances D g m fo = Inr (b, f)"
    and same: "\<forall>c. row = Some c \<longrightarrow> br_account_id c = gd_account_id g \<and>
        ac_account_class c = account_class_as_str (gd_account_class g) \<and> ac_normal_side c = side_as_str (gd_normal_side g)"
    and w: "guarded_write br_version row row (set_cache D seq b f)
       (cache_row.extend (fresh_cache D g seq b f)
          (account_row.fields (account_class_as_str (gd_account_class g)) (side_as_str (gd_normal_side g)))) = Inr r"
    using run by (auto simp: account_attempt_def account_differs_def split: if_splits option.splits)
  show ?thesis
    using read w same t
    by (intro view_stepI [of D _ m fo g b f None])
      (auto simp: guarded_write_same account_view_def fresh_view_def grain_class_def disputed_step_def plain_view_set view_same)
qed

lemma plain_attempt_view:
  assumes run: "plain_attempt D (g, seq) row row = Inr r" and t: "gd_table g \<in> {ArPayerGrain, UnallocatedGrain}"
  shows "view_step D seq g (map_option plain_view row) (plain_view r)"
proof -
  obtain m fo b f where read: "read_cache D row = Inr (m, fo)" "final_balances D g m fo = Inr (b, f)"
    and same: "\<forall>c. row = Some c \<longrightarrow> br_account_id c = gd_account_id g"
    and w: "guarded_write br_version row row (set_cache D seq b f) (fresh_cache D g seq b f) = Inr r"
    using run by (auto simp: plain_attempt_def account_differs_def split: if_splits option.splits)
  show ?thesis
    using read w same t
    by (intro view_stepI [of D _ m fo g b f None])
      (auto simp: guarded_write_same fresh_view_def grain_class_def disputed_step_def plain_view_set view_same)
qed

lemma credit_attempt_view:
  assumes run: "credit_attempt D (g, seq) row row = Inr r" and t: "gd_table g = ReusableCreditGrain"
  shows "view_step D seq g (map_option plain_view row) (plain_view r)"
proof -
  obtain m fo b f where read: "read_cache D row = Inr (m, fo)" "final_balances D g m fo = Inr (b, f)"
    and same: "\<forall>c. row = Some c \<longrightarrow> br_account_id c = gd_account_id g"
    and w: "guarded_write br_version row row (set_cache D seq b f)
      (cache_row.extend (fresh_cache D g seq b f) (credit_row.fields (gd_first_granted_at g))) = Inr r"
    using run by (auto simp: credit_attempt_def account_differs_def split: if_splits option.splits)
  show ?thesis
    using read w same t
    by (intro view_stepI [of D _ m fo g b f None])
      (auto simp: guarded_write_same fresh_view_def grain_class_def disputed_step_def plain_view_set view_same)
qed

lemma ar_invoice_attempt_view:
  assumes run: "ar_invoice_attempt D (g, seq) row row = Inr r" and t: "gd_table g = ArInvoiceGrain"
  shows "view_step D seq g (map_option ar_invoice_view row) (ar_invoice_view r)"
proof -
  obtain m fo b f before after where read: "read_cache D row = Inr (m, fo)" "final_balances D g m fo = Inr (b, f)"
    and same: "\<forall>c. row = Some c \<longrightarrow> br_account_id c = gd_account_id g"
    and d: "on_existing (\<lambda>r. decode_money D (ai_disputed r) (br_currency r) (br_currency_scale r)) row = Inr before"
      "final_amount D (gd_disputed_delta g) before (gd_currency_spec g) = Inr after"
      "\<not> dec_lt D (amount after) dec_zero" "\<not> dec_lt D (amount b) (amount after)"
    and w: "guarded_write br_version row row (\<lambda>next c. (set_cache D seq b f next c)\<lparr>ai_disputed := encode_amount D after\<rparr>)
      (cache_row.extend (fresh_cache D g seq b f)
         (ar_invoice_row.fields (encode_amount D after) (Some (gd_posted_at g)) (gd_due_date g))) = Inr r"
    using run by (auto simp: ar_invoice_attempt_def account_differs_def split: if_splits option.splits)
  have "disputed_step D g (map_option ar_invoice_view row) b (Some (encode_amount D after))"
    using d t by (cases row) (auto simp: disputed_step_def on_existing_def ar_invoice_view_def)
  then show ?thesis
    using read w same t
    by (intro view_stepI [of D _ m fo g b f "Some (encode_amount D after)"])
      (auto simp: guarded_write_same ar_invoice_view_def fresh_view_def grain_class_def plain_view_set view_same)
qed

lemma tax_view_write:
  "tax_view (set_balance D seq b n c) = set_cache D seq b None n (tax_view c)"
  "tax_view (fresh_balance D g seq b) = plain_view (fresh_cache D (g\<lparr>gd_functional_currency := None\<rparr>) seq b None)"
  by (simp_all add: tax_view_def plain_view_set [symmetric] set_cache_def set_balance_def fresh_cache_def fresh_balance_def
      balance_row.defs cache_row.defs)

lemma tax_view_columns [simp]:
  "br_account_id (tax_view c) = br_account_id c" "br_version (tax_view c) = br_version c"
  "gv_class (tax_view c) = None" "gv_disputed (tax_view c) = None" "row_balance D (tax_view c) = row_balance D c"
  "row_functional D (tax_view c) = Inr None"
  by (simp_all add: tax_view_def row_balance_def row_functional_def balance_row.defs cache_row.defs)

lemma tax_attempt_view:
  assumes run: "tax_attempt D (g, seq) row row = Inr r" and t: "gd_table g = TaxGrain"
  shows "view_step D seq g (map_option tax_view row) (tax_view r)"
proof -
  obtain m b f where read: "on_existing (row_balance D) row = Inr m" "final_balances D g m None = Inr (b, f)"
    and same: "\<forall>c. row = Some c \<longrightarrow> br_account_id c = gd_account_id g"
    and w: "guarded_write br_version row row (set_balance D seq b) (fresh_balance D g seq b) = Inr r"
    using run by (auto simp: tax_attempt_def account_differs_def split: if_splits option.splits)
  have f: "f = None" using read(2) t by (auto simp: final_balances_def Let_def split: if_splits)
  have "read_cache D (map_option tax_view row) = Inr (m, None)"
    using read(1) by (cases row) (auto simp: read_cache_def on_existing_def)
  then show ?thesis
    using read w same t f
    by (intro view_stepI [of D _ m None g b f None])
      (auto simp: guarded_write_same fresh_view_def grain_class_def disputed_step_def view_same tax_view_write)
qed

section \<open>One upsert\<close>

lemma view_write:
  assumes "\<And>T t a c p i j f ev.
    view s' (T, t, a, c, p, i, j, f, ev) = (if (T, t, a, c, p, i, j, f, ev) = k then Some v else view s (T, t, a, c, p, i, j, f, ev))"
  shows "view s' = (view s)(k \<mapsto> v)"
proof
  fix l :: grain_key
  obtain T t a c p i j f ev where "l = (T, t, a, c, p, i, j, f, ev)" by (metis surj_pair)
  then show "view s' l = ((view s)(k \<mapsto> v)) l" using assms by simp
qed

lemma grain_wf_key:
  assumes "grain_wf g"
  shows "grain_sort_key g =
    (case gd_table g of
       AccountGrain \<Rightarrow> (AccountGrain, gd_tenant_id g, gd_account_id g, gd_currency g, 0, [], [], [], [])
     | ArPayerGrain \<Rightarrow> (ArPayerGrain, gd_tenant_id g, gd_account_id g, gd_currency g, gd_payer_tenant_id g, [], [], [], [])
     | ArInvoiceGrain \<Rightarrow> (ArInvoiceGrain, gd_tenant_id g, gd_account_id g, [], gd_payer_tenant_id g, gd_invoice_id g, [], [], [])
     | UnallocatedGrain \<Rightarrow> (UnallocatedGrain, gd_tenant_id g, 0, gd_currency g, gd_payer_tenant_id g, [], [], [], [])
     | ReusableCreditGrain \<Rightarrow>
         (ReusableCreditGrain, gd_tenant_id g, 0, gd_currency g, gd_payer_tenant_id g, [], [], [], gd_credit_grant_event_type g)
     | TaxGrain \<Rightarrow> (TaxGrain, gd_tenant_id g, gd_account_id g, [], 0, [], gd_tax_jurisdiction g, gd_tax_filing_period g, []))"
  using assms by (cases "gd_table g") (simp_all add: grain_sort_key_def grain_wf_def)

text \<open>The view of a grain is that of its row, and writing the row writes that view and no other.\<close>

lemma view_account:
  assumes "gd_table g = AccountGrain" "grain_wf g"
  shows "view s (grain_sort_key g) = map_option account_view (account_balance s (account_key g))"
    and "view (s\<lparr>account_balance := (account_balance s)(account_key g \<mapsto> r)\<rparr>) = (view s)(grain_sort_key g \<mapsto> account_view r)"
proof -
  show "view s (grain_sort_key g) = map_option account_view (account_balance s (account_key g))"
    using assms by (simp add: grain_wf_key account_key_def)
  show "view (s\<lparr>account_balance := (account_balance s)(account_key g \<mapsto> r)\<rparr>) = (view s)(grain_sort_key g \<mapsto> account_view r)"
  proof (rule view_write)
    fix T t a c p i j f ev
    show "view (s\<lparr>account_balance := (account_balance s)(account_key g \<mapsto> r)\<rparr>) (T, t, a, c, p, i, j, f, ev) =
        (if (T, t, a, c, p, i, j, f, ev) = grain_sort_key g then Some (account_view r) else view s (T, t, a, c, p, i, j, f, ev))"
      using assms by (cases T) (simp_all add: grain_wf_key account_key_def)
  qed
qed

lemma view_ar_payer:
  assumes "gd_table g = ArPayerGrain" "grain_wf g"
  shows "view s (grain_sort_key g) = map_option plain_view (ar_payer_balance s (ar_payer_key g))"
    and "view (s\<lparr>ar_payer_balance := (ar_payer_balance s)(ar_payer_key g \<mapsto> r)\<rparr>) = (view s)(grain_sort_key g \<mapsto> plain_view r)"
proof -
  show "view s (grain_sort_key g) = map_option plain_view (ar_payer_balance s (ar_payer_key g))"
    using assms by (simp add: grain_wf_key ar_payer_key_def)
  show "view (s\<lparr>ar_payer_balance := (ar_payer_balance s)(ar_payer_key g \<mapsto> r)\<rparr>) = (view s)(grain_sort_key g \<mapsto> plain_view r)"
  proof (rule view_write)
    fix T t a c p i j f ev
    show "view (s\<lparr>ar_payer_balance := (ar_payer_balance s)(ar_payer_key g \<mapsto> r)\<rparr>) (T, t, a, c, p, i, j, f, ev) =
        (if (T, t, a, c, p, i, j, f, ev) = grain_sort_key g then Some (plain_view r) else view s (T, t, a, c, p, i, j, f, ev))"
      using assms by (cases T) (simp_all add: grain_wf_key ar_payer_key_def)
  qed
qed

lemma view_ar_invoice:
  assumes "gd_table g = ArInvoiceGrain" "grain_wf g"
  shows "view s (grain_sort_key g) = map_option ar_invoice_view (ar_invoice_balance s (ar_invoice_key g))"
    and "view (s\<lparr>ar_invoice_balance := (ar_invoice_balance s)(ar_invoice_key g \<mapsto> r)\<rparr>) = (view s)(grain_sort_key g \<mapsto> ar_invoice_view r)"
proof -
  show "view s (grain_sort_key g) = map_option ar_invoice_view (ar_invoice_balance s (ar_invoice_key g))"
    using assms by (simp add: grain_wf_key ar_invoice_key_def)
  show "view (s\<lparr>ar_invoice_balance := (ar_invoice_balance s)(ar_invoice_key g \<mapsto> r)\<rparr>) = (view s)(grain_sort_key g \<mapsto> ar_invoice_view r)"
  proof (rule view_write)
    fix T t a c p i j f ev
    show "view (s\<lparr>ar_invoice_balance := (ar_invoice_balance s)(ar_invoice_key g \<mapsto> r)\<rparr>) (T, t, a, c, p, i, j, f, ev) =
        (if (T, t, a, c, p, i, j, f, ev) = grain_sort_key g then Some (ar_invoice_view r) else view s (T, t, a, c, p, i, j, f, ev))"
      using assms by (cases T) (simp_all add: grain_wf_key ar_invoice_key_def)
  qed
qed

lemma view_unallocated:
  assumes "gd_table g = UnallocatedGrain" "grain_wf g"
  shows "view s (grain_sort_key g) = map_option plain_view (unallocated_balance s (unallocated_key g))"
    and "view (s\<lparr>unallocated_balance := (unallocated_balance s)(unallocated_key g \<mapsto> r)\<rparr>) = (view s)(grain_sort_key g \<mapsto> plain_view r)"
proof -
  show "view s (grain_sort_key g) = map_option plain_view (unallocated_balance s (unallocated_key g))"
    using assms by (simp add: grain_wf_key unallocated_key_def)
  show "view (s\<lparr>unallocated_balance := (unallocated_balance s)(unallocated_key g \<mapsto> r)\<rparr>) = (view s)(grain_sort_key g \<mapsto> plain_view r)"
  proof (rule view_write)
    fix T t a c p i j f ev
    show "view (s\<lparr>unallocated_balance := (unallocated_balance s)(unallocated_key g \<mapsto> r)\<rparr>) (T, t, a, c, p, i, j, f, ev) =
        (if (T, t, a, c, p, i, j, f, ev) = grain_sort_key g then Some (plain_view r) else view s (T, t, a, c, p, i, j, f, ev))"
      using assms by (cases T) (simp_all add: grain_wf_key unallocated_key_def)
  qed
qed

lemma view_credit:
  assumes "gd_table g = ReusableCreditGrain" "grain_wf g"
  shows "view s (grain_sort_key g) = map_option plain_view (reusable_credit_subbalance s (credit_key g))"
    and "view (s\<lparr>reusable_credit_subbalance := (reusable_credit_subbalance s)(credit_key g \<mapsto> r)\<rparr>) = (view s)(grain_sort_key g \<mapsto> plain_view r)"
proof -
  show "view s (grain_sort_key g) = map_option plain_view (reusable_credit_subbalance s (credit_key g))"
    using assms by (simp add: grain_wf_key credit_key_def)
  show "view (s\<lparr>reusable_credit_subbalance := (reusable_credit_subbalance s)(credit_key g \<mapsto> r)\<rparr>) = (view s)(grain_sort_key g \<mapsto> plain_view r)"
  proof (rule view_write)
    fix T t a c p i j f ev
    show "view (s\<lparr>reusable_credit_subbalance := (reusable_credit_subbalance s)(credit_key g \<mapsto> r)\<rparr>) (T, t, a, c, p, i, j, f, ev) =
        (if (T, t, a, c, p, i, j, f, ev) = grain_sort_key g then Some (plain_view r) else view s (T, t, a, c, p, i, j, f, ev))"
      using assms by (cases T) (simp_all add: grain_wf_key credit_key_def)
  qed
qed

lemma view_tax:
  assumes "gd_table g = TaxGrain" "grain_wf g"
  shows "view s (grain_sort_key g) = map_option tax_view (tax_subbalance s (tax_key g))"
    and "view (s\<lparr>tax_subbalance := (tax_subbalance s)(tax_key g \<mapsto> r)\<rparr>) = (view s)(grain_sort_key g \<mapsto> tax_view r)"
proof -
  show "view s (grain_sort_key g) = map_option tax_view (tax_subbalance s (tax_key g))"
    using assms by (simp add: grain_wf_key tax_key_def)
  show "view (s\<lparr>tax_subbalance := (tax_subbalance s)(tax_key g \<mapsto> r)\<rparr>) = (view s)(grain_sort_key g \<mapsto> tax_view r)"
  proof (rule view_write)
    fix T t a c p i j f ev
    show "view (s\<lparr>tax_subbalance := (tax_subbalance s)(tax_key g \<mapsto> r)\<rparr>) (T, t, a, c, p, i, j, f, ev) =
        (if (T, t, a, c, p, i, j, f, ev) = grain_sort_key g then Some (tax_view r) else view s (T, t, a, c, p, i, j, f, ev))"
      using assms by (cases T) (simp_all add: grain_wf_key tax_key_def)
  qed
qed

text \<open>An upsert writes the view of its grain and no other.\<close>

lemma upsert_view:
  assumes run: "upsert_grain D seq g s = Inr s'" and wf: "grain_wf g"
  shows "\<exists>new. view_step D seq g (view s (grain_sort_key g)) new \<and> view s' = (view s)(grain_sort_key g \<mapsto> new)"
proof (cases "gd_table g")
  case AccountGrain
  then show ?thesis using run
    by (auto simp: upsert_grain_def upsert_account_balance_def Let_def view_account [OF AccountGrain wf] intro: account_attempt_view)
next
  case ArPayerGrain
  then show ?thesis using run
    by (auto simp: upsert_grain_def upsert_ar_payer_def Let_def view_ar_payer [OF ArPayerGrain wf] intro: plain_attempt_view)
next
  case ArInvoiceGrain
  then show ?thesis using run
    by (auto simp: upsert_grain_def upsert_ar_invoice_def Let_def view_ar_invoice [OF ArInvoiceGrain wf] intro: ar_invoice_attempt_view)
next
  case UnallocatedGrain
  then show ?thesis using run
    by (auto simp: upsert_grain_def upsert_unallocated_def Let_def view_unallocated [OF UnallocatedGrain wf] intro: plain_attempt_view)
next
  case ReusableCreditGrain
  then show ?thesis using run
    by (auto simp: upsert_grain_def upsert_reusable_credit_def Let_def view_credit [OF ReusableCreditGrain wf] intro: credit_attempt_view)
next
  case TaxGrain
  then show ?thesis using run
    by (auto simp: upsert_grain_def upsert_tax_def Let_def view_tax [OF TaxGrain wf] intro: tax_attempt_view)
qed

end
