(* ===== verification/Projection.thy ===== *)
theory Projection
  imports Cache_Views
begin

text \<open>
  What a projection does to the balance caches: every grain moves by exactly what the lines of the entry
  add to it, amounts stay decodable, guarded balances never go negative and the disputed part of
  an invoice stays within its balance.
\<close>

section \<open>Amounts of a view\<close>

definition view_balance :: "decimal_ops \<Rightarrow> grain_view \<Rightarrow> rat" where
  "view_balance D v = (case row_balance D v of Inr m \<Rightarrow> mval m | Inl _ \<Rightarrow> 0)"

definition view_functional :: "decimal_ops \<Rightarrow> grain_view \<Rightarrow> rat" where
  "view_functional D v = (case row_functional D v of Inr (Some m) \<Rightarrow> mval m | _ \<Rightarrow> 0)"

definition view_disputed :: "decimal_ops \<Rightarrow> grain_view \<Rightarrow> rat" where
  "view_disputed D v =
     (case gv_disputed v of
        Some t \<Rightarrow> (case decode_money D t (br_currency v) (br_currency_scale v) of Inr m \<Rightarrow> mval m | Inl _ \<Rightarrow> 0)
      | None \<Rightarrow> 0)"

definition cached :: "(grain_view \<Rightarrow> rat) \<Rightarrow> balance_caches \<Rightarrow> grain_key \<Rightarrow> rat" where
  "cached f s k = (case view s k of None \<Rightarrow> 0 | Some v \<Rightarrow> f v)"

text \<open>The balances that may not go negative: those of the guarded classes and of the wallet grains.\<close>

definition guarded_view :: "grain_table \<Rightarrow> grain_view \<Rightarrow> bool" where
  "guarded_view T v \<longleftrightarrow>
     T \<in> {ArPayerGrain, ArInvoiceGrain, UnallocatedGrain, ReusableCreditGrain} \<or>
     T = AccountGrain \<and> (\<exists>c n. gv_class v = Some (account_class_as_str c, n) \<and> is_guarded c)"

definition view_ok :: "decimal_ops \<Rightarrow> grain_table \<Rightarrow> grain_view \<Rightarrow> bool" where
  "view_ok D T v \<longleftrightarrow>
     (\<exists>m. row_balance D v = Inr m) \<and> (\<exists>f. row_functional D v = Inr f) \<and>
     (guarded_view T v \<longrightarrow> 0 \<le> view_balance D v) \<and>
     (T = ArInvoiceGrain \<longrightarrow> 0 \<le> view_disputed D v \<and> view_disputed D v \<le> view_balance D v)"

definition caches_ok :: "decimal_ops \<Rightarrow> balance_caches \<Rightarrow> bool" where
  "caches_ok D s \<longleftrightarrow> (\<forall>k v. view s k = Some v \<longrightarrow> view_ok D (fst k) v)"

section \<open>Post-states\<close>

lemma final_amount_Inr:
  assumes "decimal_contract D" "exact_ready x" "spec_ok cur" "final_amount D x old cur = Inr b"
  shows "represents b cur (exval x + (case old of None \<Rightarrow> 0 | Some m \<Rightarrow> mval m))" "\<forall>m. old = Some m \<longrightarrow> currency m = cur"
proof -
  have s: "cur_scale cur \<le> 28" using assms(3) by (simp add: spec_ok_def)
  show "represents b cur (exval x + (case old of None \<Rightarrow> 0 | Some m \<Rightarrow> mval m))"
    using assms(4) narrow_ready into_posted_exact_Inr [OF assms(1) _ s, of _ b]
    by (cases old) (auto simp: final_amount_def checked_add_narrow [OF assms(2)])
  show "\<forall>m. old = Some m \<longrightarrow> currency m = cur" using assms(4) by (auto simp: final_amount_def)
qed

lemma final_balances_Inr:
  assumes D: "decimal_contract D" and x: "exact_ready (gd_delta g)" "exact_ready (gd_functional_delta g)"
    and c: "spec_ok (gd_currency_spec g)" "\<forall>c. gd_functional_currency g = Some c \<longrightarrow> spec_ok c"
    and run: "final_balances D g old fo = Inr (b, f)"
  shows "represents b (gd_currency_spec g) (exval (gd_delta g) + (case old of None \<Rightarrow> 0 | Some m \<Rightarrow> mval m))"
    and "\<forall>m. old = Some m \<longrightarrow> currency m = gd_currency_spec g"
    and "is_guarded (gd_account_class g) \<or> gd_table g = ReusableCreditGrain \<longrightarrow> 0 \<le> mval b"
    and "gd_table g = TaxGrain \<longrightarrow> f = None"
    and "gd_table g \<noteq> TaxGrain \<longrightarrow> map_option currency f = gd_functional_currency g \<and>
       (old \<noteq> None \<longrightarrow> map_option currency fo = gd_functional_currency g)"
    and "f = Some y \<longrightarrow> represents y (currency y) (exval (gd_functional_delta g) + (case fo of None \<Rightarrow> 0 | Some m \<Rightarrow> mval m))"
proof -
  have b: "final_amount D (gd_delta g) old (gd_currency_spec g) = Inr b"
    using run by (auto simp: final_balances_def Let_def split: if_splits)
  note B = final_amount_Inr [OF D x(1) c(1) b]
  show "represents b (gd_currency_spec g) (exval (gd_delta g) + (case old of None \<Rightarrow> 0 | Some m \<Rightarrow> mval m))"
    "\<forall>m. old = Some m \<longrightarrow> currency m = gd_currency_spec g" by (rule B)+
  show "is_guarded (gd_account_class g) \<or> gd_table g = ReusableCreditGrain \<longrightarrow> 0 \<le> mval b"
    using run by (auto simp: final_balances_def Let_def contract_compare [OF D] not_less split: if_splits)
  show "gd_table g = TaxGrain \<longrightarrow> f = None"
    using run by (auto simp: final_balances_def Let_def split: if_splits)
  have F: "f = None" if "gd_functional_currency g = None"
    using run that by (auto simp: final_balances_def Let_def split: if_splits)
  have G: "\<exists>y. f = Some y \<and> final_amount D (gd_functional_delta g) fo z = Inr y"
    if "gd_functional_currency g = Some z" "gd_table g \<noteq> TaxGrain" for z
    using run that by (cases fo; auto simp: final_balances_def Let_def split: if_splits)
  have H: "map_option currency fo = gd_functional_currency g" if "gd_table g \<noteq> TaxGrain" "old \<noteq> None"
    using run that by (auto simp: final_balances_def Let_def split: if_splits)
  have R: "represents y z (exval (gd_functional_delta g) + (case fo of None \<Rightarrow> 0 | Some m \<Rightarrow> mval m))"
    if "final_amount D (gd_functional_delta g) fo z = Inr y" "gd_functional_currency g = Some z" for y z
    using final_amount_Inr(1) [OF D x(2) _ that(1)] c(2) that(2) by blast
  show "gd_table g \<noteq> TaxGrain \<longrightarrow> map_option currency f = gd_functional_currency g \<and>
       (old \<noteq> None \<longrightarrow> map_option currency fo = gd_functional_currency g)"
    using F G H R by (cases "gd_functional_currency g") (force simp: represents_def)+
  show "f = Some y \<longrightarrow> represents y (currency y) (exval (gd_functional_delta g) + (case fo of None \<Rightarrow> 0 | Some m \<Rightarrow> mval m))"
  proof (cases "gd_table g = TaxGrain \<or> gd_functional_currency g = None")
    case True
    then show ?thesis using F \<open>gd_table g = TaxGrain \<longrightarrow> f = None\<close> by auto
  next
    case False
    then obtain z where z: "gd_functional_currency g = Some z" "gd_table g \<noteq> TaxGrain" by auto
    then show ?thesis using G [OF z] R by (auto simp: represents_def)
  qed
qed

section \<open>One grain\<close>

definition grain_ready :: "grain_delta \<Rightarrow> bool" where
  "grain_ready g \<longleftrightarrow> grain_wf g \<and> spec_ok (gd_currency_spec g) \<and> (\<forall>c. gd_functional_currency g = Some c \<longrightarrow> spec_ok c) \<and>
     exact_ready (gd_delta g) \<and> exact_ready (gd_functional_delta g) \<and> exact_ready (gd_disputed_delta g) \<and>
     (gd_functional_currency g = None \<longrightarrow> exval (gd_functional_delta g) = 0)"

lemma fresh_view_columns [simp]:
  "br_balance (fresh_view D g seq b f d) = encode_amount D b" "br_currency (fresh_view D g seq b f d) = gd_currency g"
  "br_currency_scale (fresh_view D g seq b f d) = int (cur_scale (gd_currency_spec g))"
  "cr_functional_balance (fresh_view D g seq b f d) = map_option (encode_amount D) f"
  "gd_table g \<noteq> TaxGrain \<Longrightarrow> cr_functional_currency (fresh_view D g seq b f d) = map_option code (gd_functional_currency g)"
  "gd_table g \<noteq> TaxGrain \<Longrightarrow>
     cr_functional_currency_scale (fresh_view D g seq b f d) = map_option (\<lambda>c. int (cur_scale c)) (gd_functional_currency g)"
  "gd_table g = TaxGrain \<Longrightarrow> cr_functional_currency (fresh_view D g seq b f d) = None"
  "gd_table g = TaxGrain \<Longrightarrow> cr_functional_currency_scale (fresh_view D g seq b f d) = None"
  "gv_class (fresh_view D g seq b f d) = grain_class g" "gv_disputed (fresh_view D g seq b f d) = d"
  by (simp_all add: fresh_view_def fresh_cache_def fresh_balance_def balance_row.defs cache_row.defs)

lemma set_cache_columns [simp]:
  "br_balance (set_cache D seq b f n v) = encode_amount D b" "br_currency (set_cache D seq b f n v) = br_currency v"
  "br_currency_scale (set_cache D seq b f n v) = br_currency_scale v"
  "cr_functional_balance (set_cache D seq b f n v) = map_option (encode_amount D) f"
  "cr_functional_currency (set_cache D seq b f n v) = cr_functional_currency v"
  "cr_functional_currency_scale (set_cache D seq b f n v) = cr_functional_currency_scale v"
  by (simp_all add: set_cache_def set_balance_def)

text \<open>What the rows of a table hold besides their amounts.\<close>

definition table_ok :: "grain_table \<Rightarrow> grain_view \<Rightarrow> bool" where
  "table_ok T v \<longleftrightarrow> (T \<noteq> ArInvoiceGrain \<longrightarrow> gv_disputed v = None) \<and> (T = ArInvoiceGrain \<longrightarrow> gv_disputed v \<noteq> None) \<and>
     (T = TaxGrain \<longrightarrow> cr_functional_balance v = None \<and> cr_functional_currency v = None \<and> cr_functional_currency_scale v = None)"

lemma view_table: "view s k = Some v \<Longrightarrow> table_ok (fst k) v"
  by (cases "(s, k)" rule: view.cases)
    (auto simp: table_ok_def account_view_def ar_invoice_view_def tax_view_def balance_row.defs cache_row.defs split: if_splits)

lemma decode_optional_Inr:
  assumes D: "decimal_contract D" and T: "text_contract D"
  shows "decode_optional_money D t c n = Inr f \<longleftrightarrow>
    t = map_option (encode_amount D) f \<and> c = map_option (\<lambda>m. code (currency m)) f \<and>
    n = map_option (\<lambda>m. int (cur_scale (currency m))) f \<and> (\<forall>m. f = Some m \<longrightarrow> posted_ok m \<and> spec_ok (currency m))"
  by (cases t; cases c; cases n; cases f) (auto simp: decode_money_Inr [OF D T])

text \<open>The written row decodes to the amounts that were computed.\<close>

lemma view_step_row:
  assumes D: "decimal_contract D" and T: "text_contract D" and g: "grain_ready g"
    and old: "\<forall>v. old = Some v \<longrightarrow> table_ok (gd_table g) v"
    and step: "view_step D seq g old new"
  obtains m fo b f d where "read_cache D old = Inr (m, fo)" "final_balances D g m fo = Inr (b, f)" "disputed_step D g old b d"
    "row_balance D new = Inr b" "row_functional D new = Inr f" "gv_disputed new = d" "gv_class new = grain_class g"
    "br_currency new = code (gd_currency_spec g)" "br_currency_scale new = int (cur_scale (gd_currency_spec g))"
proof -
  obtain m fo b f d where read: "read_cache D old = Inr (m, fo)" and fin: "final_balances D g m fo = Inr (b, f)"
    and d: "disputed_step D g old b d"
    and new: "case old of None \<Rightarrow> new = fresh_view D g seq b f d
         | Some c \<Rightarrow> br_account_id c = gd_account_id g \<and> gv_class c = grain_class g \<and> br_version c + 1 < 2 ^ 63 \<and>
             new = (set_cache D seq b f (br_version c + 1) c)\<lparr>gv_disputed := d\<rparr>"
    using step by (auto simp: view_step_def)
  note ready = g [unfolded grain_ready_def]
  have "exact_ready (gd_delta g)" "exact_ready (gd_functional_delta g)" "spec_ok (gd_currency_spec g)"
      "\<forall>c. gd_functional_currency g = Some c \<longrightarrow> spec_ok c"
    using ready by blast+
  note F = final_balances_Inr [OF D this fin]
  have cols: "br_currency new = code (gd_currency_spec g) \<and> br_currency_scale new = int (cur_scale (gd_currency_spec g))"
  proof (cases old)
    case None
    then show ?thesis using new ready by (simp add: grain_wf_def)
  next
    case (Some c)
    then obtain mc where "row_balance D c = Inr mc" "m = Some mc" using read by (auto simp: read_cache_def on_existing_def)
    then show ?thesis using F(2) new Some by (auto simp: row_balance_def decode_money_Inr [OF D T])
  qed
  have bal: "br_balance new = encode_amount D b" "cr_functional_balance new = map_option (encode_amount D) f"
    "gv_disputed new = d" "gv_class new = grain_class g" using new by (cases old; simp)+
  then have rb: "row_balance D new = Inr b" using cols F(1) ready by (simp add: row_balance_def decode_money_Inr [OF D T] represents_def)
  have fcols: "cr_functional_currency new = map_option (\<lambda>m. code (currency m)) f \<and>
      cr_functional_currency_scale new = map_option (\<lambda>m. int (cur_scale (currency m))) f"
  proof (cases "gd_table g = TaxGrain")
    case True
    then show ?thesis using F(4) new old by (cases old) (auto simp: table_ok_def)
  next
    case False
    then have f: "gd_functional_currency g = map_option currency f" and fo: "m \<noteq> None \<longrightarrow> map_option currency fo = map_option currency f"
      using F(5) by simp_all
    show ?thesis
    proof (cases old)
      case None
      then show ?thesis using new False by (simp add: f option.map_comp comp_def)
    next
      case (Some c)
      then have "row_functional D c = Inr fo" "m \<noteq> None" using read by (auto simp: read_cache_def on_existing_def)
      then have "cr_functional_currency c = map_option code (map_option currency f)"
        "cr_functional_currency_scale c = map_option (\<lambda>c. int (cur_scale c)) (map_option currency f)"
        using fo by (auto simp: row_functional_def decode_optional_Inr [OF D T] option.map_comp comp_def simp flip: fo)
      then show ?thesis using new Some by (simp add: option.map_comp comp_def)
    qed
  qed
  have "posted_ok y \<and> spec_ok (currency y)" if "f = Some y" for y
    using that F(4,5) F(6) [of y] ready by (cases "gd_table g = TaxGrain") (auto simp: represents_def)
  then have rf: "row_functional D new = Inr f" using fcols bal(2) by (simp add: row_functional_def decode_optional_Inr [OF D T])
  show ?thesis by (rule that [OF read fin d rb rf bal(3,4)]) (use cols in simp_all)
qed

abbreviation amount_before :: "(grain_view \<Rightarrow> rat) \<Rightarrow> grain_view option \<Rightarrow> rat" where
  "amount_before f old \<equiv> (case old of None \<Rightarrow> 0 | Some v \<Rightarrow> f v)"

lemma view_step_moves:
  assumes D: "decimal_contract D" and T: "text_contract D" and g: "grain_ready g"
    and old: "\<forall>v. old = Some v \<longrightarrow> table_ok (gd_table g) v"
    and step: "view_step D seq g old new"
  shows "view_ok D (gd_table g) new"
    and "view_balance D new = amount_before (view_balance D) old + exval (gd_delta g)"
    and "gd_table g \<noteq> TaxGrain \<Longrightarrow> view_functional D new = amount_before (view_functional D) old + exval (gd_functional_delta g)"
    and "view_disputed D new =
      amount_before (view_disputed D) old + (if gd_table g = ArInvoiceGrain then exval (gd_disputed_delta g) else 0)"
proof -
  obtain m fo b f d where read: "read_cache D old = Inr (m, fo)" and fin: "final_balances D g m fo = Inr (b, f)"
    and d: "disputed_step D g old b d" and row: "row_balance D new = Inr b" "row_functional D new = Inr f"
    "gv_disputed new = d" "gv_class new = grain_class g"
    "br_currency new = code (gd_currency_spec g)" "br_currency_scale new = int (cur_scale (gd_currency_spec g))"
    by (rule view_step_row [OF D T g old step]) blast
  note ready = g [unfolded grain_ready_def]
  have "exact_ready (gd_delta g)" "exact_ready (gd_functional_delta g)" "spec_ok (gd_currency_spec g)"
      "\<forall>c. gd_functional_currency g = Some c \<longrightarrow> spec_ok c"
    using ready by blast+
  note F = final_balances_Inr [OF D this fin]
  have m: "(case m of None \<Rightarrow> 0 | Some x \<Rightarrow> mval x) = amount_before (view_balance D) old"
    and fo: "(case fo of None \<Rightarrow> 0 | Some x \<Rightarrow> mval x) = amount_before (view_functional D) old"
    using read by (cases old; auto simp: read_cache_def on_existing_def view_balance_def view_functional_def split: option.splits)+
  show bal: "view_balance D new = amount_before (view_balance D) old + exval (gd_delta g)"
    using F(1) row(1) m by (simp add: view_balance_def represents_def)
  show "view_functional D new = amount_before (view_functional D) old + exval (gd_functional_delta g)" if t: "gd_table g \<noteq> TaxGrain"
  proof (cases f)
    case None
    then have c: "gd_functional_currency g = None" using F(5) t by simp
    then have "fo = None" using F(5) t read by (cases old) (auto simp: read_cache_def on_existing_def)
    then show ?thesis using None row(2) ready c fo by (simp add: view_functional_def)
  next
    case (Some y)
    then show ?thesis using F(6) [of y] row(2) fo by (simp add: view_functional_def represents_def)
  qed
  have other: "view_disputed D new = amount_before (view_disputed D) old" if "gd_table g \<noteq> ArInvoiceGrain"
    using that d row(3) old by (cases old) (auto simp: disputed_step_def view_disputed_def table_ok_def)
  have invoice: "view_disputed D new = amount_before (view_disputed D) old + exval (gd_disputed_delta g) \<and>
      0 \<le> view_disputed D new \<and> view_disputed D new \<le> view_balance D new" if t: "gd_table g = ArInvoiceGrain"
  proof -
    obtain od x where od: "on_existing (\<lambda>r. decode_money D (the (gv_disputed r)) (br_currency r) (br_currency_scale r)) old = Inr od"
      and x: "final_amount D (gd_disputed_delta g) od (gd_currency_spec g) = Inr x"
        "0 \<le> mval x" "mval x \<le> mval b" "d = Some (encode_amount D x)"
      using d t by (auto simp: disputed_step_def contract_compare [OF D] not_less)
    have X: "represents x (gd_currency_spec g) (exval (gd_disputed_delta g) + (case od of None \<Rightarrow> 0 | Some m \<Rightarrow> mval m))"
      using final_amount_Inr(1) [OF D _ _ x(1)] ready by blast
    have "(case od of None \<Rightarrow> 0 | Some m \<Rightarrow> mval m) = amount_before (view_disputed D) old"
      using od old t by (cases old) (auto simp: on_existing_def view_disputed_def table_ok_def)
    moreover have "decode_money D (encode_amount D x) (br_currency new) (br_currency_scale new) = Inr x"
      using X row(5,6) ready by (simp add: decode_money_Inr [OF D T] represents_def)
    ultimately show ?thesis using X x row(1,3) by (simp add: view_disputed_def view_balance_def represents_def)
  qed
  show "view_disputed D new =
      amount_before (view_disputed D) old + (if gd_table g = ArInvoiceGrain then exval (gd_disputed_delta g) else 0)"
    using other invoice by simp
  have "0 \<le> mval b" if "guarded_view (gd_table g) new"
  proof -
    have wf: "grain_wf g" using ready by blast
    have "is_guarded (gd_account_class g) \<or> gd_table g = ReusableCreditGrain"
    proof (cases "gd_table g = AccountGrain")
      case True
      then show ?thesis
        using that row(4) by (auto simp: guarded_view_def grain_class_def dest: account_enum.literal_inj)
    next
      case False
      then show ?thesis using that wf by (auto simp: guarded_view_def grain_wf_def is_guarded_def GUARDED_def)
    qed
    then show ?thesis using F(3) by blast
  qed
  then show "view_ok D (gd_table g) new" using row(1,2) invoice by (auto simp: view_ok_def view_balance_def)
qed

section \<open>One entry\<close>

text \<open>The views written by the upserts of distinct grains.\<close>

lemma upserts_views:
  assumes "fold_result (upsert_grain D seq) gs s = Inr s'" "distinct (map grain_sort_key gs)" "\<forall>g\<in>set gs. grain_wf g"
  shows "(\<forall>g\<in>set gs. \<exists>new. view_step D seq g (view s (grain_sort_key g)) new \<and> view s' (grain_sort_key g) = Some new) \<and>
    (\<forall>k. k \<notin> grain_sort_key ` set gs \<longrightarrow> view s' k = view s k)"
  using assms
proof (induction gs arbitrary: s)
  case (Cons g gs)
  then obtain s1 where s1: "upsert_grain D seq g s = Inr s1" and rest: "fold_result (upsert_grain D seq) gs s1 = Inr s'" by auto
  have "grain_wf g" using Cons.prems(3) by simp
  then obtain new where step: "view_step D seq g (view s (grain_sort_key g)) new" and v: "view s1 = (view s)(grain_sort_key g \<mapsto> new)"
    using upsert_view [OF s1] by blast
  have absent: "grain_sort_key g \<notin> grain_sort_key ` set gs" using Cons.prems(2) by simp
  have "distinct (map grain_sort_key gs)" "\<forall>g\<in>set gs. grain_wf g" using Cons.prems(2,3) by simp_all
  note IH = Cons.IH [OF rest this, THEN conjunct1] Cons.IH [OF rest this, THEN conjunct2, rule_format]
  have "\<exists>new. view_step D seq h (view s (grain_sort_key h)) new \<and> view s' (grain_sort_key h) = Some new" if "h \<in> set gs" for h
  proof -
    have "grain_sort_key h \<noteq> grain_sort_key g" using absent that by (metis imageI)
    then have "view s1 (grain_sort_key h) = view s (grain_sort_key h)" using v by simp
    then show ?thesis using IH(1) that by metis
  qed
  moreover have "view s' (grain_sort_key g) = Some new" using IH(2) absent v by simp
  moreover have "view s' k = view s k" if "k \<notin> grain_sort_key ` set (g # gs)" for k using IH(2) that v by simp
  ultimately show ?case using step by (metis set_ConsD)
qed simp

text \<open>Lines of validated money: what their types guarantee.\<close>

definition line_ok :: "new_line \<Rightarrow> bool" where
  "line_ok l \<longleftrightarrow> spec_ok (currency (money l)) \<and> (\<forall>m. functional_money l = Some m \<longrightarrow> spec_ok (currency m))"

lemma entry_moves_absent: "k \<notin> (\<Union>l\<in>set ls. set (line_keys (ne_tenant_id e) l)) \<Longrightarrow> entry_moves (ne_tenant_id e) v ls k = 0"
  unfolding entry_moves_def by (induction ls) auto

lemma entry_moves_zero: "(\<And>l. l \<in> set ls \<Longrightarrow> k \<in> set (line_keys (ne_tenant_id e) l) \<Longrightarrow> v l = 0) \<Longrightarrow> entry_moves (ne_tenant_id e) v ls k = 0"
  unfolding entry_moves_def by (induction ls) auto

lemma sort_key_table [simp]: "fst (grain_sort_key g) = gd_table g"
  by (simp add: grain_sort_key_def)

lemma derived_ready:
  assumes der: "derived e sides ls gs" and small: "3 * length ls \<le> 2 ^ 64" and ok: "\<forall>l\<in>set ls. line_ok l" and g: "g \<in> set gs"
  shows "grain_ready g"
proof -
  note G = der [unfolded derived_def] g
  have "grain_sort_key g \<in> (\<Union>l\<in>set ls. set (line_keys (ne_tenant_id e) l))" using G by (metis imageI)
  then obtain l where l: "l \<in> set ls" "grain_sort_key g \<in> set (line_keys (ne_tenant_id e) l)" by blast
  have attr: "currency (money l) = gd_currency_spec g" "map_option currency (functional_money l) = gd_functional_currency g"
    using G l by blast+
  have "spec_ok (gd_currency_spec g)" "\<forall>c. gd_functional_currency g = Some c \<longrightarrow> spec_ok c"
    using ok l(1) by (auto simp: line_ok_def simp flip: attr)
  moreover have "grain_grid (3 * length ls) g" "grain_wf g" using G by blast+
  moreover have "exact_ready x" if "x = amount_of (exval x)" "dec_grid (3 * length ls) (exval x)" for x
    using dec_grid_ready [OF that(2)] small that(1) by simp
  moreover have "exval (gd_functional_delta g) = 0" if "gd_functional_currency g = None"
  proof -
    have "functional_money h = None" if "h \<in> set ls" "grain_sort_key g \<in> set (line_keys (ne_tenant_id e) h)" for h
    proof -
      have "map_option currency (functional_money h) = gd_functional_currency g" using G that by blast
      then show ?thesis using \<open>gd_functional_currency g = None\<close> by simp
    qed
    then have "entry_moves (ne_tenant_id e) (line_functional (map_of sides)) ls (grain_sort_key g) = 0"
      by (intro entry_moves_zero) (simp add: line_functional_def)
    then show ?thesis using G by simp
  qed
  ultimately show ?thesis by (simp add: grain_ready_def grain_grid_def)
qed

lemma project_grain:
  assumes D: "decimal_contract D" and T: "text_contract D" and run: "project D e ls sides seq s = Inr s'"
    and small: "3 * length ls \<le> 2 ^ 64" and ok: "\<forall>l\<in>set ls. line_ok l"
  shows "k \<notin> (\<Union>l\<in>set ls. set (line_keys (ne_tenant_id e) l)) \<and> view s' k = view s k \<or>
    (\<exists>g gs new. derived e sides ls gs \<and> g \<in> set gs \<and> grain_ready g \<and> grain_sort_key g = k \<and>
       view_step D seq g (view s k) new \<and> view s' k = Some new)"
proof -
  obtain gs where gs: "derive_grains D e ls sides = Inr gs" and fold: "fold_result (upsert_grain D seq) gs s = Inr s'"
    using run by (auto simp: project_def)
  have der: "derived e sides ls gs" by (rule derive_grains_Inr [OF D gs small])
  then have keys: "grain_sort_key ` set gs = (\<Union>l\<in>set ls. set (line_keys (ne_tenant_id e) l))" and "distinct (map grain_sort_key gs)"
      and "\<forall>g\<in>set gs. grain_wf g"
    using strict_sorted_iff unfolding derived_def by blast+
  note V = upserts_views [OF fold this(2,3)]
  show ?thesis
  proof (cases "k \<in> grain_sort_key ` set gs")
    case True
    then obtain g where "g \<in> set gs" "grain_sort_key g = k" by blast
    then show ?thesis using V der derived_ready [OF der small ok] by blast
  next
    case False
    then show ?thesis using V unfolding keys by blast
  qed
qed

text \<open>The movement of every grain under a projected entry.\<close>

lemma project_moves:
  assumes D: "decimal_contract D" and T: "text_contract D" and run: "project D e ls sides seq s = Inr s'"
    and small: "3 * length ls \<le> 2 ^ 64" and ok: "\<forall>l\<in>set ls. line_ok l"
  shows "cached (view_balance D) s' k = cached (view_balance D) s k + entry_moves (ne_tenant_id e) (line_value (map_of sides)) ls k"
    and "fst k \<noteq> TaxGrain \<Longrightarrow>
      cached (view_functional D) s' k = cached (view_functional D) s k + entry_moves (ne_tenant_id e) (line_functional (map_of sides)) ls k"
    and "cached (view_disputed D) s' k = cached (view_disputed D) s k + entry_moves (ne_tenant_id e) (line_disputed (map_of sides) k) ls k"
    and "(\<forall>v. view s k = Some v \<longrightarrow> view_ok D (fst k) v) \<Longrightarrow> view s' k = Some v \<Longrightarrow> view_ok D (fst k) v"
proof -
  have "cached (view_balance D) s' k = cached (view_balance D) s k + entry_moves (ne_tenant_id e) (line_value (map_of sides)) ls k \<and>
      (fst k \<noteq> TaxGrain \<longrightarrow>
        cached (view_functional D) s' k = cached (view_functional D) s k + entry_moves (ne_tenant_id e) (line_functional (map_of sides)) ls k) \<and>
      cached (view_disputed D) s' k = cached (view_disputed D) s k + entry_moves (ne_tenant_id e) (line_disputed (map_of sides) k) ls k \<and>
      ((\<forall>v. view s k = Some v \<longrightarrow> view_ok D (fst k) v) \<longrightarrow> view s' k = Some v \<longrightarrow> view_ok D (fst k) v)"
    using project_grain [OF assms, of k]
  proof
    assume "k \<notin> (\<Union>l\<in>set ls. set (line_keys (ne_tenant_id e) l)) \<and> view s' k = view s k"
    then show ?thesis by (simp add: cached_def entry_moves_absent)
  next
    assume "\<exists>g gs new. derived e sides ls gs \<and> g \<in> set gs \<and> grain_ready g \<and> grain_sort_key g = k \<and>
       view_step D seq g (view s k) new \<and> view s' k = Some new"
    then obtain g gs new where der: "derived e sides ls gs" "g \<in> set gs" and ready: "grain_ready g" and k: "grain_sort_key g = k"
      and step: "view_step D seq g (view s k) new" and new: "view s' k = Some new" by blast
    have t: "gd_table g = fst k" by (simp flip: k)
    have tab: "\<forall>v. view s k = Some v \<longrightarrow> table_ok (gd_table g) v" using view_table t by simp
    have amounts: "exval (gd_delta g) = entry_moves (ne_tenant_id e) (line_value (map_of sides)) ls k"
        "exval (gd_functional_delta g) = entry_moves (ne_tenant_id e) (line_functional (map_of sides)) ls k"
        "exval (gd_disputed_delta g) = entry_moves (ne_tenant_id e) (line_disputed (map_of sides) k) ls k"
      using der k unfolding derived_def by blast+
    have none: "entry_moves (ne_tenant_id e) (line_disputed (map_of sides) k) ls k = 0" if "fst k \<noteq> ArInvoiceGrain"
      using that by (intro entry_moves_zero) (simp add: line_disputed_def)
    note M = view_step_moves [OF D T ready tab step, unfolded amounts t]
    show ?thesis using M new none by (auto simp: cached_def)
  qed
  then show "cached (view_balance D) s' k = cached (view_balance D) s k + entry_moves (ne_tenant_id e) (line_value (map_of sides)) ls k"
    "fst k \<noteq> TaxGrain \<Longrightarrow>
      cached (view_functional D) s' k = cached (view_functional D) s k + entry_moves (ne_tenant_id e) (line_functional (map_of sides)) ls k"
    "cached (view_disputed D) s' k = cached (view_disputed D) s k + entry_moves (ne_tenant_id e) (line_disputed (map_of sides) k) ls k"
    "(\<forall>v. view s k = Some v \<longrightarrow> view_ok D (fst k) v) \<Longrightarrow> view s' k = Some v \<Longrightarrow> view_ok D (fst k) v"
    by blast+
qed

end
