(* ===== verification/Post_Steps.thy ===== *)
theory Post_Steps
  imports Engine Projection
begin

text \<open>
  What one attempt of the posting engine does to the database: it refuses and changes nothing, it
  replays the entry its key already has and changes nothing, or it takes one \<open>posting_step\<close>.
\<close>

section \<open>The idempotency gate\<close>

definition spec_hash :: "decimal_ops \<Rightarrow> engine_env \<Rightarrow> claim_spec \<Rightarrow> new_entry \<Rightarrow> new_line list \<Rightarrow> string" where
  "spec_hash D env spec e ls =
     (case cs_payload_hash_override spec of
        Some h \<Rightarrow> h | None \<Rightarrow> payload_hash D (ee_digest env) (ee_date_text env) e ls)"

definition claimable :: "dedup_table \<Rightarrow> dedup_key \<Rightarrow> bool" where
  "claimable t k \<longleftrightarrow> (case t k of None \<Rightarrow> True | Some row \<Rightarrow> dr_status row = STATUS_QUEUED)"

lemmas status_names = STATUS_CLAIMED_def STATUS_POSTED_def STATUS_QUEUED_def

lemma idempotency_gate_Inr:
  assumes "idempotency_gate D env spec e ls t = Inr (replay, t')"
  shows "(case replay of
      Some entry \<Rightarrow> t' = t \<and> (\<exists>row. t (dedup_key_of e) = Some row \<and> dr_status row = STATUS_POSTED \<and> dr_result_entry_id row = Some entry \<and>
        (cs_mode spec = Fresh \<longrightarrow> dr_payload_hash row = spec_hash D env spec e ls))
    | None \<Rightarrow> claimable t (dedup_key_of e) \<and> (\<exists>row. t' = t(dedup_key_of e \<mapsto> row) \<and>
        (cs_mode spec = Fresh \<longrightarrow> dr_payload_hash row = spec_hash D env spec e ls)))"
proof (cases "cs_mode spec")
  case Fresh
  with assms show ?thesis
    by (auto simp: idempotency_gate_def claim_def claim_with_status_def claimable_def spec_hash_def Let_def
        split: option.splits if_splits)
next
  case QueuedApply
  then obtain row where row: "t (dedup_key_of e) = Some row"
    using assms by (auto simp: idempotency_gate_def split: option.splits)
  have "t = t(dedup_key_of e \<mapsto> row)" using row by auto
  moreover have "replay = None \<and> t' = t \<and> dr_status row = STATUS_QUEUED \<or>
      (\<exists>entry. replay = Some entry \<and> t' = t \<and> dr_status row = STATUS_POSTED \<and> dr_result_entry_id row = Some entry)"
    using assms QueuedApply row by (auto simp: idempotency_gate_def split: option.splits if_splits)
  ultimately show ?thesis using row QueuedApply by (auto simp: claimable_def)
qed

text \<open>A key whose entry is posted replays, or conflicts, whatever else has changed.\<close>

lemma idempotency_gate_posted:
  assumes "t (dedup_key_of e) = Some row" "dr_status row = STATUS_POSTED" "dr_result_entry_id row = Some entry" "cs_mode spec = Fresh"
  shows "idempotency_gate D env spec e ls t =
    (if dr_payload_hash row = spec_hash D env spec e ls then Inr (Some entry, t) else Inl (Business D_IdempotencyConflict))"
  using assms by (auto simp: idempotency_gate_def claim_def claim_with_status_def spec_hash_def Let_def split: option.splits)

section \<open>Normal sides\<close>

definition account_side :: "(uuid \<Rightarrow> account_record option) \<Rightarrow> uuid \<Rightarrow> side option" where
  "account_side accounts a =
     (case accounts a of
        None \<Rightarrow> None
      | Some r \<Rightarrow> if ar_normal_side r = ''DR'' then Some Debit else if ar_normal_side r = ''CR'' then Some Credit else None)"

lemma load_normal_side_Inr: "load_normal_side accounts a = Inr sd \<Longrightarrow> account_side accounts a = Some sd"
  by (auto simp: load_normal_side_def account_side_def split: option.splits if_splits)

lemma load_normal_sides_Inr:
  assumes "load_normal_sides accounts ls sides = Inr out"
    and "\<And>a sd. map_of sides a = Some sd \<Longrightarrow> account_side accounts a = Some sd"
  shows "(\<forall>a sd. map_of out a = Some sd \<longrightarrow> account_side accounts a = Some sd) \<and>
    (\<forall>a. map_of sides a \<noteq> None \<longrightarrow> map_of out a \<noteq> None) \<and> (\<forall>l\<in>set ls. map_of out (account_id l) \<noteq> None)"
  using assms
proof (induction ls arbitrary: sides)
  case (Cons l ls)
  show ?case
  proof (cases "map_of sides (account_id l)")
    case None
    then obtain sd where sd: "load_normal_side accounts (account_id l) = Inr sd"
      and rest: "load_normal_sides accounts ls (AList.update (account_id l) sd sides) = Inr out" using Cons.prems(1) by auto
    have "account_side accounts a = Some x" if "map_of (AList.update (account_id l) sd sides) a = Some x" for a x
      using that Cons.prems(2) load_normal_side_Inr [OF sd] by (auto simp: update_conv' split: if_splits)
    note IH = Cons.IH [OF rest this]
    have keep: "map_of out a \<noteq> None" if "map_of sides a \<noteq> None" for a
      using IH [THEN conjunct2, THEN conjunct1, rule_format, of a] that by (simp add: update_conv')
    have here: "map_of out (account_id l) \<noteq> None"
      using IH [THEN conjunct2, THEN conjunct1, rule_format, of "account_id l"] by (simp add: update_conv')
    show ?thesis using IH [THEN conjunct1] IH [THEN conjunct2, THEN conjunct2] keep here by simp
  next
    case (Some x)
    then have rest: "load_normal_sides accounts ls sides = Inr out" using Cons.prems(1) by simp
    note IH = Cons.IH [OF rest Cons.prems(2)]
    have here: "map_of out (account_id l) \<noteq> None"
      using IH [THEN conjunct2, THEN conjunct1, rule_format, of "account_id l"] Some by simp
    show ?thesis using IH [THEN conjunct1] IH [THEN conjunct2, THEN conjunct1] IH [THEN conjunct2, THEN conjunct2] here by simp
  qed
qed simp

section \<open>The journal and the chain\<close>

definition link_hash :: "(bytes \<Rightarrow> bytes) \<Rightarrow> uuid \<Rightarrow> tip_row option \<Rightarrow> bytes" where
  "link_hash H tenant tip = (case tip of Some t \<Rightarrow> last_row_hash t | None \<Rightarrow> genesis_prev_hash H tenant)"

definition sealed_row :: "decimal_ops \<Rightarrow> (bytes \<Rightarrow> bytes) \<Rightarrow> int \<Rightarrow> new_entry \<Rightarrow> new_line list \<Rightarrow> tip_row option \<Rightarrow> entry_row" where
  "sealed_row D H seq e ls tip =
     (let prev = link_hash H (ne_tenant_id e) tip
      in (entry_row_of seq e)\<lparr>je_row_hash := Some (chain_row_hash D H e ls prev), je_prev_hash := Some prev,
           je_prev_entry_id := map_option last_entry_id tip, je_prev_period_id := map_option last_period_id tip\<rparr>)"

definition tip_of :: "decimal_ops \<Rightarrow> (bytes \<Rightarrow> bytes) \<Rightarrow> int \<Rightarrow> new_entry \<Rightarrow> new_line list \<Rightarrow> tip_row option \<Rightarrow> tip_row" where
  "tip_of D H seq e ls tip =
     \<lparr>last_row_hash = chain_row_hash D H e ls (link_hash H (ne_tenant_id e) tip), last_entry_id = ne_entry_id e,
      last_period_id = ne_period_id e, last_seq = seq\<rparr>"

lemma entry_key_of [simp]: "entry_key (entry_row_of seq e) = (ne_tenant_id e, ne_period_id e, ne_entry_id e)"
  by (simp add: entry_key_def entry_row_of_def)

lemma entry_admitted_new: "entry_admitted rows r \<Longrightarrow> entry_key r \<notin> entry_key ` set rows"
  by (simp add: entry_admitted_def)

lemma seal_appended:
  assumes new: "entry_key (entry_row_of seq e) \<notin> entry_key ` set rows"
    and run: "seal D H e ls seq \<lparr>j_entries = rows @ [entry_row_of seq e], j_lines = xs\<rparr> tips = Inr (j', tips')"
  shows "j' = \<lparr>j_entries = rows @ [sealed_row D H seq e ls (tips (ne_tenant_id e))], j_lines = xs\<rparr> \<and>
    tips' = tips(ne_tenant_id e \<mapsto> tip_of D H seq e ls (tips (ne_tenant_id e))) \<and>
    (\<forall>t. tips (ne_tenant_id e) = Some t \<longrightarrow> length (last_row_hash t) = 32)"
proof -
  have old: "map (seal_row (ne_tenant_id e, ne_period_id e, ne_entry_id e) h p tip) rows = rows" for h p tip
    using new by (intro map_idI) (auto simp: seal_row_def image_iff)
  have this_row: "seal_row (ne_tenant_id e, ne_period_id e, ne_entry_id e) h p tip (entry_row_of seq e) =
      (entry_row_of seq e)\<lparr>je_row_hash := Some h, je_prev_hash := Some p,
        je_prev_entry_id := map_option last_entry_id tip, je_prev_period_id := map_option last_period_id tip\<rparr>" for h p tip
    by (simp add: seal_row_def) (simp add: entry_row_of_def)
  show ?thesis
    using run by (auto simp: seal_def Let_def old this_row sealed_row_def tip_of_def link_hash_def split: option.splits if_splits)
qed

section \<open>One step\<close>

definition same_reference :: "'x ledger_db \<Rightarrow> 'x ledger_db \<Rightarrow> bool" where
  "same_reference db db' \<longleftrightarrow>
     db_accounts db' = db_accounts db \<and> db_locks db' = db_locks db \<and> db_registry db' = db_registry db \<and>
     db_freezes db' = db_freezes db \<and> db_periods db' = db_periods db"

definition posting_step :: "decimal_ops \<Rightarrow> (bytes \<Rightarrow> bytes) \<Rightarrow> int \<Rightarrow> new_entry \<Rightarrow> new_line list \<Rightarrow> 'x ledger_db \<Rightarrow> 'x ledger_db \<Rightarrow> bool" where
  "posting_step D H seq e ls db db' \<longleftrightarrow>
     balanced_lines (ne_entry_currency e) (map line_facts_of ls) \<and> length ls \<le> 1000 \<and>
     claimable (db_dedup db) (dedup_key_of e) \<and>
     (\<exists>row. db_dedup db' (dedup_key_of e) = Some row \<and> dr_status row = STATUS_POSTED \<and>
        dr_result_entry_id row = Some (ne_entry_id e)) \<and>
     (\<forall>k row. k \<noteq> dedup_key_of e \<and> db_dedup db k = Some row \<longrightarrow> db_dedup db' k = Some row) \<and>
     entry_admitted (j_entries (db_journal db)) (entry_row_of seq e) \<and>
     db_journal db' = \<lparr>j_entries = j_entries (db_journal db) @ [sealed_row D H seq e ls (db_tips db (ne_tenant_id e))],
       j_lines = j_lines (db_journal db) @ map (line_row_of D e) ls\<rparr> \<and>
     db_tips db' = (db_tips db)(ne_tenant_id e \<mapsto> tip_of D H seq e ls (db_tips db (ne_tenant_id e))) \<and>
     (\<forall>t. db_tips db (ne_tenant_id e) = Some t \<longrightarrow> length (last_row_hash t) = 32) \<and>
     (\<exists>sides. (\<forall>l\<in>set ls. map_of sides (account_id l) = account_side (db_accounts db) (account_id l) \<and>
          account_side (db_accounts db) (account_id l) \<noteq> None) \<and>
        project D e ls sides seq (db_caches db) = Inr (db_caches db')) \<and>
     same_reference db db'"

definition posted_gates :: "money_origin \<Rightarrow> new_entry \<Rightarrow> new_line list \<Rightarrow> 'x ledger_db \<Rightarrow> bool" where
  "posted_gates origin e ls db \<longleftrightarrow>
     db_locks db (ne_tenant_id e) \<noteq> Some True \<and> \<not> active_freeze (db_freezes db) (ne_tenant_id e) (ne_period_id e) \<and>
     db_periods db (ne_tenant_id e, ne_legal_entity_id e, ne_period_id e) = Some PERIOD_STATUS_OPEN \<and>
     (origin = Current \<longrightarrow> check_scales (db_registry db) (ne_tenant_id e) ls = Inr ()) \<and>
     policy_check (db_journal db) e ls = Inr ()"

lemma posting_gates_Inr:
  "posting_gates origin sc e ls db = Inr u \<Longrightarrow>
     \<not> active_freeze (db_freezes db) (ne_tenant_id e) (ne_period_id e) \<and>
     db_periods db (ne_tenant_id e, ne_legal_entity_id e, ne_period_id e) = Some PERIOD_STATUS_OPEN \<and>
     (origin = Current \<longrightarrow> check_scales (db_registry db) (ne_tenant_id e) ls = Inr ()) \<and>
     policy_check (db_journal db) e ls = Inr ()"
  by (auto simp: posting_gates_def freeze_check_def pin_open_def split: if_splits)

lemma finalize_Inr:
  "finalize now k entry t = Inr t' \<Longrightarrow> \<exists>row row'. t k = Some row \<and> t' = t(k \<mapsto> row') \<and> dr_status row' = STATUS_POSTED \<and>
     dr_result_entry_id row' = Some entry \<and> dr_payload_hash row' = dr_payload_hash row"
  by (auto simp: finalize_def split: option.splits)

lemma claim_keep: "t x = Some row \<Longrightarrow> snd (claim k hash t) x = Some row"
  by (auto simp: claim_def claim_with_status_def split: option.splits)

lemma run_claims_keep: "t k = Some row \<Longrightarrow> run_claims cs t k = Some row"
  by (induction cs t rule: run_claims.induct) (simp_all add: claim_keep)

lemma run_sidecar_keep: "run_sidecar sc before facts t x = Inr (u, y) \<Longrightarrow> t k = Some row \<Longrightarrow> u k = Some row"
  by (auto simp: run_sidecar_def run_claims_keep split: option.splits if_splits)

text \<open>The premise is the claim that the gate left in the table; a sidecar never changes a row that is there.\<close>

lemma posting_writes_Inr:
  assumes "posting_writes D env sides sc e ls db = Inr db'" "db_dedup db (dedup_key_of e) = Some row"
  shows "\<exists>j tips caches row'.
    insert_entry_with_lines D (ee_seq env) e ls (db_journal db) = Inr j \<and>
    project D e ls sides (ee_seq env) (db_caches db) = Inr caches \<and>
    seal D (ee_digest env) e ls (ee_seq env) j (db_tips db) = Inr (db_journal db', tips) \<and>
    db_tips db' = tips \<and> db_caches db' = caches \<and> same_reference db db' \<and>
    db_dedup db' (dedup_key_of e) = Some row' \<and>
    (\<forall>k x. k \<noteq> dedup_key_of e \<and> db_dedup db k = Some x \<longrightarrow> db_dedup db' k = Some x) \<and>
    dr_status row' = STATUS_POSTED \<and> dr_result_entry_id row' = Some (ne_entry_id e) \<and> dr_payload_hash row' = dr_payload_hash row"
proof -
  let ?facts = "\<lparr>pf_entry_id = ne_entry_id e, pf_created_seq = ee_seq env\<rparr>"
  obtain j t x caches u y j' tips dedup where w: "insert_entry_with_lines D (ee_seq env) e ls (db_journal db) = Inr j"
    "project D e ls sides (ee_seq env) (db_caches db) = Inr caches"
    "seal D (ee_digest env) e ls (ee_seq env) j (db_tips db) = Inr (j', tips)"
    "finalize (ee_now env) (dedup_key_of e) (ne_entry_id e) u = Inr dedup"
    "run_sidecar sc True ?facts (db_dedup db) (db_counters db) = Inr (t, x)" "run_sidecar sc False ?facts t x = Inr (u, y)"
    "db' = db\<lparr>db_dedup := dedup, db_journal := j', db_caches := caches, db_tips := tips, db_counters := y\<rparr>"
    using assms(1) by (auto simp: posting_writes_def Let_def)
  have keep: "u k = Some z" if "db_dedup db k = Some z" for k z
    by (rule run_sidecar_keep [OF w(6) run_sidecar_keep [OF w(5) that]])
  from finalize_Inr [OF w(4)] keep [OF assms(2)] obtain row' where
    "dedup = u(dedup_key_of e \<mapsto> row')" "dr_status row' = STATUS_POSTED"
    "dr_result_entry_id row' = Some (ne_entry_id e)" "dr_payload_hash row' = dr_payload_hash row" by auto
  with w keep show ?thesis by (auto simp: same_reference_def)
qed

text \<open>The whole attempt.\<close>

lemma attempt_post_Inr:
  assumes D: "decimal_contract D" and run: "attempt_post D env sc spec origin e ls db = Inr (r, db')"
  shows "pr_replayed r \<and> db' = db \<and> (\<exists>row. db_dedup db (dedup_key_of e) = Some row \<and> dr_status row = STATUS_POSTED \<and>
        dr_result_entry_id row = Some (pr_entry_id r) \<and> (cs_mode spec = Fresh \<longrightarrow> dr_payload_hash row = spec_hash D env spec e ls)) \<or>
     r = \<lparr>pr_entry_id = ne_entry_id e, pr_created_seq = ee_seq env, pr_replayed = False\<rparr> \<and> posted_gates origin e ls db \<and>
     posting_step D (ee_digest env) (ee_seq env) e ls db db' \<and>
     (cs_mode spec = Fresh \<longrightarrow> map_option dr_payload_hash (db_dedup db' (dedup_key_of e)) = Some (spec_hash D env spec e ls))"
proof -
  let ?k = "dedup_key_of e"
  obtain sides outcome where prep: "prepare_attempt D (is_tenant_posting_locked db (ne_tenant_id e)) (ee_now env)
        (ne_posted_at_utc e) (ne_entry_currency e) ls = Inr ()"
    and sides: "load_normal_sides (db_accounts db) ls [] = Inr sides"
    and txn: "post_in_txn D env sides sc spec origin e ls db = Inr (outcome, db')" and r: "r = reference_of outcome"
    using run by (auto simp: attempt_post_def)
  have "length ls \<le> 1000" using prep by (auto simp: prepare_attempt_def MAX_LINES_def split: if_splits)
  then have ls: "balanced_lines (ne_entry_currency e) (map line_facts_of ls)" "length ls \<le> 1000" "db_locks db (ne_tenant_id e) \<noteq> Some True"
    using prep prepare_attempt_Inr [OF D, of ls] by (auto simp: is_tenant_posting_locked_def)
  obtain replay dedup where gate: "idempotency_gate D env spec e ls (db_dedup db) = Inr (replay, dedup)"
    using txn by (auto simp: post_in_txn_def)
  show ?thesis
  proof (cases replay)
    case (Some entry)
    with gate txn r idempotency_gate_Inr [OF gate] show ?thesis by (auto simp: post_in_txn_def)
  next
    case None
    then obtain row where dedup: "claimable (db_dedup db) ?k" "dedup = (db_dedup db)(?k \<mapsto> row)"
      "cs_mode spec = Fresh \<longrightarrow> dr_payload_hash row = spec_hash D env spec e ls"
      using idempotency_gate_Inr [OF gate] by auto
    let ?db = "db\<lparr>db_dedup := dedup\<rparr>"
    have gates: "posting_gates origin sc e ls ?db = Inr ()" and "posting_writes D env sides sc e ls ?db = Inr db'"
      and out: "outcome = Posted (ne_entry_id e) (ee_seq env)"
      using txn gate None by (auto simp: post_in_txn_def Let_def)
    from posting_writes_Inr [OF this(2), of row] obtain j row' where
      w: "insert_entry_with_lines D (ee_seq env) e ls (db_journal db) = Inr j"
      "project D e ls sides (ee_seq env) (db_caches db) = Inr (db_caches db')"
      "seal D (ee_digest env) e ls (ee_seq env) j (db_tips db) = Inr (db_journal db', db_tips db')"
      "same_reference db db'" "db_dedup db' ?k = Some row'"
      "dr_status row' = STATUS_POSTED" "dr_result_entry_id row' = Some (ne_entry_id e)" "dr_payload_hash row' = dr_payload_hash row"
      "\<forall>k x. k \<noteq> ?k \<and> db_dedup db k = Some x \<longrightarrow> db_dedup db' k = Some x"
      using dedup(2) by (auto simp: same_reference_def)
    note J = insert_entry_with_lines_Inr [OF w(1)]
    note new = entry_admitted_new [OF J [THEN conjunct1]]
    note S = seal_appended [OF new w(3) [unfolded J [THEN conjunct2]]]
    note sd = load_normal_sides_Inr [OF sides]
    have "map_of sides (account_id l) = account_side (db_accounts db) (account_id l) \<and>
        account_side (db_accounts db) (account_id l) \<noteq> None" if l: "l \<in> set ls" for l
    proof -
      obtain x where x: "map_of sides (account_id l) = Some x" using sd l by auto
      with sd have "account_side (db_accounts db) (account_id l) = Some x" by simp
      with x show ?thesis by simp
    qed
    with w(2) have "\<exists>sides. (\<forall>l\<in>set ls. map_of sides (account_id l) = account_side (db_accounts db) (account_id l) \<and>
          account_side (db_accounts db) (account_id l) \<noteq> None) \<and>
        project D e ls sides (ee_seq env) (db_caches db) = Inr (db_caches db')" by blast
    moreover note w(9)
    ultimately have "posting_step D (ee_digest env) (ee_seq env) e ls db db'"
      unfolding posting_step_def using ls dedup(1) w(4-7) J S by simp
    moreover have "posted_gates origin e ls db" using posting_gates_Inr [OF gates] ls(3) by (simp add: posted_gates_def)
    ultimately show ?thesis using r out dedup(3) w(5,8) by simp
  qed
qed

end
