(* ===== verification/Ledger_State.thy ===== *)
theory Ledger_State
  imports Post_Steps
begin

text \<open>
  The states the posting engine can reach, and the abstract ledger they implement: the list of the entries
  posted so far.  The journal, the chain tips and every cached balance are functions of that list, and each
  step of the engine appends one entry to it or leaves it alone.
\<close>

section \<open>Reachable states\<close>

text \<open>
  What happens between postings: accounts are provisioned or closed, periods open and close, freezes are set
  and cleared, other services claim and finish keys of their own, and their counters move.  The normal side of an
  account never changes, nor does a claim whose entry is posted.
\<close>

definition upkeep :: "'x ledger_db \<Rightarrow> 'x ledger_db \<Rightarrow> bool" where
  "upkeep db db' \<longleftrightarrow>
     db_journal db' = db_journal db \<and> db_caches db' = db_caches db \<and> db_tips db' = db_tips db \<and>
     (\<forall>k row. db_dedup db k = Some row \<and> dr_status row = STATUS_POSTED \<longrightarrow> db_dedup db' k = Some row) \<and>
     (\<forall>a. account_side (db_accounts db) a \<noteq> None \<longrightarrow> account_side (db_accounts db') a = account_side (db_accounts db) a)"

definition blank :: "'x ledger_db \<Rightarrow> bool" where
  "blank db \<longleftrightarrow> db_journal db = \<lparr>j_entries = [], j_lines = []\<rparr> \<and> db_caches db = empty_caches \<and>
     db_tips db = Map.empty \<and> db_dedup db = Map.empty"

text \<open>The sequence number of an entry comes from an identity column of the database, which only grows.\<close>

definition fresh_seq :: "engine_env \<Rightarrow> 'x ledger_db \<Rightarrow> bool" where
  "fresh_seq env db \<longleftrightarrow> list_all (\<lambda>r. je_created_seq r < ee_seq env) (j_entries (db_journal db))"

inductive ledger_step :: "decimal_ops \<Rightarrow> (bytes \<Rightarrow> bytes) \<Rightarrow> 'x ledger_db \<Rightarrow> 'x ledger_db \<Rightarrow> bool" for D H where
  posting: "ee_digest env = H \<Longrightarrow> fresh_seq env db \<Longrightarrow> \<forall>l\<in>set ls. line_storable l \<Longrightarrow> post_once D env sc spec e ls db = Inr (r, db') \<Longrightarrow>
    ledger_step D H db db'"
| reversal: "ee_digest env = H \<Longrightarrow> fresh_seq env db \<Longrightarrow> post_reversal_once D env sc spec e db = Inr (r, db') \<Longrightarrow> ledger_step D H db db'"
| intake: "ledger_step D H db (db\<lparr>db_dedup := snd (claim_queued k h (db_dedup db))\<rparr>)"
| other: "upkeep db db' \<Longrightarrow> ledger_step D H db db'"

abbreviation ledger_run :: "decimal_ops \<Rightarrow> (bytes \<Rightarrow> bytes) \<Rightarrow> 'x ledger_db \<Rightarrow> 'x ledger_db \<Rightarrow> bool" where
  "ledger_run D H \<equiv> (ledger_step D H)\<^sup>*\<^sup>*"

definition reachable :: "decimal_ops \<Rightarrow> (bytes \<Rightarrow> bytes) \<Rightarrow> 'x ledger_db \<Rightarrow> bool" where
  "reachable D H db \<longleftrightarrow> (\<exists>db0. blank db0 \<and> ledger_run D H db0 db)"

section \<open>The abstract ledger\<close>

type_synonym posting = "int \<times> new_entry \<times> new_line list"

fun advance_tips :: "decimal_ops \<Rightarrow> (bytes \<Rightarrow> bytes) \<Rightarrow> posting list \<Rightarrow> tip_table \<Rightarrow> tip_table" where
  "advance_tips D H [] tips = tips"
| "advance_tips D H ((seq, e, ls) # h) tips =
     advance_tips D H h (tips(ne_tenant_id e \<mapsto> tip_of D H seq e ls (tips (ne_tenant_id e))))"

fun sealed_rows :: "decimal_ops \<Rightarrow> (bytes \<Rightarrow> bytes) \<Rightarrow> posting list \<Rightarrow> tip_table \<Rightarrow> entry_row list" where
  "sealed_rows D H [] tips = []"
| "sealed_rows D H ((seq, e, ls) # h) tips =
     sealed_row D H seq e ls (tips (ne_tenant_id e)) #
     sealed_rows D H h (tips(ne_tenant_id e \<mapsto> tip_of D H seq e ls (tips (ne_tenant_id e))))"

definition posted_line_rows :: "decimal_ops \<Rightarrow> posting \<Rightarrow> line_row list" where
  "posted_line_rows D p = map (line_row_of D (fst (snd p))) (snd (snd p))"

definition history_moves :: "(new_line \<Rightarrow> rat) \<Rightarrow> posting list \<Rightarrow> grain_key \<Rightarrow> rat" where
  "history_moves v h k = (\<Sum>p\<leftarrow>h. entry_moves (ne_tenant_id (fst (snd p))) v (snd (snd p)) k)"

definition posting_key :: "posting \<Rightarrow> uuid \<times> string \<times> uuid" where
  "posting_key p = (ne_tenant_id (fst (snd p)), ne_period_id (fst (snd p)), ne_entry_id (fst (snd p)))"

text \<open>The pair a reversal names; the tables admit one reversal per original.\<close>

definition reversed_by :: "posting \<Rightarrow> (uuid \<times> string \<times> uuid) option" where
  "reversed_by p =
     (case (ne_reverses_entry_id (fst (snd p)), ne_reverses_period_id (fst (snd p))) of
        (Some original, Some period) \<Rightarrow> Some (ne_tenant_id (fst (snd p)), period, original) | _ \<Rightarrow> None)"

definition sound_posting :: "(uuid \<Rightarrow> account_record option) \<Rightarrow> posting \<Rightarrow> bool" where
  "sound_posting accounts p \<longleftrightarrow>
     balanced_lines (ne_entry_currency (fst (snd p))) (map line_facts_of (snd (snd p))) \<and> length (snd (snd p)) \<le> 1000 \<and>
     (\<forall>l\<in>set (snd (snd p)). line_storable l \<and> account_side accounts (account_id l) \<noteq> None)"

definition keys_ok :: "posting list \<Rightarrow> bool" where
  "keys_ok h \<longleftrightarrow> sorted_wrt (<) (map fst h) \<and> distinct (map posting_key h) \<and> distinct (map (dedup_key_of \<circ> fst \<circ> snd) h) \<and>
     distinct (filter (\<lambda>r. r \<noteq> None) (map reversed_by h))"

definition dedup_ok :: "posting list \<Rightarrow> dedup_table \<Rightarrow> bool" where
  "dedup_ok h t \<longleftrightarrow>
     (\<forall>p\<in>set h. \<exists>row. t (dedup_key_of (fst (snd p))) = Some row \<and> dr_status row = STATUS_POSTED \<and>
        dr_result_entry_id row = Some (ne_entry_id (fst (snd p))))"

definition caches_tie :: "decimal_ops \<Rightarrow> (uuid \<Rightarrow> account_record option) \<Rightarrow> posting list \<Rightarrow> balance_caches \<Rightarrow> bool" where
  "caches_tie D accounts h s \<longleftrightarrow>
     (\<forall>k. cached (view_balance D) s k = history_moves (line_value (account_side accounts)) h k) \<and>
     (\<forall>k. fst k \<noteq> TaxGrain \<longrightarrow> cached (view_functional D) s k = history_moves (line_functional (account_side accounts)) h k) \<and>
     (\<forall>k. cached (view_disputed D) s k = history_moves (line_disputed (account_side accounts) k) h k)"

definition implements :: "decimal_ops \<Rightarrow> (bytes \<Rightarrow> bytes) \<Rightarrow> 'x ledger_db \<Rightarrow> posting list \<Rightarrow> bool" where
  "implements D H db h \<longleftrightarrow>
     db_journal db = \<lparr>j_entries = sealed_rows D H h Map.empty, j_lines = concat (map (posted_line_rows D) h)\<rparr> \<and>
     db_tips db = advance_tips D H h Map.empty \<and>
     (\<forall>p\<in>set h. sound_posting (db_accounts db) p) \<and> keys_ok h \<and> dedup_ok h (db_dedup db) \<and>
     caches_tie D (db_accounts db) h (db_caches db) \<and> caches_ok D (db_caches db)"

lemma advance_tips_snoc:
  "advance_tips D H (h @ [(seq, e, ls)]) tips =
     (advance_tips D H h tips)(ne_tenant_id e \<mapsto> tip_of D H seq e ls (advance_tips D H h tips (ne_tenant_id e)))"
  by (induction D H h tips rule: advance_tips.induct) (simp_all only: append.simps advance_tips.simps)

lemma sealed_rows_snoc:
  "sealed_rows D H (h @ [(seq, e, ls)]) tips =
     sealed_rows D H h tips @ [sealed_row D H seq e ls (advance_tips D H h tips (ne_tenant_id e))]"
  by (induction D H h tips rule: sealed_rows.induct) (simp_all only: append.simps advance_tips.simps sealed_rows.simps)

lemma sealed_row_simps [simp]:
  "entry_key (sealed_row D H seq e ls tip) = (ne_tenant_id e, ne_period_id e, ne_entry_id e)"
  "je_tenant_id (sealed_row D H seq e ls tip) = ne_tenant_id e" "je_entry_id (sealed_row D H seq e ls tip) = ne_entry_id e"
  "je_period_id (sealed_row D H seq e ls tip) = ne_period_id e"
  "je_reverses_entry_id (sealed_row D H seq e ls tip) = ne_reverses_entry_id e"
  "je_reverses_period_id (sealed_row D H seq e ls tip) = ne_reverses_period_id e"
  "je_row_hash (sealed_row D H seq e ls tip) = Some (chain_row_hash D H e ls (link_hash H (ne_tenant_id e) tip))"
  "je_prev_hash (sealed_row D H seq e ls tip) = Some (link_hash H (ne_tenant_id e) tip)"
  "je_prev_entry_id (sealed_row D H seq e ls tip) = map_option last_entry_id tip"
  "je_prev_period_id (sealed_row D H seq e ls tip) = map_option last_period_id tip"
  "je_created_seq (sealed_row D H seq e ls tip) = seq"
  by (simp_all add: sealed_row_def Let_def entry_key_def entry_row_of_def)

lemma sealed_rows_keys: "map entry_key (sealed_rows D H h tips) = map posting_key h"
  by (induction h arbitrary: tips) (auto simp: posting_key_def)

lemma sealed_rows_seqs: "map je_created_seq (sealed_rows D H h tips) = map fst h"
  by (induction h arbitrary: tips) auto

lemma sealed_rows_set: "r \<in> set (sealed_rows D H h tips) \<Longrightarrow> \<exists>seq e ls tip. (seq, e, ls) \<in> set h \<and> r = sealed_row D H seq e ls tip"
proof (induction h arbitrary: tips)
  case (Cons p h)
  obtain seq e ls where p: "p = (seq, e, ls)" by (cases p)
  let ?tips = "tips(ne_tenant_id e \<mapsto> tip_of D H seq e ls (tips (ne_tenant_id e)))"
  from Cons.prems p consider "r = sealed_row D H seq e ls (tips (ne_tenant_id e))" | "r \<in> set (sealed_rows D H h ?tips)" by auto
  then show ?case
  proof cases
    case 2
    from Cons.IH [OF 2] show ?thesis by (metis list.set_intros(2))
  qed (use p in \<open>metis list.set_intros(1)\<close>)
qed simp

lemma sealed_rows_member: "(seq, e, ls) \<in> set h \<Longrightarrow> \<exists>tip. sealed_row D H seq e ls tip \<in> set (sealed_rows D H h tips)"
proof (induction h arbitrary: tips)
  case (Cons p h)
  obtain s f ms where p: "p = (s, f, ms)" by (cases p)
  let ?tips = "tips(ne_tenant_id f \<mapsto> tip_of D H s f ms (tips (ne_tenant_id f)))"
  have "set (sealed_rows D H (p # h) tips) = insert (sealed_row D H s f ms (tips (ne_tenant_id f))) (set (sealed_rows D H h ?tips))"
    using p by simp
  with Cons.IH [of ?tips] Cons.prems p show ?case by (metis insertCI prod.inject set_ConsD)
qed simp

lemma history_moves_snoc:
  "history_moves v (h @ [(seq, e, ls)]) k = history_moves v h k + entry_moves (ne_tenant_id e) v ls k"
  by (simp add: history_moves_def)

lemma entry_moves_cong: "(\<And>l. l \<in> set ls \<Longrightarrow> v l = w l) \<Longrightarrow> entry_moves t v ls k = entry_moves t w ls k"
  unfolding entry_moves_def by (induction ls) simp_all

lemma history_moves_cong:
  "(\<And>p l. p \<in> set h \<Longrightarrow> l \<in> set (snd (snd p)) \<Longrightarrow> v l = w l) \<Longrightarrow> history_moves v h k = history_moves w h k"
  by (auto simp: history_moves_def intro!: arg_cong [where f = sum_list] map_cong entry_moves_cong)

lemma line_value_cong: "n (account_id l) = m (account_id l) \<Longrightarrow> line_value n l = line_value m l"
    "n (account_id l) = m (account_id l) \<Longrightarrow> line_functional n l = line_functional m l"
    "n (account_id l) = m (account_id l) \<Longrightarrow> line_disputed n k l = line_disputed m k l"
  by (simp_all add: line_value_def line_functional_def line_disputed_def split: option.splits)

section \<open>Every step keeps the abstraction\<close>

lemma claimable_unposted:
  assumes "dedup_ok h t" "claimable t k" "p \<in> set h"
  shows "dedup_key_of (fst (snd p)) \<noteq> k"
proof
  assume "dedup_key_of (fst (snd p)) = k"
  with assms(1,3) obtain row where "t k = Some row" "dr_status row = STATUS_POSTED" by (auto simp: dedup_ok_def)
  with assms(2) show False by (simp add: claimable_def status_names)
qed

lemma dedup_ok_kept:
  assumes "dedup_ok h t" "\<And>p row. p \<in> set h \<Longrightarrow> t (dedup_key_of (fst (snd p))) = Some row \<Longrightarrow> dr_status row = STATUS_POSTED \<Longrightarrow>
    u (dedup_key_of (fst (snd p))) = Some row"
  shows "dedup_ok h u"
  using assms unfolding dedup_ok_def by blast

lemma keys_ok_snoc:
  assumes "keys_ok h" "dedup_ok h t" "claimable t (dedup_key_of e)"
    and admitted: "entry_admitted (sealed_rows D H h Map.empty) (entry_row_of seq e)"
    and seq: "list_all (\<lambda>r. je_created_seq r < seq) (sealed_rows D H h Map.empty)"
  shows "keys_ok (h @ [(seq, e, ls)])"
proof -
  let ?p = "(seq, e, ls)"
  have key: "posting_key ?p \<notin> set (map posting_key h)"
    using admitted by (simp add: entry_admitted_def posting_key_def flip: sealed_rows_keys [of D H h Map.empty])
  have claim: "dedup_key_of (fst (snd p)) \<noteq> dedup_key_of e" if "p \<in> set h" for p
    using claimable_unposted [OF assms(2,3) that] .
  have rev_once: "reversed_by ?p \<noteq> reversed_by p" if p: "p \<in> set h" and some: "reversed_by ?p \<noteq> None" for p
  proof
    assume eq: "reversed_by ?p = reversed_by p"
    obtain s f ms where pe: "p = (s, f, ms)" by (cases p)
    from p pe obtain tip where row: "sealed_row D H s f ms tip \<in> set (sealed_rows D H h Map.empty)"
      using sealed_rows_member by metis
    have "(ne_tenant_id f, ne_reverses_period_id f, ne_reverses_entry_id f) = (ne_tenant_id e, ne_reverses_period_id e, ne_reverses_entry_id e)"
      "ne_reverses_entry_id e \<noteq> None"
      using eq some pe by (auto simp: reversed_by_def split: option.splits)
    with row admitted show False by (force simp: entry_admitted_def entry_row_of_def)
  qed
  have less: "fst p < seq" if "p \<in> set h" for p
  proof -
    have "fst p \<in> set (map je_created_seq (sealed_rows D H h Map.empty))" using that by (simp add: sealed_rows_seqs)
    with seq show ?thesis by (auto simp: list_all_iff)
  qed
  have old: "sorted_wrt (<) (map fst h)" "distinct (map posting_key h)" "distinct (map (dedup_key_of \<circ> fst \<circ> snd) h)"
    "distinct (filter (\<lambda>r. r \<noteq> None) (map reversed_by h))" using assms(1) by (simp_all add: keys_ok_def)
  have "sorted_wrt (<) (map fst (h @ [?p]))" using old(1) less by (auto simp: sorted_wrt_append)
  moreover have "distinct (map posting_key (h @ [?p]))" using old(2) key by simp
  moreover have "distinct (map (dedup_key_of \<circ> fst \<circ> snd) (h @ [?p]))" using old(3) claim by force
  moreover have "distinct (filter (\<lambda>r. r \<noteq> None) (map reversed_by (h @ [?p])))"
  proof (cases "reversed_by ?p")
    case (Some r)
    then have "Some r \<notin> set (map reversed_by h)" using rev_once by force
    with Some old(4) show ?thesis by simp
  qed (use old(4) in simp)
  ultimately show ?thesis by (simp add: keys_ok_def)
qed

lemma caches_step:
  assumes D: "decimal_contract D" and T: "text_contract D" and tie: "caches_tie D accounts h s" and ok: "caches_ok D s"
    and run: "project D e ls sides seq s = Inr s'" and len: "length ls \<le> 1000" and lines: "\<forall>l\<in>set ls. line_storable l"
    and sides: "\<forall>l\<in>set ls. map_of sides (account_id l) = account_side accounts (account_id l)"
  shows "caches_tie D accounts (h @ [(seq, e, ls)]) s'" "caches_ok D s'"
proof -
  have small: "3 * length ls \<le> 2 ^ 64" using len by simp
  have "\<forall>l\<in>set ls. line_ok l" using lines by (auto simp: line_ok_def line_storable_def)
  note M = project_moves [OF D T run small this]
  have cong: "entry_moves t (line_value (map_of sides)) ls k = entry_moves t (line_value (account_side accounts)) ls k"
    "entry_moves t (line_functional (map_of sides)) ls k = entry_moves t (line_functional (account_side accounts)) ls k"
    "entry_moves t (line_disputed (map_of sides) k) ls k = entry_moves t (line_disputed (account_side accounts) k) ls k" for t k
    using sides by (auto intro!: entry_moves_cong line_value_cong)
  show "caches_tie D accounts (h @ [(seq, e, ls)]) s'"
    unfolding caches_tie_def
  proof (intro conjI allI impI)
    fix k :: grain_key
    show "cached (view_balance D) s' k = history_moves (line_value (account_side accounts)) (h @ [(seq, e, ls)]) k"
      using M(1) [of k] tie by (simp only: caches_tie_def cong history_moves_snoc)
    show "cached (view_disputed D) s' k = history_moves (line_disputed (account_side accounts) k) (h @ [(seq, e, ls)]) k"
      using M(3) [of k] tie by (simp only: caches_tie_def cong history_moves_snoc)
    show "cached (view_functional D) s' k = history_moves (line_functional (account_side accounts)) (h @ [(seq, e, ls)]) k"
      if "fst k \<noteq> TaxGrain"
      using M(2) [OF that] tie [unfolded caches_tie_def, THEN conjunct2, THEN conjunct1, rule_format, OF that]
      by (simp only: cong history_moves_snoc)
  qed
  show "caches_ok D s'"
    unfolding caches_ok_def
  proof (intro allI impI)
    fix k :: grain_key and v :: grain_view
    assume "view s' k = Some v"
    with M(4) [of k v] ok [unfolded caches_ok_def, rule_format, of k] show "view_ok D (fst k) v" by blast
  qed
qed

lemma implements_step:
  assumes D: "decimal_contract D" and T: "text_contract D" and old: "implements D H db h"
    and step: "posting_step D H seq e ls db db'" and lines: "\<forall>l\<in>set ls. line_storable l"
    and seq: "list_all (\<lambda>r. je_created_seq r < seq) (j_entries (db_journal db))"
  shows "implements D H db' (h @ [(seq, e, ls)])"
proof -
  obtain row where row: "db_dedup db' (dedup_key_of e) = Some row" "dr_status row = STATUS_POSTED"
    "dr_result_entry_id row = Some (ne_entry_id e)"
    using step [unfolded posting_step_def] by blast
  have kept: "\<forall>k row. k \<noteq> dedup_key_of e \<and> db_dedup db k = Some row \<longrightarrow> db_dedup db' k = Some row"
    using step [unfolded posting_step_def] by blast
  obtain sides where sides: "\<forall>l\<in>set ls. map_of sides (account_id l) = account_side (db_accounts db) (account_id l) \<and>
      account_side (db_accounts db) (account_id l) \<noteq> None" "project D e ls sides seq (db_caches db) = Inr (db_caches db')"
    using step [unfolded posting_step_def] by blast
  have S: "balanced_lines (ne_entry_currency e) (map line_facts_of ls)" "length ls \<le> 1000"
    "claimable (db_dedup db) (dedup_key_of e)" "entry_admitted (j_entries (db_journal db)) (entry_row_of seq e)"
    "db_journal db' = \<lparr>j_entries = j_entries (db_journal db) @ [sealed_row D H seq e ls (db_tips db (ne_tenant_id e))],
       j_lines = j_lines (db_journal db) @ map (line_row_of D e) ls\<rparr>"
    "db_tips db' = (db_tips db)(ne_tenant_id e \<mapsto> tip_of D H seq e ls (db_tips db (ne_tenant_id e)))"
    "db_accounts db' = db_accounts db"
    using step [unfolded posting_step_def same_reference_def] by blast+
  have I: "db_journal db = \<lparr>j_entries = sealed_rows D H h Map.empty, j_lines = concat (map (posted_line_rows D) h)\<rparr>"
    "db_tips db = advance_tips D H h Map.empty" "\<forall>p\<in>set h. sound_posting (db_accounts db) p" "keys_ok h" "dedup_ok h (db_dedup db)"
    "caches_tie D (db_accounts db) h (db_caches db)" "caches_ok D (db_caches db)"
    using old [unfolded implements_def] by blast+
  have sides': "\<forall>l\<in>set ls. map_of sides (account_id l) = account_side (db_accounts db) (account_id l)" using sides(1) by blast
  have "sound_posting (db_accounts db) (seq, e, ls)" using S(1,2) sides(1) lines by (simp add: sound_posting_def)
  moreover have "dedup_ok (h @ [(seq, e, ls)]) (db_dedup db')"
  proof -
    have "dedup_ok h (db_dedup db')"
      using kept claimable_unposted [OF I(5) S(3)] by (intro dedup_ok_kept [OF I(5)]) blast
    then show ?thesis using row by (simp add: dedup_ok_def)
  qed
  ultimately show ?thesis
    unfolding implements_def S(5-7)
    using I caches_step [OF D T I(6,7) sides(2) S(2) lines sides'] keys_ok_snoc [OF I(4,5) S(3), of D H seq ls] S(4) seq
    by (simp add: sealed_rows_snoc advance_tips_snoc posted_line_rows_def)
qed

lemma implements_intake:
  assumes "implements D H db h"
  shows "implements D H (db\<lparr>db_dedup := snd (claim_queued k hash (db_dedup db))\<rparr>) h"
proof -
  have "t x = Some row \<Longrightarrow> snd (claim_queued k hash t) x = Some row" for t x row
    by (auto simp: claim_queued_def claim_with_status_def split: option.splits)
  then have "dedup_ok h (snd (claim_queued k hash t))" if "dedup_ok h t" for t by (rule dedup_ok_kept [OF that])
  then show ?thesis using assms by (simp add: implements_def)
qed

lemma implements_upkeep:
  assumes old: "implements D H db h" and keep: "upkeep db db'"
  shows "implements D H db' h"
proof -
  have sides: "account_side (db_accounts db') (account_id l) = account_side (db_accounts db) (account_id l)"
      "account_side (db_accounts db) (account_id l) \<noteq> None" if "p \<in> set h" "l \<in> set (snd (snd p))" for p l
    using that old keep by (auto simp: implements_def upkeep_def sound_posting_def)
  have "\<forall>p\<in>set h. sound_posting (db_accounts db') p"
    using old sides by (auto simp: implements_def sound_posting_def)
  moreover have "caches_tie D (db_accounts db') h (db_caches db)"
  proof -
    have same: "history_moves (line_value (account_side (db_accounts db'))) h k = history_moves (line_value (account_side (db_accounts db))) h k"
      "history_moves (line_functional (account_side (db_accounts db'))) h k = history_moves (line_functional (account_side (db_accounts db))) h k"
      "history_moves (line_disputed (account_side (db_accounts db')) k) h k = history_moves (line_disputed (account_side (db_accounts db)) k) h k" for k
      using sides by (auto intro!: history_moves_cong line_value_cong)
    have "caches_tie D (db_accounts db) h (db_caches db)" using old by (simp add: implements_def)
    then show ?thesis unfolding caches_tie_def same .
  qed
  moreover have "dedup_ok h (db_dedup db')"
  proof -
    have "dedup_ok h (db_dedup db)" using old by (simp add: implements_def)
    then show ?thesis
      by (rule dedup_ok_kept) (rule keep [unfolded upkeep_def, THEN conjunct2, THEN conjunct2, THEN conjunct2, THEN conjunct1, rule_format], simp)
  qed
  ultimately show ?thesis using old keep by (simp add: implements_def upkeep_def)
qed

lemma map_result_member: "map_result f xs = Inr ys \<Longrightarrow> y \<in> set ys \<Longrightarrow> \<exists>x\<in>set xs. f x = Inr y"
  by (induction xs arbitrary: ys) auto

lemma read_lines_storable:
  assumes D: "decimal_contract D" and T: "text_contract D" and I: "implements D H db h"
    and run: "read_lines_to_reverse D (db_journal db) t original period = Inr (snapshot, ls)"
  shows "\<forall>l\<in>set ls. line_storable l"
proof
  fix l
  assume l: "l \<in> set ls"
  have "map_result (decode_line D) (entry_lines (db_journal db) t period original) = Inr ls"
    using run by (auto simp: read_lines_to_reverse_def Let_def split: if_splits)
  from map_result_member [OF this l] obtain r where r: "r \<in> set (j_lines (db_journal db))" "decode_line D r = Inr l"
    by (auto simp: entry_lines_def)
  obtain e ms m where "m \<in> set ms" "line_storable m" "r = line_row_of D e m"
    using r(1) I by (auto simp: implements_def posted_line_rows_def sound_posting_def)
  with r(2) show "line_storable l" by (simp add: decode_line_stored [OF D T])
qed

lemma flip_journal_lines_set: "l \<in> set (flip_journal_lines fresh n ls) \<Longrightarrow> \<exists>m\<in>set ls. \<exists>i. l = m\<lparr>line_id := i, side := flip (side m)\<rparr>"
  by (induction ls arbitrary: n) auto

lemma flip_storable: "\<forall>l\<in>set ls. line_storable l \<Longrightarrow> \<forall>l\<in>set (flip_journal_lines fresh n ls). line_storable l"
  by (auto simp: line_storable_def dest!: flip_journal_lines_set)

lemma view_empty: "view empty_caches k = None"
  by (cases "(empty_caches, k)" rule: view.cases) (simp_all add: empty_caches_def)

text \<open>A step of the ledger appends to the abstract ledger, at most one entry, and never touches a posted claim.\<close>

definition extends :: "decimal_ops \<Rightarrow> (bytes \<Rightarrow> bytes) \<Rightarrow> posting list \<Rightarrow> 'x ledger_db \<Rightarrow> 'x ledger_db \<Rightarrow> bool" where
  "extends D H h db db' \<longleftrightarrow>
     (\<exists>h'. implements D H db' (h @ h')) \<and>
     (\<forall>k row. db_dedup db k = Some row \<and> dr_status row = STATUS_POSTED \<longrightarrow> db_dedup db' k = Some row)"

lemma extends_attempt:
  assumes D: "decimal_contract D" and T: "text_contract D" and h: "implements D H db h" and env: "ee_digest env = H" "fresh_seq env db"
    and lines: "\<forall>l\<in>set ls. line_storable l" and run: "attempt_post D env sc spec origin e ls db = Inr (r, db')"
  shows "extends D H h db db'"
  using attempt_post_Inr [OF D run]
proof
  assume "pr_replayed r \<and> db' = db \<and> (\<exists>row. db_dedup db (dedup_key_of e) = Some row \<and> dr_status row = STATUS_POSTED \<and>
        dr_result_entry_id row = Some (pr_entry_id r) \<and> (cs_mode spec = Fresh \<longrightarrow> dr_payload_hash row = spec_hash D env spec e ls))"
  then show ?thesis using h by (auto simp: extends_def intro: exI [of _ "[]"])
next
  assume "r = \<lparr>pr_entry_id = ne_entry_id e, pr_created_seq = ee_seq env, pr_replayed = False\<rparr> \<and> posted_gates origin e ls db \<and>
     posting_step D (ee_digest env) (ee_seq env) e ls db db' \<and>
     (cs_mode spec = Fresh \<longrightarrow> map_option dr_payload_hash (db_dedup db' (dedup_key_of e)) = Some (spec_hash D env spec e ls))"
  then have step: "posting_step D H (ee_seq env) e ls db db'" using env(1) by blast
  have row: "\<forall>k row. k \<noteq> dedup_key_of e \<and> db_dedup db k = Some row \<longrightarrow> db_dedup db' k = Some row"
    using step [unfolded posting_step_def] by blast
  have free: "claimable (db_dedup db) (dedup_key_of e)" using step [unfolded posting_step_def] by blast
  have "db_dedup db' k = Some x" if "db_dedup db k = Some x" "dr_status x = STATUS_POSTED" for k x
  proof -
    have "k \<noteq> dedup_key_of e" using that free by (auto simp: claimable_def status_names)
    with row that(1) show ?thesis by blast
  qed
  moreover have "\<exists>h'. implements D H db' (h @ h')" using implements_step [OF D T h step lines env(2) [unfolded fresh_seq_def]] by blast
  ultimately show ?thesis unfolding extends_def by blast
qed

lemma ledger_step_extends:
  assumes D: "decimal_contract D" and T: "text_contract D" and h: "implements D H db h" and step: "ledger_step D H db db'"
  shows "extends D H h db db'"
  using step
proof cases
  case (posting env ls sc spec e r)
  then have "attempt_post D env sc spec Current e ls db = Inr (r, db')" by (simp add: post_once_def split: if_splits)
  with posting show ?thesis by (intro extends_attempt [OF D T h])
next
  case (reversal env sc spec e r)
  obtain original period snapshot ls where
    ls: "read_lines_to_reverse D (db_journal db) (ne_tenant_id e) original period = Inr (snapshot, ls)"
    and run: "attempt_post D env sc spec StoredReversal (e\<lparr>ne_rate_snapshot_ref := snapshot\<rparr>)
      (flip_journal_lines (ee_fresh env) 0 ls) db = Inr (r, db')"
    using reversal(3) by (auto simp: post_reversal_once_def split: if_splits)
  show ?thesis by (rule extends_attempt [OF D T h reversal(1,2) flip_storable [OF read_lines_storable [OF D T h ls]] run])
next
  case (intake k hash)
  have "\<exists>h'. implements D H db' (h @ h')" using implements_intake [OF h] intake by (intro exI [of _ "[]"]) simp
  moreover have "db_dedup db' x = Some row" if "db_dedup db x = Some row" for x row
    using that intake by (auto simp: claim_queued_def claim_with_status_def split: option.splits)
  ultimately show ?thesis by (simp add: extends_def)
next
  case other
  have "implements D H db' (h @ [])" using implements_upkeep [OF h other] by simp
  then show ?thesis using other unfolding extends_def upkeep_def by metis
qed

lemma ledger_run_extends:
  assumes D: "decimal_contract D" and T: "text_contract D" and h: "implements D H db h" and run: "ledger_run D H db db'"
  shows "extends D H h db db'"
  using run
proof induction
  case base
  have "implements D H db (h @ [])" using h by simp
  then show ?case unfolding extends_def by blast
next
  case (step y z)
  then obtain h' where "implements D H y (h @ h')" by (auto simp: extends_def)
  from ledger_step_extends [OF D T this step.hyps(2)] step.IH show ?case unfolding extends_def by (metis append.assoc)
qed

lemma blank_implements: "blank db \<Longrightarrow> implements D H db []"
  by (auto simp: implements_def blank_def keys_ok_def dedup_ok_def caches_tie_def caches_ok_def history_moves_def cached_def view_empty)

lemma reachable_implements:
  assumes "decimal_contract D" "text_contract D" "reachable D H db"
  obtains h where "implements D H db h"
proof -
  obtain db0 where "blank db0" "ledger_run D H db0 db" using assms(3) by (auto simp: reachable_def)
  from ledger_run_extends [OF assms(1,2) blank_implements [OF this(1)] this(2)] that show thesis by (auto simp: extends_def)
qed

end
