(* ===== verification/Verified_Chain.thy ===== *)
theory Verified_Chain
  imports Verifier Ledger_State
begin

text \<open>
  The verifier on the states the engine reaches: it walks the whole chain of every tenant and finds nothing, also
  while postings go on.
\<close>

section \<open>Rows of the journal\<close>

lemma find_unique: "x \<in> set xs \<Longrightarrow> P x \<Longrightarrow> (\<And>y. y \<in> set xs \<Longrightarrow> P y \<Longrightarrow> y = x) \<Longrightarrow> find P xs = Some x"
proof (induction xs)
  case (Cons y ys)
  show ?case
  proof (cases "P y")
    case True
    then show ?thesis using Cons.prems(3) [of y] by simp
  next
    case False
    then have "x \<in> set ys" using Cons.prems(1,2) by auto
    then have "find P ys = Some x" by (rule Cons.IH [OF _ Cons.prems(2)]) (rule Cons.prems(3), simp_all)
    then show ?thesis using False by simp
  qed
qed simp

lemma advance_tips_append: "advance_tips D H (h1 @ h2) tips = advance_tips D H h2 (advance_tips D H h1 tips)"
proof (induction h1 arbitrary: tips)
  case (Cons p h)
  then show ?case by (cases p) (simp only: append.simps advance_tips.simps)
qed simp

lemma sealed_rows_append:
  "sealed_rows D H (h1 @ h2) tips = sealed_rows D H h1 tips @ sealed_rows D H h2 (advance_tips D H h1 tips)"
proof (induction h1 arbitrary: tips)
  case (Cons p h)
  then show ?case by (cases p) (simp only: append.simps advance_tips.simps sealed_rows.simps)
qed simp

lemma tip_hash:
  assumes "\<And>b. length (H b) = n" "\<And>t tip. tips t = Some tip \<Longrightarrow> length (last_row_hash tip) = n"
    "advance_tips D H h tips t = Some tip"
  shows "length (last_row_hash tip) = n"
  using assms(2,3)
proof (induction h arbitrary: tips)
  case (Cons p h)
  obtain seq e ls where p: "p = (seq, e, ls)" by (cases p)
  let ?tips = "tips(ne_tenant_id e \<mapsto> tip_of D H seq e ls (tips (ne_tenant_id e)))"
  have "length (last_row_hash x) = n" if "?tips u = Some x" for u x
    using that Cons.prems(1) assms(1) by (auto simp: tip_of_def chain_row_hash_def split: if_splits)
  from Cons.IH [OF this, of ?tips] Cons.prems(2) p show ?case by (simp only: advance_tips.simps)
qed simp

lemma advance_tips_seq: "advance_tips D H h tips t = Some tip \<Longrightarrow> tips t = Some tip \<or> last_seq tip \<in> fst ` set h"
proof (induction h rule: rev_induct)
  case (snoc p h)
  obtain seq e ls where p: "p = (seq, e, ls)" by (cases p)
  show ?case
  proof (cases "ne_tenant_id e = t")
    case True
    with snoc.prems have "last_seq tip = seq" by (auto simp: p advance_tips_snoc tip_of_def)
    then show ?thesis by (simp add: p)
  next
    case False
    with snoc.prems have "advance_tips D H h tips t = Some tip" by (simp add: p advance_tips_snoc)
    from snoc.IH [OF this] show ?thesis by auto
  qed
qed simp

text \<open>The chain of a tenant in the order the walk takes.\<close>

definition tenant_keys :: "uuid \<Rightarrow> posting list \<Rightarrow> walk_key list" where
  "tenant_keys t g = map (\<lambda>p. (ne_entry_id (fst (snd p)), ne_period_id (fst (snd p)))) (filter (\<lambda>p. ne_tenant_id (fst (snd p)) = t) g)"

lemma advance_tips_None: "advance_tips D H h tips t = None \<Longrightarrow> tenant_keys t h = []"
proof (induction h rule: rev_induct)
  case (snoc p h)
  obtain seq e ls where p: "p = (seq, e, ls)" by (cases p)
  have "ne_tenant_id e \<noteq> t" "advance_tips D H h tips t = None" using snoc.prems by (auto simp: p advance_tips_snoc split: if_splits)
  with snoc.IH show ?case by (simp add: p tenant_keys_def)
qed (simp add: tenant_keys_def)

lemma advance_tips_new: "advance_tips D H h tips t = Some tip \<Longrightarrow> tenant_keys t h \<noteq> [] \<Longrightarrow> last_seq tip \<in> fst ` set h"
proof (induction h rule: rev_induct)
  case (snoc p h)
  obtain seq e ls where p: "p = (seq, e, ls)" by (cases p)
  show ?case
  proof (cases "ne_tenant_id e = t")
    case True
    with snoc.prems have "last_seq tip = seq" by (auto simp: p advance_tips_snoc tip_of_def)
    then show ?thesis by (simp add: p)
  next
    case False
    with snoc.prems have "advance_tips D H h tips t = Some tip" "tenant_keys t h \<noteq> []" by (simp_all add: p advance_tips_snoc tenant_keys_def)
    from snoc.IH [OF this] show ?thesis by auto
  qed
qed (simp add: tenant_keys_def)

locale posted_books =
  fixes D :: decimal_ops and H :: "bytes \<Rightarrow> bytes" and db :: "'x ledger_db" and h :: "posting list"
  assumes D: "decimal_contract D" and T: "text_contract D" and impl: "implements D H db h"
begin

lemma journal: "j_entries (db_journal db) = sealed_rows D H h Map.empty"
    "j_lines (db_journal db) = concat (map (posted_line_rows D) h)"
    "db_tips db = advance_tips D H h Map.empty" "distinct (map posting_key h)" "sorted_wrt (<) (map fst h)"
    "\<forall>p\<in>set h. sound_posting (db_accounts db) p"
  using impl by (simp_all add: implements_def keys_ok_def)

lemma other_keys:
  assumes "h = h1 @ x # h2" "p \<in> set h1 \<union> set h2"
  shows "posting_key p \<noteq> posting_key x"
proof -
  have "posting_key x \<notin> posting_key ` (set h1 \<union> set h2)" using journal(4) assms(1) by auto
  then show ?thesis using assms(2) by (metis imageI)
qed

lemma header_found:
  assumes h: "h = h1 @ (seq, e, ls) # h2"
  shows "find_header (db_journal db) (ne_tenant_id e) (ne_entry_id e, ne_period_id e) =
    Some (sealed_row D H seq e ls (advance_tips D H h1 Map.empty (ne_tenant_id e)))"
proof -
  let ?row = "sealed_row D H seq e ls (advance_tips D H h1 Map.empty (ne_tenant_id e))"
  let ?rows = "sealed_rows D H h Map.empty"
  have mem: "?row \<in> set ?rows" by (simp add: h sealed_rows_append)
  have uniq: "y = ?row" if "y \<in> set ?rows" "entry_key y = entry_key ?row" for y
  proof -
    have "distinct (map entry_key ?rows)" using journal(4) by (simp add: sealed_rows_keys)
    then have "inj_on entry_key (set ?rows)" by (simp add: distinct_map)
    from inj_onD [OF this] that mem show ?thesis by blast
  qed
  show ?thesis unfolding find_header_def journal
  proof (rule find_unique [OF mem])
    fix y
    assume "y \<in> set ?rows" "je_entry_id y = fst (ne_entry_id e, ne_period_id e) \<and> je_tenant_id y = ne_tenant_id e \<and>
      je_period_id y = snd (ne_entry_id e, ne_period_id e)"
    then show "y = ?row" by (intro uniq) (simp_all add: entry_key_def)
  qed simp
qed

lemma lines_found:
  assumes h: "h = h1 @ (seq, e, ls) # h2"
  shows "entry_lines (db_journal db) (ne_tenant_id e) (ne_period_id e) (ne_entry_id e) = map (line_row_of D e) ls"
proof -
  let ?P = "\<lambda>r. jl_tenant_id r = ne_tenant_id e \<and> jl_period_id r = ne_period_id e \<and> jl_entry_id r = ne_entry_id e"
  have other: "filter ?P (posted_line_rows D p) = []" if "p \<in> set h1 \<union> set h2" for p
  proof -
    have "posting_key p \<noteq> posting_key (seq, e, ls)" by (rule other_keys [OF h that])
    then show ?thesis by (auto simp: posted_line_rows_def posting_key_def line_row_of_def filter_empty_conv)
  qed
  have rest: "filter ?P (concat (map (posted_line_rows D) g)) = []" if "set g \<subseteq> set h1 \<union> set h2" for g
    using that other by (induction g) auto
  have own: "filter ?P (map (line_row_of D e) ls) = map (line_row_of D e) ls"
    by (simp add: filter_id_conv line_row_of_def)
  show ?thesis unfolding entry_lines_def journal h
    using rest [of h1] rest [of h2] own by (simp add: posted_line_rows_def)
qed

end

section \<open>Reconstruction\<close>

lemma chain_row_hash_snapshot [simp]: "chain_row_hash D H (e\<lparr>ne_rate_snapshot_ref := r\<rparr>) ls p = chain_row_hash D H e ls p"
  by (simp add: chain_row_hash_def chain_buffer_def chain_entry_def)

lemma decode_rows:
  assumes "decimal_contract D" "text_contract D" "\<forall>l\<in>set ls. line_storable l"
  shows "map_result (decode_line D) (map (line_row_of D e) ls) = Inr ls"
  using assms(3) decode_line_stored [OF assms(1,2)] by (induction ls) simp_all

lemma reconstruct_sealed:
  assumes "decimal_contract D" "text_contract D" "\<forall>l\<in>set ls. line_storable l"
  shows "reconstruct D (sealed_row D H seq e ls tip) (map (line_row_of D e) ls) = Some (e\<lparr>ne_rate_snapshot_ref := None\<rparr>, ls)"
  by (cases e) (simp add: reconstruct_def sealed_row_def entry_row_of_def Let_def doc_enum.read_back decode_rows [OF assms])

section \<open>The walk is clean\<close>

text \<open>The digest has the 32 bytes of SHA-256.\<close>

definition digest_contract :: "(bytes \<Rightarrow> bytes) \<Rightarrow> bool" where
  "digest_contract H \<longleftrightarrow> (\<forall>b. length (H b) = 32)"

locale posted_ledger = posted_books +
  assumes digest: "digest_contract H"
begin

lemma link_length: "length (link_hash H t (advance_tips D H h1 Map.empty t)) = 32"
  using tip_hash [of H 32 Map.empty D h1 t] digest unfolding digest_contract_def
  by (cases "advance_tips D H h1 Map.empty t") (simp_all add: link_hash_def genesis_prev_hash_def)

lemma check_posted:
  assumes h: "h = h1 @ (seq, e, ls) # h2" and t: "t = ne_tenant_id e"
    and link: "link = None \<or> link = Some (chain_row_hash D H e ls (link_hash H t (advance_tips D H h1 Map.empty t)))"
  shows "check_entry D H (db_journal db) t (ne_entry_id e, ne_period_id e) link =
    Inr (map_option tip_cursor (advance_tips D H h1 Map.empty t), link_hash H t (advance_tips D H h1 Map.empty t))"
proof -
  have "\<forall>l\<in>set ls. line_storable l" using journal(6) h by (simp add: sound_posting_def)
  note found = header_found [OF h] lines_found [OF h] reconstruct_sealed [OF D T this]
  let ?tip = "advance_tips D H h1 Map.empty t"
  let ?row = "sealed_row D H seq e ls ?tip"
  have "parent_of H t ?row (link_hash H t ?tip) = Inr (map_option tip_cursor ?tip, link_hash H t ?tip)"
    by (cases ?tip) (simp_all add: parent_of_def tip_cursor_def link_hash_def)
  then show ?thesis
    unfolding check_entry_eq_Inr using found link link_length [of t h1] t
    by (intro exI [of _ ?row] exI [of _ "chain_row_hash D H e ls (link_hash H t ?tip)"] exI [of _ "link_hash H t ?tip"]
        exI [of _ "e\<lparr>ne_rate_snapshot_ref := None\<rparr>"] exI [of _ ls]) simp
qed

lemma walk_clean:
  assumes "h = h1 @ h2" "set (tenant_keys t h1) \<inter> set seen = {}"
    and "\<And>tip. advance_tips D H h1 Map.empty t = Some tip \<Longrightarrow> link = None \<or> link = Some (last_row_hash tip)"
  shows "verify_walk D H (db_journal db) t (map_option tip_cursor (advance_tips D H h1 Map.empty t)) link seen =
    (tenant_keys t h1 @ seen, None)"
  using assms
proof (induction h1 arbitrary: h2 seen link rule: rev_induct)
  case Nil
  then show ?case by (simp add: tenant_keys_def)
next
  case (snoc p h1)
  obtain seq e ls where p: "p = (seq, e, ls)" by (cases p)
  have h: "h = h1 @ (seq, e, ls) # h2" using snoc.prems(1) p by simp
  show ?case
  proof (cases "ne_tenant_id e = t")
    case False
    then have tips: "advance_tips D H (h1 @ [p]) Map.empty t = advance_tips D H h1 Map.empty t"
      by (simp add: p advance_tips_snoc)
    have "tenant_keys t (h1 @ [p]) = tenant_keys t h1" using False p by (simp add: tenant_keys_def)
    with snoc.IH [of "p # h2" seen link] snoc.prems tips show ?thesis by simp
  next
    case True
    let ?k = "(ne_entry_id e, ne_period_id e)" and ?tip = "advance_tips D H h1 Map.empty t"
    have tip: "advance_tips D H (h1 @ [p]) Map.empty t = Some (tip_of D H seq e ls ?tip)"
      using True by (simp add: p advance_tips_snoc)
    have keys: "tenant_keys t (h1 @ [p]) = tenant_keys t h1 @ [?k]" using True p by (simp add: tenant_keys_def)
    have "?k \<notin> set (tenant_keys t h1)"
    proof
      assume "?k \<in> set (tenant_keys t h1)"
      then obtain q where "q \<in> set h1" "posting_key q = posting_key p" using True p by (auto simp: tenant_keys_def posting_key_def)
      with other_keys [OF h, of q] p show False by simp
    qed
    with snoc.prems(2) keys have fresh: "?k \<notin> set seen" "set (tenant_keys t h1) \<inter> set (?k # seen) = {}" by auto
    have "link = None \<or> link = Some (chain_row_hash D H e ls (link_hash H t ?tip))"
      using snoc.prems(3) [OF tip] True by (simp add: tip_of_def)
    note check = check_posted [OF h True [symmetric] this]
    have "Some (link_hash H t ?tip) = None \<or> Some (link_hash H t ?tip) = Some (last_row_hash x)" if "?tip = Some x" for x
      using that by (simp add: link_hash_def)
    note IH = snoc.IH [OF _ fresh(2) this, of "p # h2"]
    have cursor: "map_option tip_cursor (advance_tips D H (h1 @ [p]) Map.empty t) = Some ?k"
      by (simp add: tip tip_of_def tip_cursor_def)
    show ?thesis unfolding cursor keys using IH h p check fresh(1) by simp
  qed
qed

lemma sealed_count_posted: "sealed_count (db_journal db) t = length (tenant_keys t h)"
proof -
  have "length (filter (\<lambda>r. je_tenant_id r = t \<and> je_row_hash r \<noteq> None) (sealed_rows D H g tips)) = length (tenant_keys t g)" for g tips
    by (induction g arbitrary: tips) (auto simp: tenant_keys_def)
  then show ?thesis by (simp add: sealed_count_def journal)
qed

lemma tip_seq: "advance_tips D H h Map.empty t = Some tip \<Longrightarrow> last_seq tip \<in> fst ` set h"
  using advance_tips_seq [of D H h Map.empty t tip] by simp

end

text \<open>A pass over a tenant that runs while postings go on: the walk sees \<open>db\<close>, the count the state \<open>later\<close>.\<close>

lemma verify_tenant_clean:
  assumes now: "posted_ledger D H db h" and later: "posted_ledger D H later (h @ g)"
  shows "verify_tenant D H db later t = (length (tenant_keys t h), None)"
proof -
  note books = posted_ledger.axioms(1) [OF now] posted_ledger.axioms(1) [OF later]
  show ?thesis
  proof (cases "db_tips db t")
    case None
    have "tenant_keys t h = []" using None posted_books.journal(3) [OF books(1)] advance_tips_None [of D H h Map.empty t] by simp
    with None show ?thesis by (simp add: verify_tenant_def)
  next
    case (Some tip)
    have tips: "advance_tips D H h Map.empty t = Some tip" using Some posted_books.journal(3) [OF books(1)] by simp
    have walk: "verify_walk D H (db_journal db) t (Some (tip_cursor tip)) None [] = (tenant_keys t h, None)"
      using posted_ledger.walk_clean [OF now, of h "[]" t "[]" None] tips by simp
    have count: "sealed_count (db_journal later) t = length (tenant_keys t h) + length (tenant_keys t g)"
      using posted_ledger.sealed_count_posted [OF later] by (simp add: tenant_keys_def)
    have "last_seq x \<noteq> last_seq tip" if x: "db_tips later t = Some x" and g: "tenant_keys t g \<noteq> []" for x
    proof -
      have "advance_tips D H g (advance_tips D H h Map.empty) t = Some x"
        using x posted_books.journal(3) [OF books(2)] by (simp add: advance_tips_append)
      with g have "last_seq x \<in> fst ` set g" using advance_tips_new by blast
      moreover have "last_seq tip \<in> fst ` set h" by (rule posted_ledger.tip_seq [OF now tips])
      ultimately obtain p q where "p \<in> set g" "last_seq x = fst p" "q \<in> set h" "last_seq tip = fst q" by blast
      moreover from this have "fst q < fst p" using posted_books.journal(5) [OF books(2)] by (simp add: sorted_wrt_append)
      ultimately show ?thesis by simp
  qed
    then show ?thesis using Some walk count by (auto simp: verify_tenant_def Let_def split: option.splits)
  qed
qed

end
