(* ===== verification/Tie_Out.thy ===== *)
theory Tie_Out
  imports Verified_Chain
begin

text \<open>
  The caches against the stored journal rows: what the rows of a journal add up to per grain, and what a
  reversal takes back.
\<close>

definition row_moves :: "decimal_ops \<Rightarrow> (new_line \<Rightarrow> rat) \<Rightarrow> line_row list \<Rightarrow> grain_key \<Rightarrow> rat" where
  "row_moves D v rows k =
     (\<Sum>r\<leftarrow>rows. case decode_line D r of Inl _ \<Rightarrow> 0 | Inr l \<Rightarrow> if k \<in> set (line_keys (jl_tenant_id r) l) then v l else 0)"

lemma line_row_tenant [simp]: "jl_tenant_id (line_row_of D e l) = ne_tenant_id e"
  by (simp add: line_row_of_def)

lemma row_moves_stored:
  assumes "decimal_contract D" "text_contract D" "\<forall>l\<in>set ls. line_storable l"
  shows "row_moves D v (map (line_row_of D e) ls) k = entry_moves (ne_tenant_id e) v ls k"
  using assms(3)
  by (induction ls) (auto simp: row_moves_def entry_moves_def decode_line_stored [OF assms(1,2)])

lemma row_moves_history:
  assumes "decimal_contract D" "text_contract D" "\<forall>p\<in>set h. \<forall>l\<in>set (snd (snd p)). line_storable l"
  shows "row_moves D v (concat (map (posted_line_rows D) h)) k = history_moves v h k"
  using assms(3)
proof (induction h)
  case (Cons p h)
  have "row_moves D v (posted_line_rows D p @ xs) k = row_moves D v (posted_line_rows D p) k + row_moves D v xs k" for xs
    by (simp add: row_moves_def)
  then show ?case
    using Cons by (simp add: history_moves_def posted_line_rows_def row_moves_stored [OF assms(1,2)])
qed (simp add: row_moves_def history_moves_def)

lemma implements_balance:
  "implements D H db h \<Longrightarrow>
     cached (view_balance D) (db_caches db) k = history_moves (line_value (account_side (db_accounts db))) h k"
  by (simp only: implements_def caches_tie_def)

lemma entry_moves_flip:
  assumes "\<forall>l\<in>set ls. n (account_id l) \<noteq> None"
  shows "entry_moves t (line_value n) (flip_journal_lines fresh i ls) k = - entry_moves t (line_value n) ls k"
  using assms
proof (induction ls arbitrary: i)
  case (Cons l ls)
  let ?f = "l\<lparr>line_id := fresh i, side := flip (side l)\<rparr>"
  have keys: "line_keys t ?f = line_keys t l" by (cases "account_class l") (simp_all add: line_keys_def Let_def split: option.splits)
  obtain sd where "n (account_id l) = Some sd" using Cons.prems by auto
  then have "line_value n ?f = - line_value n l" by (cases sd; cases "side l") (simp_all add: line_value_def)
  then show ?case using Cons.IH [of "Suc i"] Cons.prems keys by (simp add: entry_moves_def)
qed (simp add: entry_moves_def)

context posted_books
begin

lemma storable: "\<forall>p\<in>set h. \<forall>l\<in>set (snd (snd p)). line_storable l"
  using journal(6) by (simp add: sound_posting_def)

lemma tie_out:
  "cached (view_balance D) (db_caches db) k = row_moves D (line_value (account_side (db_accounts db))) (j_lines (db_journal db)) k"
  "cached (view_disputed D) (db_caches db) k = row_moves D (line_disputed (account_side (db_accounts db)) k) (j_lines (db_journal db)) k"
  "fst k \<noteq> TaxGrain \<Longrightarrow>
    cached (view_functional D) (db_caches db) k = row_moves D (line_functional (account_side (db_accounts db))) (j_lines (db_journal db)) k"
proof -
  have tie: "caches_tie D (db_accounts db) h (db_caches db)" using impl by (simp add: implements_def)
  note rows = row_moves_history [OF D T storable]
  show "cached (view_balance D) (db_caches db) k = row_moves D (line_value (account_side (db_accounts db))) (j_lines (db_journal db)) k"
    "cached (view_disputed D) (db_caches db) k = row_moves D (line_disputed (account_side (db_accounts db)) k) (j_lines (db_journal db)) k"
    using tie unfolding journal rows by (simp_all only: caches_tie_def)
  show "cached (view_functional D) (db_caches db) k = row_moves D (line_functional (account_side (db_accounts db))) (j_lines (db_journal db)) k"
    if "fst k \<noteq> TaxGrain"
    using tie [unfolded caches_tie_def, THEN conjunct2, THEN conjunct1, rule_format, OF that] unfolding journal rows .
qed

lemma lines_of_key:
  assumes "map_result (decode_line D) (entry_lines (db_journal db) t period entry) = Inr ls" "ls \<noteq> []"
  shows "\<exists>seq e. (seq, e, ls) \<in> set h \<and> ne_tenant_id e = t \<and>
    entry_lines (db_journal db) t period entry = map (line_row_of D e) ls"
proof -
  obtain l where "l \<in> set ls" using assms(2) by (cases ls) auto
  from map_result_member [OF assms(1) this] obtain r where r: "r \<in> set (entry_lines (db_journal db) t period entry)" by blast
  then obtain seq e ms where p: "(seq, e, ms) \<in> set h" and "r \<in> set (map (line_row_of D e) ms)"
    by (auto simp: entry_lines_def journal posted_line_rows_def)
  with r have k: "ne_tenant_id e = t" "ne_period_id e = period" "ne_entry_id e = entry"
    by (auto simp: entry_lines_def line_row_of_def)
  obtain h1 h2 where "h = h1 @ (seq, e, ms) # h2" using p by (meson split_list)
  note found = lines_found [OF this, unfolded k]
  have "\<forall>l\<in>set ms. line_storable l" using storable p by fastforce
  from decode_rows [OF D T this, of e] assms(1) have "ms = ls" unfolding found by simp
  with p k found show ?thesis by blast
qed

end

lemma posted_booksI:
  assumes "decimal_contract D" "text_contract D" "implements D H db h"
  shows "posted_books D H db h" "digest_contract H \<Longrightarrow> posted_ledger D H db h"
proof -
  show books: "posted_books D H db h" using assms by unfold_locales
  show "posted_ledger D H db h" if "digest_contract H" using books that by (simp add: posted_ledger_def posted_ledger_axioms_def)
qed

end
