(* ===== verification/Allocate.thy ===== *)
theory Allocate
  imports Reference_Decimal
begin

text \<open>
  \<open>gears/bss/libs/money/src/allocate.rs\<close>: proportional allocation of a posted amount over weights.
  Each share is rounded half to even once; the exact residual goes to the slot the disposition picks.
  The shares always add up to the total, every slot but one is the rounded proportional share, and
  allocation of a total that leaves room for the residual succeeds.
\<close>

section \<open>Operations\<close>

datatype residual = Last | Largest

definition validate_count :: "nat \<Rightarrow> exact_error + unit" where
  "validate_count count =
     (if count = 0 then Inl EmptyWeights
      else if count > 2 ^ 31 - 1 then Inl TooManyTerms
      else Inr ())"

definition add_weight :: "decimal_ops \<Rightarrow> decimal \<Rightarrow> exact_amount \<Rightarrow> exact_error + exact_amount" where
  "add_weight D w acc =
     (if dec_lt D w dec_zero then Inl NegativeWeight
      else rbind (map_err MoneyErr (validate_amount D w)) (\<lambda>_. checked_add acc (from_decimal w)))"

definition weight_share ::
  "decimal_ops \<Rightarrow> posted_money \<Rightarrow> exact_amount \<Rightarrow> decimal \<Rightarrow> exact_error + posted_money" where
  "weight_share D t wsum w =
     rbind (checked_mul (from_decimal (amount t)) (from_decimal w)) (\<lambda>p.
     rbind (checked_div p wsum) (\<lambda>q.
       round_half_even D q (currency t)))"

definition place_share ::
  "decimal_ops \<Rightarrow> posted_money \<Rightarrow> exact_amount \<Rightarrow> decimal \<Rightarrow> posted_money list \<times> exact_amount
   \<Rightarrow> exact_error + posted_money list \<times> exact_amount" where
  "place_share D t wsum w acc =
     rbind (weight_share D t wsum w) (\<lambda>share.
     rbind (checked_add (snd acc) (from_decimal (amount share))) (\<lambda>placed.
       Inr (fst acc @ [share], placed)))"

text \<open>\<open>Iterator::max_by\<close>: the last of the greatest elements.\<close>

fun max_by :: "('a \<Rightarrow> 'a \<Rightarrow> ordering) \<Rightarrow> 'a list \<Rightarrow> 'a option" where
  "max_by cmp [] = None"
| "max_by cmp (x # xs) = Some (foldl (\<lambda>m y. if cmp m y = Greater then m else y) x xs)"

definition nat_cmp :: "nat \<Rightarrow> nat \<Rightarrow> ordering" where
  "nat_cmp a b = (if a < b then Less else if a = b then Equal else Greater)"

definition weight_order :: "decimal_ops \<Rightarrow> nat \<times> decimal \<Rightarrow> nat \<times> decimal \<Rightarrow> ordering" where
  "weight_order D a b =
     (case dec_cmp D (snd a) (snd b) of Equal \<Rightarrow> nat_cmp (fst b) (fst a) | c \<Rightarrow> c)"

definition residual_index :: "decimal_ops \<Rightarrow> residual \<Rightarrow> decimal list \<Rightarrow> nat \<Rightarrow> nat option" where
  "residual_index D disposition weights n_shares =
     (case disposition of
        Last \<Rightarrow> if n_shares = 0 then None else Some (n_shares - 1)
      | Largest \<Rightarrow> map_option fst (max_by (weight_order D) (enumerate 0 weights)))"

definition allocate ::
  "decimal_ops \<Rightarrow> posted_money \<Rightarrow> decimal list \<Rightarrow> residual \<Rightarrow> exact_error + posted_money list" where
  "allocate D t weights disposition =
     rbind (validate_count (length weights)) (\<lambda>_.
     rbind (fold_result (add_weight D) weights (from_decimal dec_zero)) (\<lambda>wsum.
     rbind (fold_result (place_share D t wsum) weights ([], from_decimal dec_zero)) (\<lambda>(shares, placed).
     rbind (checked_sub (from_decimal (amount t)) placed) (\<lambda>residual.
       case residual_index D disposition weights (length shares) of
         None \<Rightarrow> Inl EmptyWeights
       | Some index \<Rightarrow>
           if index < length shares
           then rbind (checked_add (from_decimal (amount (shares ! index))) residual) (\<lambda>adjusted.
                rbind (into_posted_exact D adjusted (currency t)) (\<lambda>slot.
                  Inr (shares[index := slot])))
           else Inl EmptyWeights))))"

section \<open>Summing weights\<close>

lemma add_weight_fold:
  assumes D: "decimal_contract D" and len: "length ws \<le> 2 ^ 64"
  shows "fold_result (add_weight D) ws (from_decimal dec_zero) = Inr s \<longleftrightarrow>
    (\<forall>w\<in>set ws. 0 \<le> dval w \<and> (\<exists>a. validate_amount D w = Inr a)) \<and> s = amount_of (\<Sum>w\<leftarrow>ws. dval w)"
proof -
  let ?ok = "\<lambda>w. 0 \<le> dval w \<and> (\<exists>a. validate_amount D w = Inr a)"
  have step: "add_weight D w acc = Inr b \<longleftrightarrow> ?ok w \<and> checked_add acc (from_decimal w) = Inr b" for w acc b
    by (auto simp: add_weight_def contract_compare [OF D])
  have "fold_result (add_weight D) ws a = Inr s \<longleftrightarrow>
      (\<forall>w\<in>set ws. ?ok w) \<and> fold_result (\<lambda>v acc. checked_add acc (from_decimal v)) ws a = Inr s" for a
    by (induction ws arbitrary: a) (auto simp: step)
  then show ?thesis using fold_add_value [OF len, of "\<lambda>x. x"] by auto
qed

section \<open>One share\<close>

text \<open>The posting grid's value nearest to a proportional share.\<close>

definition share_value :: "posted_money \<Rightarrow> rat \<Rightarrow> rat \<Rightarrow> rat" where
  "share_value t wsum w =
     of_int (half_even (mval t * w / wsum * 10 ^ cur_scale (currency t))) / 10 ^ cur_scale (currency t)"

lemma weight_share_Inr:
  assumes D: "decimal_contract D" and s: "cur_scale (currency t) \<le> 28" and ready: "exact_ready wsum"
    and share: "weight_share D t wsum w = Inr m"
  shows "exval wsum \<noteq> 0" "represents m (currency t) (share_value t (exval wsum) (dval w))"
proof -
  let ?cs = "cur_scale (currency t)"
  from share obtain p q r where
      p: "checked_mul (from_decimal (amount t)) (from_decimal w) = Inr p" and
      q: "checked_div p wsum = Inr q" and
      r: "round_half_even_exact q ?cs = Inr r" and m: "into_posted_exact D r (currency t) = Inr m"
    by (auto simp: weight_share_def round_half_even_def)
  have P: "exact_ready p" "exval p = mval t * dval w" using p narrow_ready by (auto simp: checked_mul_narrow)
  show nz: "exval wsum \<noteq> 0" using q P ready by (auto simp: checked_div_narrow)
  have Q: "exact_ready q" "exval q = mval t * dval w / exval wsum"
    using q narrow_ready P nz by (auto simp: checked_div_narrow [OF P(1) ready])
  have R: "exact_ready r" "exval r = share_value t (exval wsum) (dval w)"
    using r narrow_ready by (auto simp: round_half_even_exact_narrow [OF Q(1) s] Q(2) share_value_def)
  show "represents m (currency t) (share_value t (exval wsum) (dval w))"
    using m into_posted_exact_Inr [OF D R(1) s] R(2) by simp
qed

lemma place_shares:
  assumes D: "decimal_contract D" and s: "cur_scale (currency t) \<le> 28" and ready: "exact_ready wsum"
    and run: "fold_result (place_share D t wsum) ws ([], from_decimal dec_zero) = Inr (shares, placed)"
  shows "list_all2 (\<lambda>w m. represents m (currency t) (share_value t (exval wsum) (dval w))) ws shares"
    "exact_ready placed" "exval placed = (\<Sum>m\<leftarrow>shares. mval m)"
proof -
  let ?rel = "\<lambda>w m. represents m (currency t) (share_value t (exval wsum) (dval w))"
  let ?P = "\<lambda>ws acc. list_all2 ?rel ws (fst acc) \<and> exact_ready (snd acc) \<and>
      exval (snd acc) = (\<Sum>m\<leftarrow>fst acc. mval m)"
  have "?P ws (shares, placed)"
  proof (rule fold_result_invariant [OF run])
    fix ys x zs a b
    assume "?P ys a" and b: "place_share D t wsum x a = Inr b"
    then have a: "list_all2 ?rel ys (fst a)" "exact_ready (snd a)" "exval (snd a) = (\<Sum>m\<leftarrow>fst a. mval m)"
      by auto
    from b obtain m p where m: "weight_share D t wsum x = Inr m"
        and p: "checked_add (snd a) (from_decimal (amount m)) = Inr p" and eq: "b = (fst a @ [m], p)"
      by (auto simp: place_share_def)
    have "exact_ready p" "exval p = exval (snd a) + mval m"
      using p narrow_ready by (auto simp: checked_add_narrow a)
    with a eq weight_share_Inr(2) [OF D s ready m] show "?P (ys @ [x]) b"
      by (simp add: list_all2_appendI)
  qed simp
  then show "list_all2 ?rel ws shares" "exact_ready placed" "exval placed = (\<Sum>m\<leftarrow>shares. mval m)" by auto
qed

section \<open>The slot that takes the residual\<close>

definition best_index :: "decimal list \<Rightarrow> nat \<Rightarrow> bool" where
  "best_index ws i \<longleftrightarrow> i < length ws \<and> (\<forall>j<length ws. dval (ws ! j) \<le> dval (ws ! i)) \<and>
     (\<forall>j<i. dval (ws ! j) < dval (ws ! i))"

lemma weight_order_Greater:
  "decimal_contract D \<Longrightarrow> weight_order D (i, v) (j, w) = Greater \<longleftrightarrow> dval w < dval v \<or> (dval v = dval w \<and> i < j)"
  by (auto simp: weight_order_def decimal_contract_def rat_cmp_def nat_cmp_def split: ordering.splits)

lemma best_index_snoc:
  assumes "best_index ws i"
  shows "best_index (ws @ [w]) (if dval w \<le> dval (ws ! i) then i else length ws)"
  using assms by (auto simp: best_index_def nth_append less_Suc_eq)

lemma largest_fold:
  assumes D: "decimal_contract D" and "ws \<noteq> []"
  shows "\<exists>i. max_by (weight_order D) (enumerate 0 ws) = Some (i, ws ! i) \<and> best_index ws i"
  using assms(2)
proof (induction ws rule: rev_nonempty_induct)
  case (single x)
  then show ?case by (simp add: best_index_def)
next
  case (snoc x xs)
  then obtain i where m: "max_by (weight_order D) (enumerate 0 xs) = Some (i, xs ! i)" and i: "best_index xs i"
    by blast
  obtain y ys where xs: "enumerate 0 xs = y # ys" using snoc.hyps by (cases xs) auto
  have "max_by (weight_order D) (enumerate 0 (xs @ [x])) =
      Some (if weight_order D (i, xs ! i) (length xs, x) = Greater then (i, xs ! i) else (length xs, x))"
    using m by (simp add: enumerate_append_eq xs)
  moreover have "weight_order D (i, xs ! i) (length xs, x) = Greater \<longleftrightarrow> dval x \<le> dval (xs ! i)"
    using i by (auto simp: weight_order_Greater [OF D] best_index_def)
  ultimately show ?case
    using best_index_snoc [OF i, of x] i by (auto simp: best_index_def nth_append)
qed

lemma residual_index_Some:
  assumes D: "decimal_contract D" and "ws \<noteq> []"
  shows "\<exists>i. residual_index D disp ws (length ws) = Some i \<and> i < length ws \<and>
    (case disp of Last \<Rightarrow> i = length ws - 1 | Largest \<Rightarrow> best_index ws i)"
  using largest_fold [OF assms] assms(2)
  by (cases disp) (auto simp: residual_index_def best_index_def)

section \<open>The whole allocation\<close>

lemma sum_list_update_map:
  fixes f :: "'a \<Rightarrow> 'b::ab_group_add"
  shows "i < length xs \<Longrightarrow> (\<Sum>x\<leftarrow>xs[i := v]. f x) = (\<Sum>x\<leftarrow>xs. f x) - f (xs ! i) + f v"
proof (induction xs arbitrary: i)
  case (Cons x xs)
  then show ?case by (cases i) (simp_all add: algebra_simps)
qed simp

lemma allocate_Inr:
  assumes D: "decimal_contract D" and s: "cur_scale (currency t) \<le> 28"
    and run: "allocate D t ws disp = Inr out"
  obtains i where "residual_index D disp ws (length ws) = Some i" "i < length ws" "length out = length ws"
    "\<And>m. m \<in> set out \<Longrightarrow> posted_ok m \<and> currency m = currency t"
    "(\<Sum>m\<leftarrow>out. mval m) = mval t" "0 < (\<Sum>w\<leftarrow>ws. dval w)"
    "\<And>j. j < length ws \<Longrightarrow> j \<noteq> i \<Longrightarrow> mval (out ! j) = share_value t (\<Sum>w\<leftarrow>ws. dval w) (dval (ws ! j))"
proof -
  let ?cur = "currency t" and ?W = "\<Sum>w\<leftarrow>ws. dval w"
  from run obtain wsum shares placed residual i adjusted slot where
      n: "ws \<noteq> []" "length ws \<le> 2 ^ 31 - 1" and
      wsum: "fold_result (add_weight D) ws (from_decimal dec_zero) = Inr wsum" and
      shares: "fold_result (place_share D t wsum) ws ([], from_decimal dec_zero) = Inr (shares, placed)" and
      residual: "checked_sub (from_decimal (amount t)) placed = Inr residual" and
      i: "residual_index D disp ws (length shares) = Some i" "i < length shares" and
      adj: "checked_add (from_decimal (amount (shares ! i))) residual = Inr adjusted" and
      slot: "into_posted_exact D adjusted ?cur = Inr slot" and out: "out = shares[i := slot]"
    by (auto simp: allocate_def validate_count_def split: if_splits option.splits)
  have len: "length ws \<le> 2 ^ 64" using n by simp
  have w: "wsum = amount_of ?W" "\<forall>w\<in>set ws. 0 \<le> dval w" using wsum add_weight_fold [OF D len] by auto
  have g: "dec_grid (length ws) ?W" using fold_add_value [OF len, of "\<lambda>x. x"] by simp
  have ready: "exact_ready wsum" unfolding w using len by (intro dec_grid_ready [OF g]) simp
  note S = place_shares [OF D s ready shares]
  have L: "length shares = length ws" using S(1) by (simp add: list_all2_lengthD)
  have rel: "represents (shares ! j) ?cur (share_value t ?W (dval (ws ! j)))" if "j < length ws" for j
    using list_all2_nthD [OF S(1) that] w by simp
  have R: "exact_ready residual" "exval residual = mval t - (\<Sum>m\<leftarrow>shares. mval m)"
    using residual narrow_ready S by (auto simp: checked_sub_narrow)
  have A: "exact_ready adjusted" "exval adjusted = mval (shares ! i) + exval residual"
    using adj narrow_ready R by (auto simp: checked_add_narrow)
  have slot': "represents slot ?cur (mval (shares ! i) + exval residual)"
    using slot into_posted_exact_Inr [OF D A(1) s] A(2) by simp
  have "?W \<noteq> 0"
  proof -
    obtain w ws' where "ws = w # ws'" using n(1) by (cases ws) auto
    then obtain m where "weight_share D t wsum w = Inr m" using shares by (auto simp: place_share_def)
    from weight_share_Inr(1) [OF D s ready this] w show ?thesis by simp
  qed
  moreover have "0 \<le> ?W" using w(2) by (intro sum_list_nonneg) auto
  ultimately have pos: "0 < ?W" by simp
  show thesis
  proof (rule that [of i])
    show "residual_index D disp ws (length ws) = Some i" "i < length ws" "length out = length ws" "0 < ?W"
      using i L out pos by simp_all
    show "(\<Sum>m\<leftarrow>out. mval m) = mval t"
      using i(2) slot' R(2) by (simp add: out sum_list_update_map represents_def)
    show "posted_ok m \<and> currency m = ?cur" if "m \<in> set out" for m
      using that rel slot' L set_update_subset_insert [of shares i slot]
      by (auto simp: out represents_def in_set_conv_nth) (metis nth_list_update_eq nth_list_update_neq)+
    show "mval (out ! j) = share_value t ?W (dval (ws ! j))" if "j < length ws" "j \<noteq> i" for j
      using rel [OF that(1)] that(2) by (simp add: out represents_def)
  qed
qed

section \<open>Allocation succeeds\<close>

lemma grid_represented:
  assumes "\<bar>h\<bar> < 10 ^ 28" "cur_scale cur \<le> 28"
  shows "\<exists>m. represents m cur (of_int h / 10 ^ cur_scale cur)"
proof -
  have f: "dec_fits h (cur_scale cur)" using assms by (simp add: dec_fits_def)
  have "\<exists>m. posted_try_new reference_decimal (Decimal h (cur_scale cur)) cur = Inr m \<and>
      mval m = dval (Decimal h (cur_scale cur)) \<and> currency m = cur \<and> posted_ok m"
    using f assms by (intro posted_try_new_complete reference_decimal_contract) simp_all
  with f show ?thesis by (auto simp: represents_def)
qed

text \<open>Rounding keeps to any bound that is itself on the grid.\<close>

lemma half_even_bound:
  assumes "\<bar>q\<bar> \<le> of_int b"
  shows "\<bar>half_even q\<bar> \<le> b"
proof -
  have "\<bar>of_int (half_even q) - q\<bar> \<le> 1 / 2" using half_even_nearest [of q] by linarith
  then have "\<bar>of_int (half_even q)\<bar> < (of_int b + 1 :: rat)" using assms by linarith
  then have "of_int \<bar>half_even q\<bar> < (of_int (b + 1) :: rat)" by simp
  then show ?thesis by (simp only: of_int_less_iff)
qed

lemma posted_units:
  assumes "posted_ok t"
  obtains T where "mval t * 10 ^ cur_scale (currency t) = of_int T"
  using represents_on_grid [of t "currency t" "mval t"] assms
  by (auto simp: represents_def on_grid_def elim: Ints_cases)

lemma dec_grid_one: "dec_grid 1 q \<Longrightarrow> \<exists>a. q = of_int a / 10 ^ 28 \<and> \<bar>a\<bar> \<le> 10 ^ 57"
  by (simp add: dec_grid_def)

lemma grid_product_ready:
  assumes "dec_grid 1 p" "dec_grid 1 q"
  shows "narrow (p * q) = Inr (amount_of (p * q))"
proof -
  obtain a b where a: "p = of_int a / 10 ^ 28" "\<bar>a\<bar> \<le> 10 ^ 57" and b: "q = of_int b / 10 ^ 28" "\<bar>b\<bar> \<le> 10 ^ 57"
    using assms dec_grid_one by blast
  have eq: "p * q = of_int (a * b) / of_int (10 ^ 56)" by (simp add: a(1) b(1))
  have "\<bar>a * b\<bar> \<le> 10 ^ 57 * 10 ^ 57" unfolding abs_mult using a(2) b(2) by (intro mult_mono) simp_all
  also have "\<dots> = (10::int) ^ 114" by simp
  also have "\<dots> < FINAL_BOUND" by (rule power_less_bounds) simp
  finally have "\<bar>a * b\<bar> < FINAL_BOUND" .
  moreover have "\<bar>10 ^ 56\<bar> < FINAL_BOUND" using power_less_bounds [of 56] by simp
  ultimately show ?thesis unfolding eq by (intro narrow_parts) simp_all
qed

lemma grid_quotient_ready:
  assumes "dec_grid 1 p" "dec_grid 1 q" "dec_grid k w" "w \<noteq> 0" "k \<le> 2 ^ 64"
  shows "narrow (p * q / w) = Inr (amount_of (p * q / w))"
proof -
  obtain a b where a: "p = of_int a / 10 ^ 28" "\<bar>a\<bar> \<le> 10 ^ 57" and b: "q = of_int b / 10 ^ 28" "\<bar>b\<bar> \<le> 10 ^ 57"
    using assms dec_grid_one by blast
  obtain c where c: "w = of_int c / 10 ^ 28" "\<bar>c\<bar> \<le> int k * 10 ^ 57" using assms(3) by (auto simp: dec_grid_def)
  have nz: "c \<noteq> 0" using assms(4) c by auto
  have eq: "p * q / w = of_int (a * b) / of_int (10 ^ 28 * c)" using nz by (simp add: a(1) b(1) c(1))
  have "\<bar>a * b\<bar> \<le> 10 ^ 57 * 10 ^ 57" unfolding abs_mult using a(2) b(2) by (intro mult_mono) simp_all
  also have "\<dots> = (10::int) ^ 114" by simp
  also have "\<dots> < FINAL_BOUND" by (rule power_less_bounds) simp
  finally have n: "\<bar>a * b\<bar> < FINAL_BOUND" .
  have "int k \<le> 2 ^ 64" using assms(5) by (metis of_nat_le_iff of_nat_numeral of_nat_power)
  then have "int k * 10 ^ 57 \<le> 10 ^ 20 * 10 ^ 57" by (intro mult_right_mono) simp_all
  then have "\<bar>c\<bar> \<le> 10 ^ 77" using c(2) by simp
  then have "\<bar>10 ^ 28 * c\<bar> \<le> 10 ^ 28 * 10 ^ 77" unfolding abs_mult by simp
  also have "\<dots> = (10::int) ^ 105" by simp
  also have "\<dots> < FINAL_BOUND" by (rule power_less_bounds) simp
  finally show ?thesis unfolding eq using n nz by (intro narrow_parts) simp_all
qed

lemma share_units_bound:
  assumes T: "mval t * 10 ^ cur_scale (currency t) = of_int T" and w: "0 \<le> w" "w \<le> wsum" "0 < wsum"
  shows "\<bar>half_even (mval t * w / wsum * 10 ^ cur_scale (currency t))\<bar> \<le> \<bar>T\<bar>"
proof (rule half_even_bound)
  have r: "0 \<le> w / wsum" "w / wsum \<le> 1" using w by simp_all
  have "mval t * w / wsum * 10 ^ cur_scale (currency t) = of_int T * (w / wsum)" by (simp flip: T)
  also have "\<bar>\<dots>\<bar> = \<bar>of_int T\<bar> * (w / wsum)" using w by (simp add: abs_mult)
  also have "\<dots> \<le> \<bar>of_int T\<bar> * 1" using r by (intro mult_left_mono) simp_all
  finally show "\<bar>mval t * w / wsum * 10 ^ cur_scale (currency t)\<bar> \<le> of_int \<bar>T\<bar>" by simp
qed

lemma weight_share_total:
  assumes D: "decimal_contract D" and s: "cur_scale (currency t) \<le> 28" and t: "posted_ok t"
    and T: "mval t * 10 ^ cur_scale (currency t) = of_int T" "\<bar>T\<bar> < 10 ^ 28"
    and W: "dec_grid k W" "k \<le> 2 ^ 64" and w: "0 \<le> dval w" "dval w \<le> W" "0 < W"
  shows "\<exists>m. weight_share D t (amount_of W) w = Inr m"
proof -
  let ?q = "mval t * dval w / W" and ?s = "cur_scale (currency t)"
  let ?h = "half_even (?q * 10 ^ ?s)"
  note g = dec_grid_dval [of "amount t"] dec_grid_dval [of w]
  have ready: "exact_ready (amount_of W)" using W by (intro dec_grid_ready [of k]) simp_all
  have p: "checked_mul (from_decimal (amount t)) (from_decimal w) = Inr (amount_of (mval t * dval w))"
    by (simp add: checked_mul_narrow grid_product_ready [OF g])
  have P: "exact_ready (amount_of (mval t * dval w))" using narrow_ready [OF grid_product_ready [OF g]] by simp
  have qn: "narrow ?q = Inr (amount_of ?q)" using w by (intro grid_quotient_ready [OF g W(1)] W(2)) simp
  then have Q: "exact_ready (amount_of ?q)" using narrow_ready by fastforce
  have q: "checked_div (amount_of (mval t * dval w)) (amount_of W) = Inr (amount_of ?q)"
    using w(3) by (simp add: checked_div_narrow [OF P ready] qn)
  have h: "\<bar>?h\<bar> < 10 ^ 28" using share_units_bound [OF T(1) w] T(2) by linarith
  have "(10::int) ^ 28 < FINAL_BOUND" by (rule power_less_bounds) simp
  then have hb: "\<bar>?h\<bar> < FINAL_BOUND" using h by linarith
  have "narrow (of_int ?h / of_int (ten_pow ?s)) = Inr (amount_of (of_int ?h / of_int (ten_pow ?s)))"
    using s by (intro narrow_parts hb ten_pow_bound) simp_all
  then have rn: "narrow (of_int ?h / 10 ^ ?s) = Inr (amount_of (of_int ?h / 10 ^ ?s))" by (simp add: ten_pow_def)
  then have r: "round_half_even_exact (amount_of ?q) ?s = Inr (amount_of (of_int ?h / 10 ^ ?s))"
    by (simp add: round_half_even_exact_narrow [OF Q s])
  obtain m where m: "represents m (currency t) (of_int ?h / 10 ^ ?s)" using grid_represented [OF h s] by blast
  then have "into_posted_exact D (amount_of (of_int ?h / 10 ^ ?s)) (currency t) = Inr m"
    using narrow_ready [OF rn] by (simp add: into_posted_exact_Inr [OF D _ s])
  with p q r show ?thesis by (simp add: weight_share_def round_half_even_def)
qed

lemma place_shares_total:
  assumes share: "\<And>w. w \<in> set ws \<Longrightarrow> \<exists>m. weight_share D t wsum w = Inr m"
    and len: "length ws \<le> 2 ^ 64"
  shows "\<exists>shares placed. fold_result (place_share D t wsum) ws ([], from_decimal dec_zero) = Inr (shares, placed) \<and>
    placed = amount_of (\<Sum>m\<leftarrow>shares. mval m) \<and> dec_grid (length ws) (\<Sum>m\<leftarrow>shares. mval m)"
proof -
  let ?Q = "\<lambda>i acc. snd acc = amount_of (\<Sum>m\<leftarrow>fst acc. mval m) \<and> dec_grid i (\<Sum>m\<leftarrow>fst acc. mval m)"
  have "\<exists>b. fold_result (place_share D t wsum) ws ([], from_decimal dec_zero) = Inr b \<and> ?Q (length ws) b"
  proof (rule fold_result_total)
    fix i x a
    assume i: "i < length ws" and x: "x \<in> set ws" and a: "?Q i a"
    obtain m where m: "weight_share D t wsum x = Inr m" using share [OF x] by blast
    let ?q = "\<Sum>m\<leftarrow>fst a. mval m"
    have g: "dec_grid (i + 1) (?q + mval m)" using a by (intro dec_grid_add dec_grid_dval) simp
    have small: "i \<le> 2 ^ 128" "i + 1 \<le> 2 ^ 128" using i len by simp_all
    have "exact_ready (snd a)" using a dec_grid_ready [OF _ small(1)] by simp
    then have "checked_add (snd a) (from_decimal (amount m)) = Inr (amount_of (?q + mval m))"
      using a dec_grid_narrow [OF g small(2)] by (simp add: checked_add_narrow)
    with m g show "\<exists>b. place_share D t wsum x a = Inr b \<and> ?Q (Suc i) b" by (simp add: place_share_def)
  qed (simp add: from_decimal_amount_of)
  then show ?thesis by auto
qed

text \<open>The rounding errors of \<open>n\<close> shares amount to at most \<open>n / 2\<close> units of the last place.\<close>

lemma rounding_error_sum:
  "\<bar>(\<Sum>w\<leftarrow>vs. f w) - (\<Sum>w\<leftarrow>vs. of_int (half_even (f w)))\<bar> \<le> of_nat (length vs) / 2"
proof (induction vs)
  case (Cons v vs)
  have "\<bar>f v - of_int (half_even (f v))\<bar> \<le> 1 / 2" by (rule half_even_nearest)
  moreover have "\<bar>f v + (\<Sum>w\<leftarrow>vs. f w) - (of_int (half_even (f v)) + (\<Sum>w\<leftarrow>vs. of_int (half_even (f w))))\<bar> \<le>
      \<bar>f v - of_int (half_even (f v))\<bar> + \<bar>(\<Sum>w\<leftarrow>vs. f w) - (\<Sum>w\<leftarrow>vs. of_int (half_even (f w)))\<bar>"
    by (rule abs_diff_triangle_ineq)
  ultimately show ?case using Cons by (simp add: add_divide_distrib)
qed simp

lemma residual_units:
  assumes T: "mval t * 10 ^ s = of_int T" and W: "0 < (\<Sum>w\<leftarrow>ws. dval w)"
  shows "\<bar>of_int T - (\<Sum>w\<leftarrow>ws. of_int (half_even (mval t * dval w / (\<Sum>w\<leftarrow>ws. dval w) * 10 ^ s)))\<bar>
    \<le> (of_nat (length ws) / 2 :: rat)"
proof -
  let ?W = "\<Sum>w\<leftarrow>ws. dval w"
  let ?x = "\<lambda>w. mval t * dval w / ?W * 10 ^ s"
  have "?x = (\<lambda>w. mval t * 10 ^ s / ?W * dval w)" by (simp add: fun_eq_iff)
  then have "(\<Sum>w\<leftarrow>ws. ?x w) = mval t * 10 ^ s / ?W * ?W" by (simp only: sum_list_const_mult)
  then have tot: "(\<Sum>w\<leftarrow>ws. ?x w) = of_int T" using W T by simp
  from rounding_error_sum [of ?x ws] show ?thesis unfolding tot .
qed

lemma of_int_sum_map: "of_int (\<Sum>x\<leftarrow>xs. f x) = (\<Sum>x\<leftarrow>xs. of_int (f x))"
  by (induction xs) simp_all

lemma share_sum_units:
  assumes "list_all2 (\<lambda>w m. represents m cur (of_int (h w) / 10 ^ s)) ws shares"
  shows "(\<Sum>m\<leftarrow>shares. mval m) = (\<Sum>w\<leftarrow>ws. of_int (h w)) / 10 ^ s"
  using assms by (induction rule: list_all2_induct) (auto simp: represents_def add_divide_distrib)

lemma slot_represented:
  assumes s: "cur_scale cur \<le> 28" and T: "mval t * 10 ^ cur_scale cur = of_int T"
    and room: "\<bar>T\<bar> + int n < 10 ^ 28" and h: "\<bar>h\<bar> \<le> \<bar>T\<bar>"
    and H: "\<bar>of_int T - of_int H\<bar> \<le> (of_nat n / 2 :: rat)"
  shows "\<exists>m. represents m cur (of_int h / 10 ^ cur_scale cur + (mval t - of_int H / 10 ^ cur_scale cur))"
proof -
  have "of_int \<bar>T - H\<bar> \<le> (of_int (int n) :: rat)" using H by simp
  then have "\<bar>T - H\<bar> \<le> int n" by (simp only: of_int_le_iff)
  then have "\<bar>h + (T - H)\<bar> < 10 ^ 28" using room h by linarith
  then have "\<exists>m. represents m cur (of_int (h + (T - H)) / 10 ^ cur_scale cur)" by (rule grid_represented [OF _ s])
  moreover have "mval t = of_int T / 10 ^ cur_scale cur" by (simp flip: T)
  ultimately show ?thesis by (simp add: add_divide_distrib diff_divide_distrib)
qed

lemma weight_le_sum: "(\<And>w. w \<in> set ws \<Longrightarrow> 0 \<le> dval w) \<Longrightarrow> w \<in> set ws \<Longrightarrow> dval w \<le> (\<Sum>w\<leftarrow>ws. dval w)"
  by (rule member_le_sum_list) (auto simp: image_iff)

lemma allocate_total:
  assumes D: "decimal_contract D" and s: "cur_scale (currency t) \<le> 28" and t: "posted_ok t"
    and n: "ws \<noteq> []" "length ws < 2 ^ 31"
    and w: "\<And>w. w \<in> set ws \<Longrightarrow> 0 \<le> dval w \<and> (\<exists>a. validate_amount D w = Inr a)"
    and W: "0 < (\<Sum>w\<leftarrow>ws. dval w)"
    and room: "\<bar>mval t\<bar> * 10 ^ cur_scale (currency t) + of_nat (length ws) < 10 ^ 28"
  shows "\<exists>out. allocate D t ws disp = Inr out"
proof -
  let ?W = "\<Sum>w\<leftarrow>ws. dval w" and ?s = "cur_scale (currency t)" and ?n = "length ws"
  let ?h = "\<lambda>w. half_even (mval t * dval w / ?W * 10 ^ ?s)"
  obtain T where T: "mval t * 10 ^ ?s = of_int T" using posted_units [OF t] .
  have "\<bar>mval t\<bar> * 10 ^ ?s = \<bar>mval t * 10 ^ ?s\<bar>" by (simp add: abs_mult)
  then have "of_int (\<bar>T\<bar> + int ?n) < (of_int (10 ^ 28) :: rat)" using room T by simp
  then have room': "\<bar>T\<bar> + int ?n < 10 ^ 28" by (simp only: of_int_less_iff)
  then have T28: "\<bar>T\<bar> < 10 ^ 28" by linarith
  have len: "?n \<le> 2 ^ 64" "?n + 2 \<le> 2 ^ 128" "?n + 1 \<le> 2 ^ 128" "?n \<le> 2 ^ 128" using n by simp_all
  have g: "dec_grid ?n ?W" using fold_add_value [OF len(1), of "\<lambda>x. x"] by simp
  have ready: "exact_ready (amount_of ?W)" by (rule dec_grid_ready [OF g len(4)])
  have le: "dval w \<le> ?W" if "w \<in> set ws" for w using w that by (intro weight_le_sum) auto
  have sum: "fold_result (add_weight D) ws (from_decimal dec_zero) = Inr (amount_of ?W)"
    using w by (simp add: add_weight_fold [OF D len(1)])
  have "\<exists>m. weight_share D t (amount_of ?W) w = Inr m" if "w \<in> set ws" for w
    using weight_share_total [OF D s t T T28 g len(1)] w [OF that] le [OF that] W by blast
  then obtain shares placed where
      shares: "fold_result (place_share D t (amount_of ?W)) ws ([], from_decimal dec_zero) = Inr (shares, placed)" and
      placed: "placed = amount_of (\<Sum>m\<leftarrow>shares. mval m)" "dec_grid ?n (\<Sum>m\<leftarrow>shares. mval m)"
    using place_shares_total [OF _ len(1), of D t "amount_of ?W"] by blast
  note S = place_shares [OF D s ready shares, unfolded exval_amount_of share_value_def]
  have L: "length shares = ?n" using S(1) by (simp add: list_all2_lengthD)
  have H: "(\<Sum>m\<leftarrow>shares. mval m) = of_int (\<Sum>w\<leftarrow>ws. ?h w) / 10 ^ ?s"
    using share_sum_units [OF S(1)] by (simp add: of_int_sum_map)
  obtain i where i: "residual_index D disp ws ?n = Some i" "i < ?n" using residual_index_Some [OF D n(1)] by blast
  have hi: "represents (shares ! i) (currency t) (of_int (?h (ws ! i)) / 10 ^ ?s)"
    using list_all2_nthD [OF S(1) i(2)] .
  have wi: "ws ! i \<in> set ws" using i(2) by simp
  let ?r = "mval t - (\<Sum>m\<leftarrow>shares. mval m)"
  have gr: "dec_grid (?n + 1) ?r" using dec_grid_add [OF dec_grid_dval [of "amount t"], of ?n "- (\<Sum>m\<leftarrow>shares. mval m)"] placed(2) by simp
  have res: "checked_sub (from_decimal (amount t)) placed = Inr (amount_of ?r)"
    using dec_grid_narrow [OF gr len(3)] S(2,3) by (simp add: checked_sub_narrow)
  have ga: "dec_grid (1 + (?n + 1)) (mval (shares ! i) + ?r)" by (intro dec_grid_add dec_grid_dval gr)
  have adj: "checked_add (from_decimal (amount (shares ! i))) (amount_of ?r) = Inr (amount_of (mval (shares ! i) + ?r))"
    using dec_grid_narrow [OF ga] dec_grid_ready [OF gr len(3)] len(2) by (simp add: checked_add_narrow)
  have "\<exists>m. represents m (currency t) (mval (shares ! i) + ?r)"
  proof -
    have "\<bar>?h (ws ! i)\<bar> \<le> \<bar>T\<bar>" using w [OF wi] le [OF wi] W by (intro share_units_bound [OF T]) auto
    moreover have "\<bar>of_int T - of_int (\<Sum>w\<leftarrow>ws. ?h w)\<bar> \<le> (of_nat ?n / 2 :: rat)"
      using residual_units [OF T W] by (simp add: of_int_sum_map)
    ultimately show ?thesis
      using slot_represented [OF s T room'] hi H by (simp add: represents_def)
  qed
  then obtain slot where "into_posted_exact D (amount_of (mval (shares ! i) + ?r)) (currency t) = Inr slot"
    using into_posted_exact_Inr [OF D dec_grid_ready [OF ga] s] len(2) by auto
  then have "allocate D t ws disp = Inr (shares[i := slot])"
    using n sum shares res i adj L by (simp add: allocate_def validate_count_def)
  then show ?thesis by blast
qed

end
