(* ===== verification/Precedence.thy ===== *)
theory Precedence
  imports Settlement Allocate "HOL-Library.Option_ord" "HOL-Library.Multiset"
begin

text \<open>
  \<open>ledger/src/domain/payment/precedence.rs\<close>: how a lump of cash is split over open invoices.
  Both strategies sort the candidates (\<open>sort_by\<close>, the stable sort of the standard library), move a
  hinted invoice to the front and fill in order.  \<open>spill\<close> is the fill on plain numbers; the exact
  arithmetic of \<open>fill_loop\<close> computes it.
\<close>

section \<open>Types and orders\<close>

datatype precedence_strategy = OldestFirst | HighestAmountFirst

definition DEFAULT_PRECEDENCE_POLICY :: string where
  "DEFAULT_PRECEDENCE_POLICY = ''oldest-first.v1''"

fun policy_ref :: "precedence_strategy \<Rightarrow> string" where
  "policy_ref OldestFirst = ''oldest-first.v1''"
| "policy_ref HighestAmountFirst = ''highest-amount-first.v1''"

definition parse_strategy :: "string \<Rightarrow> precedence_strategy option" where
  "parse_strategy s =
     (if s = ''oldest-first.v1'' then Some OldestFirst
      else if s = ''highest-amount-first.v1'' then Some HighestAmountFirst
      else None)"

record candidate =
  cd_invoice_id :: string
  cd_open :: posted_money
  cd_original_posted_at :: "offset_date_time option"

record allocated =
  al_invoice_id :: string
  al_amount :: posted_money

definition lin_cmp :: "'a::linorder \<Rightarrow> 'a \<Rightarrow> ordering" where
  "lin_cmp a b = (if a < b then Less else if a = b then Equal else Greater)"

fun ord_then :: "ordering \<Rightarrow> ordering \<Rightarrow> ordering" where
  "ord_then Equal d = d"
| "ord_then c _ = c"

definition oldest_order :: "candidate \<Rightarrow> candidate \<Rightarrow> ordering" where
  "oldest_order a b =
     (let key_a = (cd_original_posted_at a = None, cd_original_posted_at a);
          key_b = (cd_original_posted_at b = None, cd_original_posted_at b)
      in ord_then (lin_cmp key_a key_b) (lin_cmp (cd_invoice_id a) (cd_invoice_id b)))"

definition highest_order :: "decimal_ops \<Rightarrow> candidate \<Rightarrow> candidate \<Rightarrow> ordering" where
  "highest_order D a b =
     ord_then (dec_cmp D (amount (cd_open b)) (amount (cd_open a))) (lin_cmp (cd_invoice_id a) (cd_invoice_id b))"

section \<open>Sorting and filling\<close>

text \<open>\<open>slice::sort_by\<close>, a stable sort: equal elements keep their order.\<close>

fun insert_by :: "('a \<Rightarrow> 'a \<Rightarrow> ordering) \<Rightarrow> 'a \<Rightarrow> 'a list \<Rightarrow> 'a list" where
  "insert_by cmp x [] = [x]"
| "insert_by cmp x (y # ys) = (if cmp x y \<noteq> Greater then x # y # ys else y # insert_by cmp x ys)"

definition sort_by :: "('a \<Rightarrow> 'a \<Rightarrow> ordering) \<Rightarrow> 'a list \<Rightarrow> 'a list" where
  "sort_by cmp xs = foldr (insert_by cmp) xs []"

definition hint_front :: "string option \<Rightarrow> candidate list \<Rightarrow> candidate list" where
  "hint_front hint ordered =
     (case hint of
        None \<Rightarrow> ordered
      | Some h \<Rightarrow>
          (let before = takeWhile (\<lambda>c. cd_invoice_id c \<noteq> h) ordered
           in case dropWhile (\<lambda>c. cd_invoice_id c \<noteq> h) ordered of
                [] \<Rightarrow> ordered
              | hinted # after \<Rightarrow> hinted # before @ after))"

fun fill_loop :: "decimal_ops \<Rightarrow> currency_spec \<Rightarrow> candidate list \<Rightarrow> exact_amount \<Rightarrow> domain_error + allocated list" where
  "fill_loop D cur [] remaining = Inr []"
| "fill_loop D cur (cand # cs) remaining =
     (if exact_eq remaining (from_decimal dec_zero) \<or> exact_negative remaining then Inr []
      else if dec_le D (amount (cd_open cand)) dec_zero then fill_loop D cur cs remaining
      else let opened = from_decimal (amount (cd_open cand))
           in rbind (map_err map_exact_error (checked_sub remaining opened)) (\<lambda>difference.
                let give = (if exact_negative difference then remaining else opened)
                in rbind (map_err map_exact_error (checked_sub remaining give)) (\<lambda>remaining'.
                   rbind (map_err map_exact_error (into_posted_exact D give cur)) (\<lambda>share.
                   rbind (fill_loop D cur cs remaining') (\<lambda>rest.
                     Inr (\<lparr>al_invoice_id = cd_invoice_id cand, al_amount = share\<rparr> # rest))))))"

definition fill ::
  "decimal_ops \<Rightarrow> candidate list \<Rightarrow> posted_money \<Rightarrow> string option \<Rightarrow> (candidate \<Rightarrow> candidate \<Rightarrow> ordering)
   \<Rightarrow> domain_error + allocated list" where
  "fill D candidates lump hint order =
     rbind (each_result (\<lambda>c. matching_spec lump (cd_open c)) candidates) (\<lambda>_.
       fill_loop D (currency lump) (hint_front hint (sort_by order candidates)) (from_decimal (amount lump)))"

definition oldest_first ::
  "decimal_ops \<Rightarrow> candidate list \<Rightarrow> posted_money \<Rightarrow> string option \<Rightarrow> domain_error + allocated list" where
  "oldest_first D candidates lump hint = fill D candidates lump hint oldest_order"

definition highest_amount_first ::
  "decimal_ops \<Rightarrow> candidate list \<Rightarrow> posted_money \<Rightarrow> string option \<Rightarrow> domain_error + allocated list" where
  "highest_amount_first D candidates lump hint = fill D candidates lump hint (highest_order D)"

definition select_split ::
  "decimal_ops \<Rightarrow> candidate list \<Rightarrow> posted_money \<Rightarrow> string option \<Rightarrow> precedence_strategy
   \<Rightarrow> domain_error + allocated list" where
  "select_split D candidates lump hint strategy =
     (case strategy of
        OldestFirst \<Rightarrow> oldest_first D candidates lump hint
      | HighestAmountFirst \<Rightarrow> highest_amount_first D candidates lump hint)"

lemma parse_strategy_iff: "parse_strategy s = Some p \<longleftrightarrow> s = policy_ref p"
  by (cases p) (auto simp: parse_strategy_def)

section \<open>The order is a key sort\<close>

definition oldest_key :: "candidate \<Rightarrow> (bool \<times> offset_date_time option) \<times> string" where
  "oldest_key c = ((cd_original_posted_at c = None, cd_original_posted_at c), cd_invoice_id c)"

definition highest_key :: "candidate \<Rightarrow> rat \<times> string" where
  "highest_key c = (- mval (cd_open c), cd_invoice_id c)"

lemma sort_by_key:
  assumes "\<And>a b. cmp a b \<noteq> Greater \<longleftrightarrow> key a \<le> (key b :: 'k::linorder)"
  shows "sort_by cmp xs = sort_key key xs"
proof -
  have "insert_by cmp x ys = insort_key key x ys" for x ys
    by (induction ys) (simp_all add: assms)
  then have "insert_by cmp = insort_key key" by (intro ext)
  then show ?thesis by (simp add: sort_by_def sort_key_def)
qed

lemma ord_then_key: "ord_then (lin_cmp a b) (lin_cmp c d) \<noteq> Greater \<longleftrightarrow> (a, c) \<le> (b, d)"
  by (auto simp: lin_cmp_def less_eq_prod_def)

lemma oldest_sort: "sort_by oldest_order cs = sort_key oldest_key cs"
  by (rule sort_by_key) (simp only: oldest_order_def oldest_key_def Let_def ord_then_key)

lemma highest_sort:
  assumes "decimal_contract D"
  shows "sort_by (highest_order D) cs = sort_key highest_key cs"
proof (rule sort_by_key)
  fix a b :: candidate
  have "dec_cmp D (amount (cd_open b)) (amount (cd_open a)) = lin_cmp (- mval (cd_open a)) (- mval (cd_open b))"
    using assms by (simp add: decimal_contract_def rat_cmp_def lin_cmp_def)
  then show "highest_order D a b \<noteq> Greater \<longleftrightarrow> highest_key a \<le> highest_key b"
    by (simp only: highest_order_def highest_key_def ord_then_key)
qed

definition strategy_order :: "decimal_ops \<Rightarrow> precedence_strategy \<Rightarrow> candidate \<Rightarrow> candidate \<Rightarrow> ordering" where
  "strategy_order D p = (case p of OldestFirst \<Rightarrow> oldest_order | HighestAmountFirst \<Rightarrow> highest_order D)"

lemma select_split_fill: "select_split D cs lump hint p = fill D cs lump hint (strategy_order D p)"
  by (cases p) (simp_all add: select_split_def strategy_order_def oldest_first_def highest_amount_first_def)

lemma mset_sort_strategy: "decimal_contract D \<Longrightarrow> mset (sort_by (strategy_order D p) cs) = mset cs"
  by (cases p) (simp_all add: strategy_order_def oldest_sort highest_sort)

lemma set_sort_strategy: "decimal_contract D \<Longrightarrow> set (sort_by (strategy_order D p) cs) = set cs"
  using mset_sort_strategy [of D p cs] by (metis set_mset_mset)

text \<open>With distinct invoices the order of the input does not matter.\<close>

lemma sort_strategy_permutation:
  assumes D: "decimal_contract D" and perm: "mset cs = mset ds" and inj: "inj_on cd_invoice_id (set cs)"
  shows "sort_by (strategy_order D p) cs = sort_by (strategy_order D p) ds"
proof -
  have ko: "inj_on oldest_key (set cs)" and kh: "inj_on highest_key (set cs)"
    using inj by (auto simp: inj_on_def oldest_key_def highest_key_def)
  have sorts: "sort_key k cs = sort_key k ds" if "inj_on k (set cs)" for k :: "candidate \<Rightarrow> 'k::linorder"
    using that perm by (intro sort_key_inj_key_eq) simp_all
  show ?thesis
    by (cases p) (simp_all add: strategy_order_def oldest_sort highest_sort [OF D] sorts [OF ko] sorts [OF kh])
qed

lemma mset_hint_front: "mset (hint_front hint cs) = mset cs"
proof (cases hint)
  case (Some h)
  let ?P = "\<lambda>c. cd_invoice_id c \<noteq> h"
  have "mset cs = mset (takeWhile ?P cs) + mset (dropWhile ?P cs)"
    by (metis mset_append takeWhile_dropWhile_id)
  then show ?thesis using Some by (auto simp: hint_front_def Let_def split: list.splits)
qed (simp add: hint_front_def)

section \<open>The fill on plain numbers\<close>

fun spill :: "rat \<Rightarrow> (string \<times> rat) list \<Rightarrow> (string \<times> rat) list" where
  "spill r [] = []"
| "spill r ((i, q) # cs) =
     (if r \<le> 0 then []
      else if q \<le> 0 then spill r cs
      else (i, min r q) # spill (r - min r q) cs)"

definition open_total :: "(string \<times> rat) list \<Rightarrow> rat" where
  "open_total cs = (\<Sum>(i, q)\<leftarrow>cs. max 0 q)"

lemma open_total_simps [simp]:
  "open_total [] = 0" "open_total ((i, q) # cs) = max 0 q + open_total cs"
  "open_total (cs @ ds) = open_total cs + open_total ds"
  by (simp_all add: open_total_def)

lemma open_total_nonneg: "0 \<le> open_total cs"
  by (induction cs) auto

lemma spill_stop: "r \<le> 0 \<Longrightarrow> spill r cs = []"
  by (induction r cs rule: spill.induct) auto

lemma spill_total: "(\<Sum>(i, q)\<leftarrow>spill r cs. q) = min (max 0 r) (open_total cs)"
proof (induction r cs rule: spill.induct)
  case (2 r i q cs)
  have "0 \<le> open_total cs" by (rule open_total_nonneg)
  with 2 show ?case by (auto simp: min_def max_def)
qed auto

lemma spill_member:
  assumes "(i, p) \<in> set (spill r cs)"
  shows "0 < p" "\<exists>q. (i, q) \<in> set cs \<and> p \<le> q"
proof -
  have "0 < p \<and> (\<exists>q. (i, q) \<in> set cs \<and> p \<le> q)"
    using assms by (induction r cs rule: spill.induct) (auto simp: min_def split: if_splits)
  then show "0 < p" "\<exists>q. (i, q) \<in> set cs \<and> p \<le> q" by blast+
qed

lemma spill_length: "length (spill r cs) \<le> length cs"
  by (induction r cs rule: spill.induct) auto

lemma spill_ids: "distinct (map fst cs) \<Longrightarrow> distinct (map fst (spill r cs))"
proof (induction r cs rule: spill.induct)
  case (2 r i q cs)
  have "i \<in> fst ` set (spill x cs) \<Longrightarrow> i \<in> fst ` set cs" for x using spill_member(2) by force
  with 2 show ?case by auto
qed simp

text \<open>Precedence: nothing reaches a later invoice before every earlier one is paid in full.\<close>

lemma spill_append: "spill r (xs @ ys) = spill r xs @ spill (r - open_total xs) ys"
proof (induction r xs rule: spill.induct)
  case (2 r i q cs)
  have "0 \<le> open_total cs" by (rule open_total_nonneg)
  with 2 show ?case by (auto simp: spill_stop min_def max_def algebra_simps)
qed simp

lemma spill_priority:
  assumes "(j, p) \<in> set (spill r (xs @ (j, q) # ys))" "j \<notin> fst ` set xs" "(i, v) \<in> set xs" "0 < v"
  shows "(i, v) \<in> set (spill r xs)"
proof -
  have "(j, p) \<notin> set (spill r xs)" using spill_member(2) assms(2) by force
  then have "spill (r - open_total xs) ((j, q) # ys) \<noteq> []" using assms(1) by (auto simp: spill_append)
  then have "open_total xs < r" using spill_stop [of "r - open_total xs" "(j, q) # ys"] by linarith
  then show ?thesis using assms(3,4)
  proof (induction xs arbitrary: r)
    case (Cons x xs)
    obtain k w where x: "x = (k, w)" by fastforce
    have "0 \<le> open_total xs" by (rule open_total_nonneg)
    with Cons x show ?case by (auto simp: min_def max_def split: if_splits)
  qed simp
qed

section \<open>The exact fill computes it\<close>

definition candidate_value :: "candidate \<Rightarrow> string \<times> rat" where
  "candidate_value c = (cd_invoice_id c, mval (cd_open c))"

definition allocated_value :: "allocated \<Rightarrow> string \<times> rat" where
  "allocated_value a = (al_invoice_id a, mval (al_amount a))"

lemma exact_negative_value: "exact_ready e \<Longrightarrow> exact_negative e \<longleftrightarrow> exval e < 0"
  using ready_facts(1) [of e] by (simp add: exact_negative_def exval_def divide_less_0_iff)

lemma fill_stop:
  assumes "dec_grid k r" "k \<le> 2 ^ 64"
  shows "exact_eq (amount_of r) (from_decimal dec_zero) \<or> exact_negative (amount_of r) \<longleftrightarrow> r \<le> 0"
proof -
  have "exact_ready (amount_of r)" using assms by (intro dec_grid_ready [of k]) simp_all
  then show ?thesis using exact_eq_zero [OF assms] by (auto simp: exact_negative_value)
qed

text \<open>One step of the loop, on values.\<close>

lemma fill_loop_step:
  assumes D: "decimal_contract D" and g: "dec_grid k r" and k: "k < 2 ^ 64"
  shows "fill_loop D cur (c # cs) (amount_of r) =
    (if r \<le> 0 then Inr []
     else if mval (cd_open c) \<le> 0 then fill_loop D cur cs (amount_of r)
     else rbind (map_err map_exact_error (into_posted_exact D (amount_of (min r (mval (cd_open c)))) cur)) (\<lambda>share.
          rbind (fill_loop D cur cs (amount_of (r - min r (mval (cd_open c))))) (\<lambda>rest.
            Inr (\<lparr>al_invoice_id = cd_invoice_id c, al_amount = share\<rparr> # rest))))"
proof -
  let ?o = "mval (cd_open c)"
  have ready: "exact_ready (amount_of r)" using k by (intro dec_grid_ready [OF g]) simp
  have gd: "dec_grid (Suc k) (r - ?o)"
    using dec_grid_add [OF g, of 1 "- ?o"] dec_grid_dval [of "amount (cd_open c)"] by simp
  have d: "checked_sub (amount_of r) (from_decimal (amount (cd_open c))) = Inr (amount_of (r - ?o))"
    using dec_grid_narrow [OF gd] k by (simp add: checked_sub_narrow [OF ready])
  have rd: "exact_ready (amount_of (r - ?o))" using k by (intro dec_grid_ready [OF gd]) simp
  have z: "checked_sub (amount_of r) (amount_of r) = Inr (amount_of 0)"
    using dec_grid_narrow [of 0 0] by (simp add: checked_sub_narrow [OF ready ready])
  have s: "exact_eq (amount_of r) (from_decimal dec_zero) \<or> exact_negative (amount_of r) \<longleftrightarrow> r \<le> 0"
    using k by (intro fill_stop [OF g]) simp
  show ?thesis
    unfolding fill_loop.simps s
    by (simp add: contract_compare [OF D] not_less d Let_def exact_negative_value [OF rd] z
        from_decimal_amount_of [symmetric] min_def)
qed

lemma dec_grid_after:
  assumes "dec_grid k r"
  shows "dec_grid (Suc k) (r - min r (mval m))"
  using dec_grid_add [OF assms, of 1 "- mval m"] dec_grid_dval [of "amount m"] by (simp add: min_def)

lemma fill_loop_spill:
  assumes D: "decimal_contract D" and s: "cur_scale cur \<le> 28"
    and "dec_grid k r" "k + length cs \<le> 2 ^ 64" "fill_loop D cur cs (amount_of r) = Inr out"
  shows "map allocated_value out = spill r (map candidate_value cs)"
    "\<forall>a\<in>set out. posted_ok (al_amount a) \<and> currency (al_amount a) = cur"
proof -
  have "map allocated_value out = spill r (map candidate_value cs) \<and>
      (\<forall>a\<in>set out. posted_ok (al_amount a) \<and> currency (al_amount a) = cur)"
    using assms(3-5)
  proof (induction cs arbitrary: k r out)
    case (Cons c cs)
    let ?g = "min r (mval (cd_open c))"
    have k: "k < 2 ^ 64" using Cons.prems by simp
    note step = fill_loop_step [OF D Cons.prems(1) k, of cur c cs]
    show ?case
    proof (cases "0 < r \<and> 0 < mval (cd_open c)")
      case True
      then obtain share rest where sh: "into_posted_exact D (amount_of ?g) cur = Inr share"
          and rest: "fill_loop D cur cs (amount_of (r - ?g)) = Inr rest"
          and out: "out = \<lparr>al_invoice_id = cd_invoice_id c, al_amount = share\<rparr> # rest"
        using Cons.prems(3) unfolding step by auto
      have ga: "dec_grid (Suc k) (r - ?g)" by (rule dec_grid_after [OF Cons.prems(1)])
      have "dec_grid (k + 1) ?g"
        using Cons.prems(1) dec_grid_dval [of "amount (cd_open c)"] dec_grid_add [of k r 1 0]
          dec_grid_add [of 1 "mval (cd_open c)" k 0] by (simp add: min_def)
      then have "exact_ready (amount_of ?g)" using k by (intro dec_grid_ready [of "k + 1"]) simp_all
      then have "represents share cur ?g" using sh by (simp add: into_posted_exact_Inr [OF D _ s])
      moreover have "Suc k + length cs \<le> 2 ^ 64" using Cons.prems(2) by simp
      ultimately show ?thesis
        using Cons.IH [OF ga _ rest] True
        by (simp add: out allocated_value_def candidate_value_def represents_def)
    next
      case False
      have "k + length cs \<le> 2 ^ 64" using Cons.prems(2) by simp
      with False Cons.IH [OF Cons.prems(1)] Cons.prems(3) show ?thesis
        unfolding step by (auto simp: candidate_value_def split: if_splits)
    qed
  qed simp
  then show "map allocated_value out = spill r (map candidate_value cs)"
    "\<forall>a\<in>set out. posted_ok (al_amount a) \<and> currency (al_amount a) = cur" by blast+
qed

section \<open>The split\<close>

definition fill_order :: "decimal_ops \<Rightarrow> candidate list \<Rightarrow> string option \<Rightarrow> precedence_strategy \<Rightarrow> candidate list" where
  "fill_order D cs hint p = hint_front hint (sort_by (strategy_order D p) cs)"

text \<open>The order a strategy means: the key sort, with the hinted invoice in front.\<close>

definition precedence_order :: "precedence_strategy \<Rightarrow> string option \<Rightarrow> candidate list \<Rightarrow> candidate list" where
  "precedence_order p hint cs =
     (let ordered = (case p of OldestFirst \<Rightarrow> sort_key oldest_key cs | HighestAmountFirst \<Rightarrow> sort_key highest_key cs)
      in case hint of
           None \<Rightarrow> ordered
         | Some h \<Rightarrow> filter (\<lambda>c. cd_invoice_id c = h) ordered @ filter (\<lambda>c. cd_invoice_id c \<noteq> h) ordered)"

lemma hint_front_filter:
  assumes "distinct (map cd_invoice_id xs)"
  shows "hint_front (Some h) xs = filter (\<lambda>c. cd_invoice_id c = h) xs @ filter (\<lambda>c. cd_invoice_id c \<noteq> h) xs"
proof (cases "dropWhile (\<lambda>c. cd_invoice_id c \<noteq> h) xs")
  case Nil
  then have "\<forall>c\<in>set xs. cd_invoice_id c \<noteq> h" by (simp add: dropWhile_eq_Nil_conv)
  then have "filter (\<lambda>c. cd_invoice_id c = h) xs = []" "filter (\<lambda>c. cd_invoice_id c \<noteq> h) xs = xs"
    by (simp_all add: filter_empty_conv filter_id_conv)
  then show ?thesis unfolding hint_front_def Let_def option.case Nil by simp
next
  case (Cons c after)
  define before where "before = takeWhile (\<lambda>c. cd_invoice_id c \<noteq> h) xs"
  have xs: "xs = before @ c # after" using takeWhile_dropWhile_id [of "\<lambda>c. cd_invoice_id c \<noteq> h" xs]
    by (simp add: before_def Cons)
  have c: "cd_invoice_id c = h" using hd_dropWhile [of "\<lambda>c. cd_invoice_id c \<noteq> h" xs] Cons by simp
  have others: "\<forall>d\<in>set before \<union> set after. cd_invoice_id d \<noteq> h" 
    using assms c by (auto simp: xs dest: sym intro: rev_image_eqI)
  then have "filter (\<lambda>c. cd_invoice_id c = h) xs = [c]" "filter (\<lambda>c. cd_invoice_id c \<noteq> h) xs = before @ after"
    using c by (simp_all add: xs filter_empty_conv filter_id_conv)
  with Cons show ?thesis by (simp add: hint_front_def Let_def before_def)
qed

lemma fill_order_precedence:
  assumes D: "decimal_contract D" and ids: "distinct (map cd_invoice_id cs)"
  shows "fill_order D cs hint p = precedence_order p hint cs"
proof -
  have sort: "sort_by (strategy_order D p) cs =
      (case p of OldestFirst \<Rightarrow> sort_key oldest_key cs | HighestAmountFirst \<Rightarrow> sort_key highest_key cs)"
    by (cases p) (simp_all add: strategy_order_def oldest_sort highest_sort [OF D])
  have "mset (map cd_invoice_id (sort_by (strategy_order D p) cs)) = mset (map cd_invoice_id cs)"
    by (simp add: mset_sort_strategy [OF D])
  then have "distinct (map cd_invoice_id (sort_by (strategy_order D p) cs))"
    using ids mset_eq_imp_distinct_iff by metis
  from hint_front_filter [OF this] show ?thesis
    unfolding fill_order_def precedence_order_def sort [symmetric] Let_def
    by (cases hint) (simp_all add: hint_front_def)
qed

lemma mset_fill_order: "decimal_contract D \<Longrightarrow> mset (fill_order D cs hint p) = mset cs"
  by (simp add: fill_order_def mset_hint_front mset_sort_strategy)

lemma set_fill_order: "decimal_contract D \<Longrightarrow> set (fill_order D cs hint p) = set cs"
  by (metis mset_fill_order set_mset_mset)

lemma length_fill_order: "decimal_contract D \<Longrightarrow> length (fill_order D cs hint p) = length cs"
  by (metis mset_fill_order size_mset)

lemma open_total_fill_order:
  assumes "decimal_contract D"
  shows "open_total (map candidate_value (fill_order D cs hint p)) = (\<Sum>c\<leftarrow>cs. max 0 (mval (cd_open c)))"
proof -
  have sum: "open_total (map candidate_value xs) = (\<Sum>c\<in>#mset xs. max 0 (mval (cd_open c)))" for xs
    by (induction xs) (simp_all add: candidate_value_def)
  have "(\<Sum>c\<leftarrow>cs. max 0 (mval (cd_open c))) = (\<Sum>c\<in>#mset cs. max 0 (mval (cd_open c)))"
    by (metis mset_map sum_mset_sum_list)
  then show ?thesis by (simp only: sum mset_fill_order [OF assms])
qed

lemma select_split_Inr:
  assumes D: "decimal_contract D" and lump: "posting_ok lump" and len: "length cs < 2 ^ 64"
    and run: "select_split D cs lump hint p = Inr out"
  shows "\<forall>c\<in>set cs. currency (cd_open c) = currency lump"
    "map allocated_value out = spill (mval lump) (map candidate_value (fill_order D cs hint p))"
    "\<forall>a\<in>set out. posted_ok (al_amount a) \<and> currency (al_amount a) = currency lump"
proof -
  have s: "cur_scale (currency lump) \<le> 28" using lump by (simp add: posting_ok_def)
  from run have m: "\<forall>c\<in>set cs. currency lump = currency (cd_open c)"
    and f: "fill_loop D (currency lump) (fill_order D cs hint p) (amount_of (mval lump)) = Inr out"
    by (auto simp: select_split_fill fill_def fill_order_def from_decimal_amount_of)
  then show "\<forall>c\<in>set cs. currency (cd_open c) = currency lump" by simp
  have k: "1 + length (fill_order D cs hint p) \<le> 2 ^ 64" using len length_fill_order [OF D] by simp
  show "map allocated_value out = spill (mval lump) (map candidate_value (fill_order D cs hint p))"
    "\<forall>a\<in>set out. posted_ok (al_amount a) \<and> currency (al_amount a) = currency lump"
    by (rule fill_loop_spill [OF D s dec_grid_dval k f])+
qed

lemma fill_loop_total:
  assumes D: "decimal_contract D" and s: "cur_scale cur \<le> 28"
    and "dec_grid k r" "k + length cs \<le> 2 ^ 64" "r * 10 ^ cur_scale cur = of_int R" "R < 10 ^ 28"
    and "\<And>c. c \<in> set cs \<Longrightarrow> posted_ok (cd_open c) \<and> currency (cd_open c) = cur"
  shows "\<exists>out. fill_loop D cur cs (amount_of r) = Inr out"
  using assms(3-)
proof (induction cs arbitrary: k r R)
  case (Cons c cs)
  let ?o = "mval (cd_open c)" and ?s = "cur_scale cur"
  let ?g = "min r ?o"
  have k: "k < 2 ^ 64" "Suc k + length cs \<le> 2 ^ 64" "k + length cs \<le> 2 ^ 64" using Cons.prems by simp_all
  note step = fill_loop_step [OF D Cons.prems(1) k(1), of cur c cs]
  have c: "posted_ok (cd_open c)" "currency (cd_open c) = cur" using Cons.prems(5) by simp_all
  have rest: "\<And>d. d \<in> set cs \<Longrightarrow> posted_ok (cd_open d) \<and> currency (cd_open d) = cur" using Cons.prems(5) by simp
  show ?case
  proof (cases "0 < r \<and> 0 < ?o")
    case True
    obtain Q where Q: "?o * 10 ^ ?s = of_int Q" using posted_units [OF c(1)] c(2) by metis
    have r: "r = of_int R / 10 ^ ?s" by (simp flip: Cons.prems(3))
    have "\<exists>m. represents m cur ?g"
    proof (cases "r \<le> ?o")
      case le: True
      have "0 < r * 10 ^ ?s" using True by simp
      then have "0 < R" unfolding Cons.prems(3) by simp
      then have "\<bar>R\<bar> < 10 ^ 28" using Cons.prems(4) by simp
      from grid_represented [OF this s] le r show ?thesis by simp
    next
      case False
      then show ?thesis using c by (intro exI [of _ "cd_open c"]) (simp add: represents_def)
    qed
    moreover have "dec_grid (k + 1) ?g"
      using Cons.prems(1) dec_grid_dval [of "amount (cd_open c)"] dec_grid_add [of k r 1 0]
        dec_grid_add [of 1 ?o k 0] by (simp add: min_def)
    then have "exact_ready (amount_of ?g)" using k by (intro dec_grid_ready [of "k + 1"]) simp_all
    ultimately have "\<exists>share. into_posted_exact D (amount_of ?g) cur = Inr share"
      by (simp add: into_posted_exact_Inr [OF D _ s])
    moreover have "\<exists>out. fill_loop D cur cs (amount_of (r - ?g)) = Inr out"
    proof (rule Cons.IH [OF dec_grid_after [OF Cons.prems(1)] k(2) _ _ rest])
      show "(r - ?g) * 10 ^ ?s = of_int (if r \<le> ?o then 0 else R - Q)"
        using Q Cons.prems(3) by (simp add: min_def left_diff_distrib)
      have "0 < ?o * 10 ^ ?s" using True by simp
      then have "0 < Q" unfolding Q by simp
      then show "(if r \<le> ?o then 0 else R - Q) < 10 ^ 28" using Cons.prems(4) by simp
    qed
    ultimately show ?thesis using True unfolding step by auto
  next
    case False
    with Cons.IH [OF Cons.prems(1) k(3) Cons.prems(3,4) rest] show ?thesis unfolding step by auto
  qed
qed simp

lemma select_split_total:
  assumes D: "decimal_contract D" and lump: "posting_ok lump" and len: "length cs < 2 ^ 64"
    and cs: "\<And>c. c \<in> set cs \<Longrightarrow> posted_ok (cd_open c) \<and> currency (cd_open c) = currency lump"
    and small: "mval lump * 10 ^ cur_scale (currency lump) < 10 ^ 28"
  shows "\<exists>out. select_split D cs lump hint p = Inr out"
proof -
  have s: "cur_scale (currency lump) \<le> 28" and pl: "posted_ok lump" using lump by (simp_all add: posting_ok_def)
  obtain R where R: "mval lump * 10 ^ cur_scale (currency lump) = of_int R" using posted_units [OF pl] .
  have "of_int R < (of_int (10 ^ 28) :: rat)" using small R by simp
  then have R28: "R < 10 ^ 28" by (simp only: of_int_less_iff)
  have k: "1 + length (fill_order D cs hint p) \<le> 2 ^ 64" using len length_fill_order [OF D] by simp
  have "\<exists>out. fill_loop D (currency lump) (fill_order D cs hint p) (amount_of (mval lump)) = Inr out"
    by (rule fill_loop_total [OF D s dec_grid_dval k R R28]) (use cs set_fill_order [OF D] in auto)
  moreover have "each_result (\<lambda>c. matching_spec lump (cd_open c)) cs = Inr ()"
    using cs by (simp add: each_result_ok)
  ultimately show ?thesis
    unfolding select_split_fill fill_def by (simp add: fill_order_def from_decimal_amount_of)
qed

end
