(* ===== verification/Money_Properties.thy ===== *)
theory Money_Properties
  imports Allocate Iso
begin

text \<open>
  What the money crate (\<open>gears/bss/libs/money\<close>) promises, stated over the definitions of the theories
  below and proved from their lemmas.  The witnesses run the model with \<open>reference_decimal\<close>.
\<close>

lemmas reference_simps =
  reference_decimal_def reference_normalize_def reference_cmp_def dec_fits_numeric

lemma small_in_budget: "\<bar>k\<bar> < 10 ^ 28 \<Longrightarrow> \<bar>k\<bar> < FINAL_BOUND"
  using power_less_bounds [of 28] by simp

section \<open>Exact arithmetic\<close>

text \<open>C23: on reduced fractions within the 256-digit budget the four checked operations compute the
  rational sum, difference, product and quotient, reduced; they fail with \<open>ArithmeticLimit\<close> exactly
  when the reduced result is over the budget, and division by zero is \<open>DivisionByZero\<close>.\<close>

theorem exact_arithmetic_refines:
  assumes "exact_ready a" "exact_ready b"
  shows "checked_add a b = narrow (exval a + exval b) \<and>
    checked_sub a b = narrow (exval a - exval b) \<and>
    checked_mul a b = narrow (exval a * exval b) \<and>
    checked_div a b = (if exval b = 0 then Inl DivisionByZero else narrow (exval a / exval b))"
  using assms
  by (simp add: checked_add_narrow checked_sub_narrow checked_mul_narrow checked_div_narrow)

theorem exact_arithmetic_refines_witness:
  "checked_add (from_decimal (Decimal 125 2)) (from_decimal (Decimal 3 1)) = narrow (31 / 20) \<and>
   checked_div (from_decimal (Decimal 125 2)) (from_decimal (Decimal 0 1)) = Inl DivisionByZero"
  using exact_arithmetic_refines [of "from_decimal (Decimal 125 2)" "from_decimal (Decimal 3 1)"]
    exact_arithmetic_refines [of "from_decimal (Decimal 125 2)" "from_decimal (Decimal 0 1)"]
  by (simp add: dec_fits_numeric)

text \<open>C25: rounding to \<open>s\<close> decimal places gives the multiple of \<open>10^-s\<close> nearest to the value, and of two
  equally near ones the one with the even coefficient.\<close>

theorem round_half_even_nearest:
  assumes "exact_ready e" "s \<le> 28" "round_half_even_exact e s = Inr r"
  shows "\<exists>k. exval r = of_int k / 10 ^ s \<and> \<bar>exval e * 10 ^ s - of_int k\<bar> \<le> 1 / 2 \<and>
    (\<bar>exval e * 10 ^ s - of_int k\<bar> = 1 / 2 \<longrightarrow> even k)"
proof -
  have "exval r = of_int (half_even (exval e * 10 ^ s)) / 10 ^ s"
    using assms(3) narrow_ready by (auto simp: round_half_even_exact_narrow [OF assms(1,2)])
  then show ?thesis using half_even_nearest half_even_tie by blast
qed

lemma round_eighth: "round_half_even_exact (from_decimal (Decimal 125 3)) 2 = Inr (amount_of (3 / 25))"
proof -
  have "narrow (of_int 3 / of_int 25) = Inr (amount_of (of_int 3 / of_int 25))"
    by (rule narrow_parts) (use small_in_budget [of 3] small_in_budget [of 25] in simp_all)
  moreover have "half_even (25 / 2) = 12" by (rule half_even_unique) simp_all
  ultimately show ?thesis by (simp add: round_half_even_exact_narrow dec_fits_numeric)
qed

theorem round_half_even_nearest_witness:
  "\<exists>k. exval (amount_of (3 / 25)) = of_int k / 10 ^ 2 \<and>
     \<bar>exval (from_decimal (Decimal 125 3)) * 10 ^ 2 - of_int k\<bar> \<le> 1 / 2 \<and>
     (\<bar>exval (from_decimal (Decimal 125 3)) * 10 ^ 2 - of_int k\<bar> = 1 / 2 \<longrightarrow> even k)"
  using round_half_even_nearest [OF _ _ round_eighth] by simp

text \<open>C24: a fraction becomes a posting exactly when some validated amount of the currency has its value, and
  then it is that amount; otherwise the refusal says whether the value is off the currency's grid
  (\<open>InvalidPostingIncrement\<close>) or too large for the coefficient (\<open>AmountOutOfRange\<close>), and never panics.\<close>

theorem into_posted_exact_spec:
  assumes "decimal_contract D" "exact_ready e" "cur_scale cur \<le> 28"
  shows "(into_posted_exact D e cur = Inr m \<longleftrightarrow> represents m cur (exval e)) \<and>
    (into_posted_exact D e cur = Inl err \<longleftrightarrow>
      (\<forall>m. \<not> represents m cur (exval e)) \<and>
      err = MoneyErr (if on_grid (exval e) (cur_scale cur) then MoneyOutOfRange else InvalidPostingIncrement))"
  using into_posted_exact_Inr [OF assms] into_posted_exact_Inl [OF assms] by simp

theorem into_posted_exact_spec_witness:
  "into_posted_exact reference_decimal (from_decimal (Decimal 125 2)) \<lparr>code = ''USD'', cur_scale = 2\<rparr> =
     Inr \<lparr>amount = Decimal 125 2, currency = \<lparr>code = ''USD'', cur_scale = 2\<rparr>\<rparr>"
  using into_posted_exact_spec [OF reference_decimal_contract, of "from_decimal (Decimal 125 2)"
      "\<lparr>code = ''USD'', cur_scale = 2\<rparr>" "\<lparr>amount = Decimal 125 2, currency = \<lparr>code = ''USD'', cur_scale = 2\<rparr>\<rparr>"]
  by (simp add: represents_def posted_ok_def dec_canonical_def dec_fits_numeric)

text \<open>\<open>parse_fraction\<close> accepts the canonical text of a reduced, in-budget fraction and no other text.\<close>

theorem parse_fraction_canonical:
  "parse_fraction nt dt = Inr e \<longleftrightarrow> exact_ready e \<and> canonical_fraction e = (nt, dt)"
  by (rule parse_fraction_Inr)

text \<open>A fraction on the grid of a scale prints at that scale, and the exact parser reads the text back to
  the same fraction as long as it has at most 60 integer digits.\<close>

theorem canonical_at_scale_roundtrip:
  assumes "exact_ready e" "s \<le> 28" "on_grid (exval e) s" "\<bar>exval e\<bar> < 10 ^ 60"
  shows "\<exists>t. canonical_at_scale e s = Inr t \<and> exact_parse_decimal t = Inr e"
  by (rule canonical_at_scale_parse [OF assms])

theorem canonical_at_scale_roundtrip_witness:
  "\<exists>t. canonical_at_scale (from_decimal (Decimal (- 1250) 3)) 2 = Inr t \<and>
     exact_parse_decimal t = Inr (from_decimal (Decimal (- 1250) 3))"
  by (rule canonical_at_scale_roundtrip) (simp_all add: dec_fits_numeric on_grid_def)

text \<open>C35: printing a carrier and parsing the text is the same as validating the carrier, so a valid amount
  survives the round trip unchanged; and whatever the carrier parser accepts, the exact parser reads as
  the same number.\<close>

theorem decimal_text_roundtrip:
  assumes "decimal_contract D" "text_contract D"
  shows "parse_decimal D (canonical_decimal D v) = validate_amount D v \<and>
    (parse_decimal D t = Inr a \<longrightarrow> exact_parse_decimal t = Inr (from_decimal a))"
  using parse_canonical_decimal [OF assms] parse_decimal_exact [OF assms] by blast

lemma reference_validated: "validate_amount reference_decimal (Decimal 125 2) = Inr (Decimal 125 2)"
  by (simp add: validate_amount_def reference_simps numeral_2_eq_2 COEFFICIENT_LIMIT_def Let_def
      del: One_nat_def)

theorem decimal_text_roundtrip_witness:
  "parse_decimal reference_decimal (canonical_decimal reference_decimal (Decimal 125 2)) = Inr (Decimal 125 2) \<and>
   exact_parse_decimal (canonical_decimal reference_decimal (Decimal 125 2)) = Inr (from_decimal (Decimal 125 2))"
  using decimal_text_roundtrip [OF reference_decimal_ok, of "Decimal 125 2"
      "canonical_decimal reference_decimal (Decimal 125 2)" "Decimal 125 2"] reference_validated by simp

section \<open>Sums and allocation\<close>

text \<open>C33: the running sum with its integer fast path narrows to the same posting as the reference sum over
  exact fractions.\<close>

theorem scaled_sum_agrees:
  assumes D: "decimal_contract D" and s: "cur_scale cur \<le> 28" and len: "length xs \<le> 2 ^ 64"
    and cur: "\<forall>x\<in>set xs. currency x = cur"
  shows "rbind (fold_result (\<lambda>x. add_decimal D (amount x)) xs (sum_zero (cur_scale cur))) (\<lambda>t. to_posted D t cur) = Inr m
    \<longleftrightarrow> sum_posted D xs cur = Inr m"
proof -
  let ?Q = "\<lambda>i t. sum_ok t \<and> sum_value t = (\<Sum>x\<leftarrow>take i xs. mval x)"
  have step: "\<exists>t'. add_decimal D (amount (xs ! i)) t = Inr t' \<and> ?Q (Suc i) t'" if i: "i < length xs" and t: "?Q i t" for i t
  proof -
    have sum: "sum_value t + mval (xs ! i) = (\<Sum>x\<leftarrow>take (Suc i) xs. mval x)"
      using t i by (simp add: take_Suc_conv_app_nth)
    have "dec_grid (Suc i) (\<Sum>x\<leftarrow>take (Suc i) xs. mval x)"
      using fold_add_value [of "take (Suc i) xs" amount] i len by (simp add: min_absorb2 Suc_le_eq)
    then have "narrow (\<Sum>x\<leftarrow>take (Suc i) xs. mval x) = Inr (amount_of (\<Sum>x\<leftarrow>take (Suc i) xs. mval x))"
      using dec_grid_narrow [of "Suc i"] i len by simp
    then have "in_budget (amount_of (\<Sum>x\<leftarrow>take (Suc i) xs. mval x))"
      by (simp add: narrow_def split: if_splits)
    then show ?thesis
      using add_decimal_adds [OF D, of t "amount (xs ! i)"] t sum
      by (auto simp: sum_adds_def split: sum.splits)
  qed
  have "\<exists>t. fold_result (\<lambda>x. add_decimal D (amount x)) (take n xs) (sum_zero (cur_scale cur)) = Inr t \<and> ?Q n t"
    if "n \<le> length xs" for n
    using that
  proof (induction n)
    case 0
    then show ?case using s by simp
  next
    case (Suc n)
    then obtain t where "fold_result (\<lambda>x. add_decimal D (amount x)) (take n xs) (sum_zero (cur_scale cur)) = Inr t" "?Q n t"
      by auto
    with step [of n t] Suc.prems show ?case by (auto simp: take_Suc_conv_app_nth fold_result_append)
  qed
  from this [of "length xs"] obtain t where
      "fold_result (\<lambda>x. add_decimal D (amount x)) xs (sum_zero (cur_scale cur)) = Inr t"
      "sum_ok t" "sum_value t = (\<Sum>x\<leftarrow>xs. mval x)"
    by auto
  then show ?thesis using cur by (simp add: to_posted_Inr [OF D _ s] sum_posted_Inr [OF D s len])
qed

definition usd :: currency_spec where
  "usd = \<lparr>code = ''USD'', cur_scale = 2\<rparr>"

definition usd_amount :: "int \<Rightarrow> posted_money" where
  "usd_amount k = \<lparr>amount = Decimal k 2, currency = usd\<rparr>"

lemma usd_simps [simp]:
  "cur_scale usd = 2" "code usd = ''USD''" "currency (usd_amount k) = usd" "amount (usd_amount k) = Decimal k 2"
  by (simp_all add: usd_def usd_amount_def)

lemma usd_amount_ok: "\<not> 10 dvd k \<Longrightarrow> \<bar>k\<bar> < 10 ^ 28 \<Longrightarrow> posted_ok (usd_amount k)"
  by (auto simp: posted_ok_def dec_canonical_def dec_fits_numeric)

lemma usd_represents:
  "\<not> 10 dvd k \<Longrightarrow> \<bar>k\<bar> < 10 ^ 28 \<Longrightarrow> q = of_int k / 100 \<Longrightarrow> represents (usd_amount k) usd q"
  using usd_amount_ok by (simp add: represents_def dec_fits_numeric)

lemma reference_sum: "sum_posted reference_decimal [usd_amount 125, usd_amount 7] usd = Inr (usd_amount 132)"
  by (simp add: sum_posted_Inr [OF reference_decimal_contract] usd_represents dec_fits_numeric)

theorem scaled_sum_agrees_witness:
  "rbind (fold_result (\<lambda>x. add_decimal reference_decimal (amount x)) [usd_amount 125, usd_amount 7] (sum_zero (cur_scale usd)))
     (\<lambda>t. to_posted reference_decimal t usd) = Inr (usd_amount 132)"
  using scaled_sum_agrees [OF reference_decimal_contract, of usd "[usd_amount 125, usd_amount 7]" "usd_amount 132"]
    reference_sum by simp

text \<open>C12: the shares of an allocation are validated amounts in the total's currency, one per weight, that add up
  to the total exactly; every share but the one at the residual index is the proportional share rounded
  half to even, and the residual index is the last slot or the first of the heaviest weights.\<close>

theorem allocate_conserves:
  assumes D: "decimal_contract D" and s: "cur_scale (currency t) \<le> 28" and run: "allocate D t ws disp = Inr out"
  shows "length out = length ws \<and> (\<forall>m\<in>set out. posted_ok m \<and> currency m = currency t) \<and>
    (\<Sum>m\<leftarrow>out. mval m) = mval t \<and>
    (\<exists>i<length ws. (case disp of Last \<Rightarrow> i = length ws - 1 | Largest \<Rightarrow> best_index ws i) \<and>
       (\<forall>j<length ws. j \<noteq> i \<longrightarrow> mval (out ! j) = share_value t (\<Sum>w\<leftarrow>ws. dval w) (dval (ws ! j))))"
proof -
  obtain i where i: "residual_index D disp ws (length ws) = Some i" "i < length ws" and
      o: "length out = length ws" "\<And>m. m \<in> set out \<Longrightarrow> posted_ok m \<and> currency m = currency t"
         "(\<Sum>m\<leftarrow>out. mval m) = mval t"
         "\<And>j. j < length ws \<Longrightarrow> j \<noteq> i \<Longrightarrow> mval (out ! j) = share_value t (\<Sum>w\<leftarrow>ws. dval w) (dval (ws ! j))"
    by (rule allocate_Inr [OF D s run]) blast
  have "ws \<noteq> []" using i(2) by auto
  from residual_index_Some [OF D this, of disp] i(1)
  have "case disp of Last \<Rightarrow> i = length ws - 1 | Largest \<Rightarrow> best_index ws i" by auto
  with i(2) o show ?thesis by blast
qed

text \<open>C37: allocation of a total succeeds whenever the weights are valid, not negative, not all zero and within the
  segment-count range, and the total leaves room for one unit of the last place per weight.\<close>

theorem allocate_succeeds:
  assumes "decimal_contract D" "cur_scale (currency t) \<le> 28" "posted_ok t"
    and "ws \<noteq> []" "length ws < 2 ^ 31"
    and "\<forall>w\<in>set ws. 0 \<le> dval w \<and> (\<exists>a. validate_amount D w = Inr a)"
    and "0 < (\<Sum>w\<leftarrow>ws. dval w)"
    and "\<bar>mval t\<bar> * 10 ^ cur_scale (currency t) + of_nat (length ws) < 10 ^ 28"
  shows "\<exists>out. allocate D t ws disp = Inr out"
  using assms by (intro allocate_total) auto

lemma reference_validate: "\<bar>mantissa d\<bar> < 10 ^ 28 \<Longrightarrow> \<exists>a. validate_amount reference_decimal d = Inr a"
  using posted_try_new_complete [OF reference_decimal_contract, of d "\<lparr>code = [], cur_scale = 28\<rparr>"]
    dec_scale_le [of d] by (auto simp: posted_try_new_def)

theorem allocate_succeeds_witness:
  "\<exists>out. allocate reference_decimal (usd_amount 1001) [Decimal 1 0, Decimal 1 0, Decimal 1 0] Last = Inr out"
  by (rule allocate_succeeds [OF reference_decimal_contract])
    (auto intro!: usd_amount_ok reference_validate simp: dec_fits_numeric)

lemma reference_allocation:
  obtains out where "allocate reference_decimal (usd_amount 1001) [Decimal 1 0, Decimal 1 0, Decimal 1 0] Last = Inr out"
proof -
  have "\<exists>out. allocate reference_decimal (usd_amount 1001) [Decimal 1 0, Decimal 1 0, Decimal 1 0] Last = Inr out"
    by (rule allocate_total [OF reference_decimal_contract])
      (auto intro!: usd_amount_ok reference_validate simp: dec_fits_numeric)
  then show thesis using that by blast
qed

theorem allocate_conserves_witness:
  "\<exists>out. allocate reference_decimal (usd_amount 1001) [Decimal 1 0, Decimal 1 0, Decimal 1 0] Last = Inr out \<and>
     length out = 3 \<and> (\<Sum>m\<leftarrow>out. mval m) = 1001 / 100"
proof -
  obtain out where o: "allocate reference_decimal (usd_amount 1001) [Decimal 1 0, Decimal 1 0, Decimal 1 0] Last = Inr out"
    by (rule reference_allocation)
  from allocate_conserves [OF reference_decimal_contract _ o] o show ?thesis by (auto simp: dec_fits_numeric)
qed

section \<open>Currency scales\<close>

text \<open>The binary search over the ISO table finds exactly what the table lists, and every listed scale is at
  most 4.\<close>

theorem iso_scale_table:
  "iso_scale c = map_of ISO_4217 c \<and> length ISO_4217 = 165 \<and> list_all (\<lambda>(c, s). length c = 3 \<and> s \<le> 4) ISO_4217"
  using ISO_4217_shape by (auto simp: iso_scale_lookup list_all_iff)

end
