(* ===== verification/Payment_Properties.thy ===== *)
theory Payment_Properties
  imports Precedence Money_Properties
begin

text \<open>
  What the posting engine's entry check, the settlement builders and the split of a payment over open
  invoices promise (\<open>ledger/src/domain/posting.rs\<close>, \<open>ledger/src/infra/posting/service.rs\<close>,
  \<open>ledger/src/domain/payment\<close>).
\<close>

lemma usd_posting_ok: "\<not> 10 dvd k \<Longrightarrow> \<bar>k\<bar> < 10 ^ 28 \<Longrightarrow> posting_ok (usd_amount k)"
  using usd_amount_ok by (simp add: posting_ok_def)

lemma usd_value: "\<bar>k\<bar> < 10 ^ 28 \<Longrightarrow> mval (usd_amount k) = of_int k / 100"
  by (simp add: dec_fits_numeric)

section \<open>The posting engine\<close>

text \<open>C10: the balance check accepts a list of lines exactly when it is not empty, belongs to one payer, carries
  only the entry's currency with positive amounts (functional-only lines apart), uses one scale per
  currency code, nets to zero per currency code, and nets to zero in the functional currency when any
  line carries it.\<close>

theorem validate_balanced_entry_spec:
  assumes "decimal_contract D" "length ls \<le> 2 ^ 64"
  shows "validate_balanced_entry D cur ls = Inr () \<longleftrightarrow> balanced_lines cur ls"
  by (rule validate_balanced_entry_iff [OF assms])

definition usd_line :: "side \<Rightarrow> int \<Rightarrow> line_facts" where
  "usd_line sd k = \<lparr>lf_side = sd, lf_money = usd_amount k, lf_payer = 7, lf_functional = None\<rparr>"

theorem validate_balanced_entry_spec_witness:
  "validate_balanced_entry reference_decimal ''USD'' [usd_line Debit 125, usd_line Credit 125] = Inr () \<and>
   validate_balanced_entry reference_decimal ''USD'' [usd_line Debit 125, usd_line Credit 124] \<noteq> Inr ()"
proof -
  have "balanced_lines ''USD'' [usd_line Debit 125, usd_line Credit 125]"
    by (auto simp: usd_line_def balanced_lines_def scales_agree_def functional_balanced_def code_net_def line_net_def usd_value dec_fits_numeric)
  moreover have "\<not> balanced_lines ''USD'' [usd_line Debit 125, usd_line Credit 124]"
    by (auto simp: usd_line_def balanced_lines_def code_net_def line_net_def usd_value dec_fits_numeric intro!: exI [of _ "''USD''"])
  ultimately show ?thesis by (simp add: validate_balanced_entry_spec [OF reference_decimal_contract])
qed

text \<open>An attempt reaches the write transaction exactly when the entry balances, has at most 1000 lines,
  the tenant is not locked and the posting instant is within 24 hours of the clock.\<close>

theorem prepare_attempt_spec:
  assumes "decimal_contract D" "length ls \<le> 2 ^ 64"
  shows "prepare_attempt D lock_read now posted_at cur ls = Inr () \<longleftrightarrow>
    balanced_lines cur (map line_facts_of ls) \<and> length ls \<le> 1000 \<and> lock_read = Inr False \<and>
    \<bar>now - posted_at\<bar> \<le> 24 * 60 * minute_ns"
  by (rule prepare_attempt_Inr [OF assms])

definition usd_settlement :: "int \<Rightarrow> int \<Rightarrow> settlement_input" where
  "usd_settlement gross fee =
     \<lparr>st_tenant_id = 1, st_payer_tenant_id = 7, st_payment_id = ''pay-1'', st_gross = usd_amount gross,
      st_fee = usd_amount fee, st_effective_at = None\<rparr>"

lemma usd_settlement_ok:
  "\<not> 10 dvd g \<Longrightarrow> \<bar>g\<bar> < 10 ^ 28 \<Longrightarrow> \<not> 10 dvd f \<Longrightarrow> \<bar>f\<bar> < 10 ^ 28 \<Longrightarrow> settlement_ok (usd_settlement g f)"
  by (simp add: settlement_ok_def usd_settlement_def usd_posting_ok)

lemma usd_settlement_simps [simp]:
  "st_gross (usd_settlement g f) = usd_amount g" "st_fee (usd_settlement g f) = usd_amount f"
  by (simp_all add: usd_settlement_def)

lemma usd_settlement_built: "\<exists>e. build_settlement_entry reference_decimal id (usd_settlement 125 3) = Inr e"
proof -
  have "represents (usd_amount 122) usd (mval (usd_amount 125) - mval (usd_amount 3))"
    by (rule usd_represents) (simp_all add: dec_fits_numeric)
  with build_settlement_outcome [OF reference_decimal_contract usd_settlement_ok [of 125 3], of id]
  show ?thesis
    by (cases "build_settlement_entry reference_decimal id (usd_settlement 125 3)") (auto simp: dec_fits_numeric)
qed

lemma usd_settlement_balanced:
  obtains e where "build_settlement_entry reference_decimal id (usd_settlement 125 3) = Inr e"
    "entry_balanced e" "length (lines e) = 3"
proof -
  obtain e where e: "build_settlement_entry reference_decimal id (usd_settlement 125 3) = Inr e"
    using usd_settlement_built by blast
  have ok: "settlement_ok (usd_settlement 125 3)" by (rule usd_settlement_ok) simp_all
  have "length (legs e) = 3"
    using build_settlement_Inr(5) [OF reference_decimal_contract ok e] by (simp add: dec_fits_numeric)
  then show thesis
    using that [OF e] settlement.build_balanced [OF reference_decimal_contract ok e] by (simp add: length_legs)
qed

theorem prepare_attempt_spec_witness:
  "\<exists>e. build_settlement_entry reference_decimal id (usd_settlement 125 3) = Inr e \<and>
     prepare_attempt reference_decimal (Inr False) 0 0 (entry_currency e) (lines e) = Inr ()"
proof -
  obtain e where e: "build_settlement_entry reference_decimal id (usd_settlement 125 3) = Inr e"
      "entry_balanced e" "length (lines e) = 3" by (rule usd_settlement_balanced)
  then show ?thesis
    using prepare_attempt_spec [OF reference_decimal_contract, of "lines e" "Inr False" 0 0 "entry_currency e"]
    by (simp add: entry_balanced_def)
qed

section \<open>Settlement and settlement return\<close>

text \<open>A settlement builds an entry exactly when the fee is in the currency of the gross amount, not negative
  and below it, and the net is a representable amount; every other input is refused with the error that
  says which of these fails.\<close>

theorem settlement_outcome:
  assumes "decimal_contract D" "settlement_ok i"
  shows "case build_settlement_entry D fresh i of
      Inr e \<Rightarrow> currency (st_fee i) = currency (st_gross i) \<and> 0 \<le> mval (st_fee i) \<and>
        mval (st_fee i) < mval (st_gross i)
    | Inl err \<Rightarrow>
        (if currency (st_fee i) \<noteq> currency (st_gross i) then err \<in> {D_CurrencyMismatch, D_InconsistentScale}
         else if mval (st_fee i) < 0 \<or> mval (st_gross i) \<le> mval (st_fee i) then err = D_InvalidRequest
         else err = D_AmountOutOfRange \<and>
           (\<forall>m. \<not> represents m (currency (st_gross i)) (mval (st_gross i) - mval (st_fee i))))"
  by (rule build_settlement_outcome [OF assms])

lemma settlement_over_fee: "build_settlement_entry reference_decimal id (usd_settlement 3 125) = Inl D_InvalidRequest"
  by (simp add: build_settlement_entry_def contract_compare [OF reference_decimal_contract] dec_fits_numeric)

theorem settlement_outcome_witness:
  "build_settlement_entry reference_decimal id (usd_settlement 3 125) = Inl D_InvalidRequest \<and>
   mval (usd_amount 3) \<le> mval (usd_amount 125)"
  using settlement_outcome [OF reference_decimal_contract usd_settlement_ok [of 3 125], of id] settlement_over_fee
  by (simp add: dec_fits_numeric)

text \<open>C31: a settlement entry moves the net to cash clearing, the fee (when there is one) to fee expense and the
  gross amount to the unallocated balance; the balance check accepts it, and the only refusals left before the
  transaction are the tenant lock, the line limit and the clock.\<close>

theorem settlement_entry_accepted:
  assumes D: "decimal_contract D" and i: "settlement_ok i" and e: "build_settlement_entry D fresh i = Inr e"
  shows "legs e = [(CashClearing, Debit, mval (st_gross i) - mval (st_fee i))] @
       (if mval (st_fee i) = 0 then [] else [(PspFeeExpense, Debit, mval (st_fee i))]) @
       [(Unallocated, Credit, mval (st_gross i))] \<and>
    validate_balanced_entry D (entry_currency e) (map line_facts_of (lines e)) = Inr () \<and>
    (\<forall>locked now posted_at err. prepare_attempt D (Inr locked) now posted_at (entry_currency e) (lines e) = Inl err \<longrightarrow>
       err \<in> {D_EntryTooLarge, D_TenantPostingLocked, D_ClockSkewQuarantine})"
  using build_settlement_Inr(5) [OF D i e] settlement.engine_accepts [OF D i e]
    settlement.engine_refusals [OF D i e] by blast

theorem settlement_entry_accepted_witness:
  "\<exists>e. build_settlement_entry reference_decimal id (usd_settlement 125 3) = Inr e \<and>
     legs e = [(CashClearing, Debit, 61 / 50), (PspFeeExpense, Debit, 3 / 100), (Unallocated, Credit, 5 / 4)]"
proof -
  obtain e where e: "build_settlement_entry reference_decimal id (usd_settlement 125 3) = Inr e"
    using usd_settlement_built by blast
  have ok: "settlement_ok (usd_settlement 125 3)" by (rule usd_settlement_ok) simp_all
  from settlement_entry_accepted [OF reference_decimal_contract ok e] e show ?thesis
    by (simp add: dec_fits_numeric)
qed

text \<open>C32: a return whose fee share is below the returned amount passes the balance check and takes the fee share
  back out of fee expense; a fee share equal to the amount is also built, but with a zero cash line that
  the balance check refuses as out of range.\<close>

theorem settlement_return_fee:
  assumes D: "decimal_contract D" and ok: "posting_ok (sr_amount i)" "posting_ok f"
    and e: "build_settlement_return_entry D fresh i f = Inr e"
  shows "legs e = [(Unallocated, Debit, mval (sr_amount i)), (CashClearing, Credit, mval (sr_amount i) - mval f)] @
       (if mval f = 0 then [] else [(PspFeeExpense, Credit, mval f)]) \<and>
    validate_balanced_entry D (entry_currency e) (map line_facts_of (lines e)) =
      (if mval f = mval (sr_amount i) then Inl PV_AmountOutOfRange else Inr ())"
proof (cases "mval f = mval (sr_amount i)")
  case True
  with whole_fee_refused [OF D ok(1) True e] build_return_Inr(6) [OF D ok(1) e] show ?thesis by simp
next
  case False
  then have r: "return_ok (i, f)" using build_return_Inr(2) [OF D ok(1) e] ok by (simp add: return_ok_def)
  have e': "build_settlement_return_entry D fresh (fst (i, f)) (snd (i, f)) = Inr e" using e by simp
  show ?thesis
    using settlement_return.engine_accepts [OF D r e'] build_return_Inr(6) [OF D ok(1) e] False by simp
qed

definition usd_return :: "int \<Rightarrow> settlement_return_input" where
  "usd_return k =
     \<lparr>sr_tenant_id = 1, sr_payer_tenant_id = 7, sr_payment_id = ''pay-1'', sr_psp_return_id = ''ret-1'',
      sr_amount = usd_amount k, sr_effective_at = None\<rparr>"

lemma usd_return_built: "\<exists>e. build_settlement_return_entry reference_decimal id (usd_return 1) (usd_amount 1) = Inr e"
proof -
  have s: "cur_scale (currency (usd_amount 1)) \<le> 28" by simp
  obtain z where "represents z usd 0"
    using zero_posted_total [OF reference_decimal_contract, of "usd_amount 1"] by auto
  then have "subtract_posted reference_decimal (usd_amount 1) (usd_amount 1) = Inr z"
    by (simp add: subtract_posted_Inr [OF reference_decimal_contract s])
  then show ?thesis
    by (simp add: build_settlement_return_entry_def usd_return_def Let_def
        contract_compare [OF reference_decimal_contract] dec_fits_numeric)
qed

theorem settlement_return_fee_witness:
  "\<exists>e. build_settlement_return_entry reference_decimal id (usd_return 1) (usd_amount 1) = Inr e \<and>
     validate_balanced_entry reference_decimal (entry_currency e) (map line_facts_of (lines e)) = Inl PV_AmountOutOfRange"
proof -
  obtain e where e: "build_settlement_return_entry reference_decimal id (usd_return 1) (usd_amount 1) = Inr e"
    using usd_return_built by blast
  have "posting_ok (sr_amount (usd_return 1))" "posting_ok (usd_amount 1)"
    by (simp_all add: usd_return_def usd_posting_ok)
  from settlement_return_fee [OF reference_decimal_contract this e] e show ?thesis by (simp add: usd_return_def)
qed

section \<open>Splitting a payment over invoices\<close>

text \<open>C21: a split gives away the whole lump or, if less, everything that is open; every share is a positive
  validated amount in the lump's currency, for a candidate and at most its open balance, and no
  invoice is named twice when the candidates are distinct.\<close>

theorem split_conserves:
  assumes D: "decimal_contract D" and lump: "posting_ok lump" and len: "length cs < 2 ^ 64"
    and ids: "distinct (map cd_invoice_id cs)" and run: "select_split D cs lump hint p = Inr out"
  shows "(\<Sum>a\<leftarrow>out. mval (al_amount a)) = min (max 0 (mval lump)) (\<Sum>c\<leftarrow>cs. max 0 (mval (cd_open c))) \<and>
    distinct (map al_invoice_id out) \<and>
    (\<forall>a\<in>set out. 0 < mval (al_amount a) \<and> posted_ok (al_amount a) \<and> currency (al_amount a) = currency lump \<and>
       (\<exists>c\<in>set cs. cd_invoice_id c = al_invoice_id a \<and> mval (al_amount a) \<le> mval (cd_open c)))"
proof -
  let ?order = "map candidate_value (fill_order D cs hint p)"
  note S = select_split_Inr [OF D lump len run]
  have "(\<Sum>a\<leftarrow>out. mval (al_amount a)) = (\<Sum>(i, q)\<leftarrow>map allocated_value out. q)"
    by (simp add: allocated_value_def o_def)
  then have total: "(\<Sum>a\<leftarrow>out. mval (al_amount a)) = min (max 0 (mval lump)) (\<Sum>c\<leftarrow>cs. max 0 (mval (cd_open c)))"
    by (simp only: S(2) spill_total open_total_fill_order [OF D])
  have "mset (map cd_invoice_id (fill_order D cs hint p)) = mset (map cd_invoice_id cs)"
    using mset_fill_order [OF D] by simp
  moreover have "map fst ?order = map cd_invoice_id (fill_order D cs hint p)"
    by (simp add: candidate_value_def o_def)
  ultimately have "distinct (map fst ?order)" using ids mset_eq_imp_distinct_iff by metis
  then have "distinct (map fst (map allocated_value out))" unfolding S(2) by (rule spill_ids)
  then have ids': "distinct (map al_invoice_id out)" by (simp add: allocated_value_def o_def)
  have "0 < mval (al_amount a) \<and> (\<exists>c\<in>set cs. cd_invoice_id c = al_invoice_id a \<and> mval (al_amount a) \<le> mval (cd_open c))"
    if "a \<in> set out" for a
  proof -
    have "(al_invoice_id a, mval (al_amount a)) \<in> set (spill (mval lump) ?order)"
      using that unfolding S(2) [symmetric] by (force simp: allocated_value_def)
    from spill_member [OF this] show ?thesis
      using set_fill_order [OF D, of cs hint p] by (auto simp: candidate_value_def)
  qed
  with total ids' S(3) show ?thesis by blast
qed

definition usd_candidate :: "string \<Rightarrow> int \<Rightarrow> int \<Rightarrow> candidate" where
  "usd_candidate i k t = \<lparr>cd_invoice_id = i, cd_open = usd_amount k, cd_original_posted_at = Some t\<rparr>"

lemma usd_candidate_simps [simp]:
  "cd_invoice_id (usd_candidate i k t) = i" "cd_open (usd_candidate i k t) = usd_amount k"
  "cd_original_posted_at (usd_candidate i k t) = Some t"
  by (simp_all add: usd_candidate_def)

definition two_open :: "candidate list" where
  "two_open = [usd_candidate ''inv-1'' 101 2, usd_candidate ''inv-2'' 57 1]"

lemma two_open_split: "\<exists>out. select_split reference_decimal two_open (usd_amount 125) None OldestFirst = Inr out"
  by (rule select_split_total [OF reference_decimal_contract])
    (auto simp: two_open_def usd_posting_ok usd_amount_ok dec_fits_numeric)

lemma two_open_run:
  obtains out where "select_split reference_decimal two_open (usd_amount 125) None OldestFirst = Inr out"
  using two_open_split by blast

lemma two_open_facts: "length two_open < 2 ^ 64" "distinct (map cd_invoice_id two_open)" "posting_ok (usd_amount 125)"
  by (simp_all add: two_open_def usd_posting_ok)

theorem split_conserves_witness:
  "\<exists>out. select_split reference_decimal two_open (usd_amount 125) None OldestFirst = Inr out \<and>
     (\<Sum>a\<leftarrow>out. mval (al_amount a)) = 5 / 4"
proof -
  obtain out where o: "select_split reference_decimal two_open (usd_amount 125) None OldestFirst = Inr out"
    by (rule two_open_run)
  from split_conserves [OF reference_decimal_contract two_open_facts(3,1,2) o] o show ?thesis
    by (auto simp: two_open_def dec_fits_numeric)
qed

text \<open>C22: precedence.  When an invoice gets a share, every candidate that the strategy's order puts before it
  (oldest first or highest amount first, ties by invoice id, a hinted invoice in front) and that has an open balance is paid
  in full.\<close>

theorem split_precedence:
  assumes D: "decimal_contract D" and lump: "posting_ok lump" and len: "length cs < 2 ^ 64"
    and ids: "distinct (map cd_invoice_id cs)" and run: "select_split D cs lump hint p = Inr out"
    and ord: "precedence_order p hint cs = before @ c # after"
    and share: "a \<in> set out" "al_invoice_id a = cd_invoice_id c"
    and b: "b \<in> set before" "0 < mval (cd_open b)"
  shows "\<exists>a'\<in>set out. al_invoice_id a' = cd_invoice_id b \<and> mval (al_amount a') = mval (cd_open b)"
proof -
  note S = select_split_Inr(2) [OF D lump len run]
  have fo: "fill_order D cs hint p = before @ c # after" using fill_order_precedence [OF D ids] ord by simp
  have "mset (map cd_invoice_id (fill_order D cs hint p)) = mset (map cd_invoice_id cs)"
    using mset_fill_order [OF D] by simp
  then have "distinct (map cd_invoice_id (fill_order D cs hint p))" using ids mset_eq_imp_distinct_iff by metis
  then have fresh_c: "cd_invoice_id c \<notin> cd_invoice_id ` set before" unfolding fo by auto
  let ?xs = "map candidate_value before" and ?ys = "map candidate_value after"
  have S': "map allocated_value out = spill (mval lump) (?xs @ (cd_invoice_id c, mval (cd_open c)) # ?ys)"
    unfolding S fo by (simp add: candidate_value_def)
  have "(cd_invoice_id c, mval (al_amount a)) \<in> set (map allocated_value out)"
    using share by (force simp: allocated_value_def)
  moreover have "cd_invoice_id c \<notin> fst ` set ?xs" using fresh_c by (auto simp: candidate_value_def)
  moreover have "(cd_invoice_id b, mval (cd_open b)) \<in> set ?xs" using b by (force simp: candidate_value_def)
  ultimately have "(cd_invoice_id b, mval (cd_open b)) \<in> set (spill (mval lump) ?xs)"
    unfolding S' using b(2) by (rule spill_priority)
  then have "(cd_invoice_id b, mval (cd_open b)) \<in> set (map allocated_value out)" unfolding S' spill_append by simp
  then show ?thesis by (auto simp: allocated_value_def)
qed

lemma oldest_order_times:
  assumes "cd_original_posted_at a = Some s" "cd_original_posted_at b = Some t"
  shows "s < t \<Longrightarrow> oldest_order a b = Less" "t < s \<Longrightarrow> oldest_order a b = Greater"
  using assms by (simp_all add: oldest_order_def lin_cmp_def Let_def)

lemma two_open_order:
  "fill_order reference_decimal two_open None OldestFirst =
     [usd_candidate ''inv-2'' 57 1, usd_candidate ''inv-1'' 101 2]"
  by (simp add: fill_order_def strategy_order_def hint_front_def sort_by_def two_open_def oldest_order_times)

theorem split_precedence_witness:
  "\<exists>out. select_split reference_decimal two_open (usd_amount 125) None OldestFirst = Inr out \<and>
     (\<exists>a\<in>set out. al_invoice_id a = ''inv-2'' \<and> mval (al_amount a) = 57 / 100)"
proof -
  obtain out where o: "select_split reference_decimal two_open (usd_amount 125) None OldestFirst = Inr out"
    by (rule two_open_run)
  have "map allocated_value out = [(''inv-2'', 57 / 100), (''inv-1'', 17 / 25)]"
    using select_split_Inr(2) [OF reference_decimal_contract two_open_facts(3,1) o]
    by (simp add: two_open_order candidate_value_def dec_fits_numeric min_def)
  then have "(''inv-1'', 17 / 25) \<in> allocated_value ` set out" by (simp flip: set_map)
  then obtain a where a: "a \<in> set out" "al_invoice_id a = ''inv-1''" by (force simp: allocated_value_def)
  have "precedence_order OldestFirst None two_open = [usd_candidate ''inv-2'' 57 1] @ usd_candidate ''inv-1'' 101 2 # []"
    using fill_order_precedence [OF reference_decimal_contract two_open_facts(2), of None OldestFirst] two_open_order by simp
  from split_precedence [OF reference_decimal_contract two_open_facts(3,1,2) o this, of a "usd_candidate ''inv-2'' 57 1"] a o
  show ?thesis by (auto simp: dec_fits_numeric)
qed

text \<open>The split does not depend on the order in which distinct candidates are listed.\<close>

theorem split_order_independent:
  assumes D: "decimal_contract D" and perm: "mset cs = mset ds" and ids: "distinct (map cd_invoice_id cs)"
    and cur: "\<forall>c\<in>set cs. currency (cd_open c) = currency lump"
  shows "select_split D cs lump hint p = select_split D ds lump hint p"
proof -
  have set: "set ds = set cs" using perm by (metis set_mset_mset)
  have "sort_by (strategy_order D p) cs = sort_by (strategy_order D p) ds"
    using ids by (intro sort_strategy_permutation [OF D perm]) (simp add: distinct_map)
  moreover have "each_result (\<lambda>c. matching_spec lump (cd_open c)) cs = Inr ()"
      "each_result (\<lambda>c. matching_spec lump (cd_open c)) ds = Inr ()"
    using cur set by (simp_all add: each_result_ok)
  ultimately show ?thesis unfolding select_split_fill fill_def by (simp only: rbind_simps)
qed

theorem split_order_independent_witness:
  "select_split reference_decimal two_open (usd_amount 125) None HighestAmountFirst =
   select_split reference_decimal (rev two_open) (usd_amount 125) None HighestAmountFirst"
  by (rule split_order_independent [OF reference_decimal_contract]) (simp_all add: two_open_def)

text \<open>C36: a split succeeds for every list of validated candidates in the lump's currency, as long as the lump's
  coefficient at the currency's scale is below \<open>10^28\<close>.\<close>

theorem split_succeeds:
  assumes "decimal_contract D" "posting_ok lump" "length cs < 2 ^ 64"
    and "\<forall>c\<in>set cs. posted_ok (cd_open c) \<and> currency (cd_open c) = currency lump"
    and "mval lump * 10 ^ cur_scale (currency lump) < 10 ^ 28"
  shows "\<exists>out. select_split D cs lump hint p = Inr out"
  using assms by (intro select_split_total) auto

theorem split_succeeds_witness:
  "\<exists>out. select_split reference_decimal two_open (usd_amount 125) (Some ''inv-1'') HighestAmountFirst = Inr out"
  by (rule split_succeeds [OF reference_decimal_contract])
    (auto simp: two_open_def usd_posting_ok usd_amount_ok dec_fits_numeric)

end
