(* ===== verification/Dispute.thy ===== *)
theory Dispute
  imports Stored_Money Settlement Versioned_Row
begin

text \<open>
  \<open>ledger/src/domain/payment/dispute_state.rs\<close>, the dispute state machine, and
  \<open>ledger/src/infra/storage/repo/dispute_repo.rs\<close>, the row that carries it.  The database is one row per
  dispute; \<open>dispute_attempt\<close> is one transaction on it, given the row it read and the row its write
  meets.  \<open>i32\<close> and \<open>i64\<close> columns are \<open>int\<close> with the overflow checks of the code.
\<close>

section \<open>The state machine\<close>

datatype dispute_phase = Opened | Won | Lost | Partial

datatype dispute_variant = CashHold | ArReclass

fun phase_as_str :: "dispute_phase \<Rightarrow> string" where
  "phase_as_str Opened = ''OPENED''"
| "phase_as_str Won = ''WON''"
| "phase_as_str Lost = ''LOST''"
| "phase_as_str Partial = ''PARTIAL''"

fun variant_as_str :: "dispute_variant \<Rightarrow> string" where
  "variant_as_str CashHold = ''CASH_HOLD''"
| "variant_as_str ArReclass = ''AR_RECLASS''"

definition ascii_upper :: "char \<Rightarrow> char" where
  "ascii_upper c =
     (if 97 \<le> (of_char c :: nat) \<and> (of_char c :: nat) \<le> 122 then char_of ((of_char c :: nat) - 32) else c)"

definition to_ascii_uppercase :: "string \<Rightarrow> string" where
  "to_ascii_uppercase = map ascii_upper"

definition phase_parse :: "string \<Rightarrow> dispute_phase option" where
  "phase_parse s = map_of (map (\<lambda>p. (phase_as_str p, p)) [Opened, Won, Lost, Partial]) (to_ascii_uppercase s)"

definition variant_parse :: "string \<Rightarrow> dispute_variant option" where
  "variant_parse s = map_of (map (\<lambda>v. (variant_as_str v, v)) [CashHold, ArReclass]) (to_ascii_uppercase s)"

record observed_dispute =
  ob_payment_id :: string
  ob_last_phase :: dispute_phase
  ob_cycle :: int

datatype dispute_transition_error =
    FirstCycle string int
  | ForeignPayment string string string
  | Reopen string int int dispute_phase int
  | NoOpenedCycle string
  | NotAnOutcome string dispute_phase
  | OutcomeNotOpen string dispute_phase int dispute_phase int

definition i32_checked_add :: "int \<Rightarrow> int \<Rightarrow> int option" where
  "i32_checked_add a b = (if - (2 ^ 31) \<le> a + b \<and> a + b < 2 ^ 31 then Some (a + b) else None)"

definition i64_checked_add :: "int \<Rightarrow> int \<Rightarrow> int option" where
  "i64_checked_add a b = (if - (2 ^ 63) \<le> a + b \<and> a + b < 2 ^ 63 then Some (a + b) else None)"

definition check_open ::
  "string \<Rightarrow> observed_dispute option \<Rightarrow> string \<Rightarrow> int \<Rightarrow> dispute_transition_error + unit" where
  "check_open dispute_id observed payment_id cycle =
     (case observed of
        None \<Rightarrow> if cycle = 1 then Inr () else Inl (FirstCycle dispute_id cycle)
      | Some ob \<Rightarrow>
          if ob_payment_id ob \<noteq> payment_id then Inl (ForeignPayment dispute_id (ob_payment_id ob) payment_id)
          else if ob_last_phase ob \<in> {Won, Lost} \<and> i32_checked_add (ob_cycle ob) 1 = Some cycle then Inr ()
          else Inl (Reopen dispute_id cycle (max (- (2 ^ 31)) (cycle - 1)) (ob_last_phase ob) (ob_cycle ob)))"

definition check_outcome ::
  "string \<Rightarrow> observed_dispute option \<Rightarrow> dispute_phase \<Rightarrow> int \<Rightarrow> dispute_transition_error + unit" where
  "check_outcome dispute_id observed phase cycle =
     (if phase = Opened then Inl (NotAnOutcome dispute_id phase)
      else case observed of
          None \<Rightarrow> Inl (NoOpenedCycle dispute_id)
        | Some ob \<Rightarrow>
            if ob_last_phase ob = Opened \<and> ob_cycle ob = cycle then Inr ()
            else Inl (OutcomeNotOpen dispute_id phase cycle (ob_last_phase ob) (ob_cycle ob)))"

definition check_transition ::
  "string \<Rightarrow> observed_dispute option \<Rightarrow> string \<Rightarrow> dispute_phase \<Rightarrow> int \<Rightarrow> dispute_transition_error + unit" where
  "check_transition dispute_id observed payment_id phase cycle =
     (case phase of
        Opened \<Rightarrow> check_open dispute_id observed payment_id cycle
      | outcome \<Rightarrow> check_outcome dispute_id observed outcome cycle)"

section \<open>The stored row\<close>

record dispute_state =
  ds_tenant_id :: uuid
  ds_dispute_id :: string
  ds_payment_id :: string
  ds_variant :: dispute_variant
  ds_last_phase :: dispute_phase
  ds_cycle :: int
  ds_disputed_amount :: posted_money
  ds_cash_hold :: posted_money
  ds_version :: int

record dispute_row =
  row_tenant_id :: uuid
  row_dispute_id :: string
  row_payment_id :: string
  row_currency :: string
  row_currency_scale :: int
  row_variant :: string
  row_last_phase :: string
  row_cycle :: int
  row_disputed_amount :: string
  row_cash_hold :: string
  row_version :: int

definition observed :: "dispute_state \<Rightarrow> observed_dispute" where
  "observed st = \<lparr>ob_payment_id = ds_payment_id st, ob_last_phase = ds_last_phase st, ob_cycle = ds_cycle st\<rparr>"

definition matching :: "posted_money \<Rightarrow> posted_money \<Rightarrow> repo_error + unit" where
  "matching l r = map_err R_Money (ensure_same (currency l) (currency r))"

definition validate_amounts :: "decimal_ops \<Rightarrow> posted_money \<Rightarrow> posted_money \<Rightarrow> repo_error + unit" where
  "validate_amounts D m hold =
     (if dec_lt D (amount m) dec_zero \<or> dec_lt D (amount hold) dec_zero \<or> dec_lt D (amount m) (amount hold)
      then Inl R_MoneyOutCapExceeded else Inr ())"

definition decode_dispute :: "decimal_ops \<Rightarrow> dispute_row \<Rightarrow> repo_error + dispute_state" where
  "decode_dispute D row =
     rbind (decode_money D (row_disputed_amount row) (row_currency row) (row_currency_scale row)) (\<lambda>disputed.
     rbind (decode_money D (row_cash_hold row) (row_currency row) (row_currency_scale row)) (\<lambda>hold.
     rbind (stored (validate_amounts D disputed hold)) (\<lambda>_.
     rbind (ok_or R_InvalidStoredMoney (variant_parse (row_variant row))) (\<lambda>variant.
     rbind (ok_or R_InvalidStoredMoney (phase_parse (row_last_phase row))) (\<lambda>phase.
       if row_cycle row < 1 \<or> row_version row < 0 then Inl R_InvalidStoredMoney
       else Inr \<lparr>ds_tenant_id = row_tenant_id row, ds_dispute_id = row_dispute_id row,
              ds_payment_id = row_payment_id row, ds_variant = variant, ds_last_phase = phase,
              ds_cycle = row_cycle row, ds_disputed_amount = disputed, ds_cash_hold = hold,
              ds_version = row_version row\<rparr>)))))"

text \<open>\<open>insert_open\<close>: the row as inserted, refused when another insertion took the key.\<close>

definition insert_open :: "decimal_ops \<Rightarrow> dispute_state \<Rightarrow> dispute_row option \<Rightarrow> repo_error + dispute_row" where
  "insert_open D st cur =
     (case cur of
        Some _ \<Rightarrow> Inl R_Conflict
      | None \<Rightarrow> Inr \<lparr>row_tenant_id = ds_tenant_id st, row_dispute_id = ds_dispute_id st,
            row_payment_id = ds_payment_id st, row_currency = code (currency (ds_disputed_amount st)),
            row_currency_scale = int (cur_scale (currency (ds_disputed_amount st))),
            row_variant = variant_as_str (ds_variant st), row_last_phase = phase_as_str (ds_last_phase st),
            row_cycle = ds_cycle st, row_disputed_amount = encode_amount D (ds_disputed_amount st),
            row_cash_hold = encode_amount D (ds_cash_hold st), row_version = 0\<rparr>)"

definition replace_observed ::
  "decimal_ops \<Rightarrow> dispute_state \<Rightarrow> dispute_state \<Rightarrow> dispute_row option \<Rightarrow> repo_error + dispute_row" where
  "replace_observed D previous next_state cur =
     rbind (ok_or R_Db (i64_checked_add (ds_version previous) 1)) (\<lambda>version.
       case cur of
         None \<Rightarrow> Inl R_Conflict
       | Some row \<Rightarrow>
           if row_version row = ds_version previous \<and> row_last_phase row = phase_as_str (ds_last_phase previous) \<and>
              row_cycle row = ds_cycle previous
           then Inr (row\<lparr>row_variant := variant_as_str (ds_variant next_state),
                  row_last_phase := phase_as_str (ds_last_phase next_state), row_cycle := ds_cycle next_state,
                  row_disputed_amount := encode_amount D (ds_disputed_amount next_state),
                  row_cash_hold := encode_amount D (ds_cash_hold next_state), row_version := version\<rparr>)
           else Inl R_Conflict)"

definition read_dispute_in :: "decimal_ops \<Rightarrow> dispute_row option \<Rightarrow> repo_error + dispute_state option" where
  "read_dispute_in D row =
     (case row of None \<Rightarrow> Inr None | Some r \<Rightarrow> rbind (decode_dispute D r) (\<lambda>st. Inr (Some st)))"

definition dispute_upsert ::
  "decimal_ops \<Rightarrow> uuid \<Rightarrow> string \<Rightarrow> string \<Rightarrow> dispute_variant \<Rightarrow> int \<Rightarrow> posted_money \<Rightarrow> posted_money
   \<Rightarrow> dispute_row option \<Rightarrow> dispute_row option \<Rightarrow> repo_error + dispute_row" where
  "dispute_upsert D tenant dispute_id payment_id variant cycle disputed hold seen cur =
     rbind (read_dispute_in D seen) (\<lambda>previous.
     rbind (map_err (\<lambda>_. R_DisputeNotOpen)
              (check_open dispute_id (map_option observed previous) payment_id cycle)) (\<lambda>_.
       let next_state = \<lparr>ds_tenant_id = tenant, ds_dispute_id = dispute_id, ds_payment_id = payment_id,
             ds_variant = variant, ds_last_phase = Opened, ds_cycle = cycle, ds_disputed_amount = disputed,
             ds_cash_hold = hold, ds_version = 0\<rparr>
       in case previous of
            Some prev \<Rightarrow>
              rbind (matching (ds_disputed_amount prev) disputed) (\<lambda>_.
              rbind (matching disputed hold) (\<lambda>_.
              rbind (validate_amounts D disputed hold) (\<lambda>_. replace_observed D prev next_state cur)))
          | None \<Rightarrow>
              rbind (matching disputed hold) (\<lambda>_.
              rbind (validate_amounts D disputed hold) (\<lambda>_. insert_open D next_state cur))))"

definition dispute_advance ::
  "decimal_ops \<Rightarrow> string \<Rightarrow> dispute_phase \<Rightarrow> int \<Rightarrow> posted_money
   \<Rightarrow> dispute_row option \<Rightarrow> dispute_row option \<Rightarrow> repo_error + dispute_row" where
  "dispute_advance D dispute_id last_phase cycle disputed seen cur =
     rbind (read_dispute_in D seen) (\<lambda>previous.
     rbind (map_err (\<lambda>_. R_DisputeNotOpen)
              (check_outcome dispute_id (map_option observed previous) last_phase cycle)) (\<lambda>_.
       case previous of
         None \<Rightarrow> Inl R_DisputeNotOpen
       | Some prev \<Rightarrow>
           rbind (matching (ds_disputed_amount prev) disputed) (\<lambda>_.
           rbind (validate_amounts D disputed (ds_cash_hold prev)) (\<lambda>_.
             replace_observed D prev (prev\<lparr>ds_last_phase := last_phase, ds_disputed_amount := disputed\<rparr>) cur))))"

text \<open>The two writes of the sidecar on one dispute.\<close>

datatype dispute_request =
    OpenDispute string dispute_variant int posted_money posted_money
  | AdvanceDispute dispute_phase int posted_money

fun dispute_attempt ::
  "decimal_ops \<Rightarrow> uuid \<Rightarrow> string \<Rightarrow> dispute_request \<Rightarrow> dispute_row option \<Rightarrow> dispute_row option
   \<Rightarrow> repo_error + dispute_row" where
  "dispute_attempt D tenant dispute_id (OpenDispute pay variant cycle disputed hold) seen cur =
     dispute_upsert D tenant dispute_id pay variant cycle disputed hold seen cur"
| "dispute_attempt D tenant dispute_id (AdvanceDispute phase cycle disputed) seen cur =
     dispute_advance D dispute_id phase cycle disputed seen cur"

section \<open>Reading back a row\<close>

definition encode_dispute :: "decimal_ops \<Rightarrow> dispute_state \<Rightarrow> dispute_row" where
  "encode_dispute D st =
     \<lparr>row_tenant_id = ds_tenant_id st, row_dispute_id = ds_dispute_id st, row_payment_id = ds_payment_id st,
      row_currency = code (currency (ds_disputed_amount st)),
      row_currency_scale = int (cur_scale (currency (ds_disputed_amount st))),
      row_variant = variant_as_str (ds_variant st), row_last_phase = phase_as_str (ds_last_phase st),
      row_cycle = ds_cycle st, row_disputed_amount = encode_amount D (ds_disputed_amount st),
      row_cash_hold = encode_amount D (ds_cash_hold st), row_version = ds_version st\<rparr>"

definition state_ok :: "dispute_state \<Rightarrow> bool" where
  "state_ok st \<longleftrightarrow> posted_ok (ds_disputed_amount st) \<and> posted_ok (ds_cash_hold st) \<and>
     spec_ok (currency (ds_disputed_amount st)) \<and> currency (ds_cash_hold st) = currency (ds_disputed_amount st) \<and>
     0 \<le> mval (ds_cash_hold st) \<and> mval (ds_cash_hold st) \<le> mval (ds_disputed_amount st) \<and>
     1 \<le> ds_cycle st \<and> 0 \<le> ds_version st"

lemma phase_read_back [simp]: "phase_parse (phase_as_str p) = Some p"
  by (cases p; hypsubst; code_simp)

lemma variant_read_back [simp]: "variant_parse (variant_as_str v) = Some v"
  by (cases v; hypsubst; code_simp)

lemma phase_as_str_inj [simp]: "phase_as_str p = phase_as_str q \<longleftrightarrow> p = q"
  using phase_read_back by (metis option.inject)

lemma matching_Inr [simp]: "matching l r = Inr u \<longleftrightarrow> currency l = currency r"
  by (simp add: matching_def)

lemma validate_amounts_Inr:
  assumes "decimal_contract D"
  shows "validate_amounts D m hold = Inr u \<longleftrightarrow> 0 \<le> mval hold \<and> mval hold \<le> mval m"
  by (auto simp: validate_amounts_def contract_compare [OF assms] not_less)

lemma decode_dispute_encode:
  assumes D: "decimal_contract D" and T: "text_contract D" and st: "state_ok st"
  shows "decode_dispute D (encode_dispute D st) = Inr st"
proof -
  let ?cur = "currency (ds_disputed_amount st)"
  have "decode_money D (encode_amount D (ds_disputed_amount st)) (code ?cur) (int (cur_scale ?cur)) = Inr (ds_disputed_amount st)"
      "decode_money D (encode_amount D (ds_cash_hold st)) (code ?cur) (int (cur_scale ?cur)) = Inr (ds_cash_hold st)"
    using st by (simp_all add: decode_money_Inr [OF D T] state_ok_def)
  moreover have "validate_amounts D (ds_disputed_amount st) (ds_cash_hold st) = Inr ()"
    using st by (simp add: validate_amounts_Inr [OF D] state_ok_def)
  ultimately show ?thesis
    using st by (simp add: decode_dispute_def encode_dispute_def state_ok_def stored_def)
qed

lemma decode_dispute_Inr:
  assumes D: "decimal_contract D" and T: "text_contract D" and run: "decode_dispute D row = Inr st"
  shows "state_ok st" "ds_version st = row_version row"
  using run by (auto simp: decode_dispute_def decode_money_Inr [OF D T] validate_amounts_Inr [OF D] state_ok_def
      split: if_splits)

lemma decode_dispute_version: "decode_dispute D row = Inr st \<Longrightarrow> ds_version st = row_version row"
  by (auto simp: decode_dispute_def split: if_splits)

section \<open>Attempts\<close>

lemma i64_checked_add_Some [simp]: "i64_checked_add a b = Some c \<Longrightarrow> c = a + b"
  by (simp add: i64_checked_add_def split: if_splits)

lemma replace_observed_version:
  assumes "replace_observed D previous next_state cur = Inr r"
  shows "\<exists>c. cur = Some c \<and> row_version c = ds_version previous \<and> row_version r = row_version c + 1"
  using assms by (auto simp: replace_observed_def split: option.splits if_splits)

interpretation dispute_rows: versioned_row "dispute_attempt D tenant dispute_id" row_version for D tenant dispute_id
proof unfold_locales
  fix q :: dispute_request and cur r
  assume "dispute_attempt D tenant dispute_id q None cur = Inr r"
  then show "cur = None \<and> row_version r = 0"
    by (cases q) (auto simp: dispute_upsert_def dispute_advance_def read_dispute_in_def insert_open_def Let_def
        check_outcome_def split: option.splits if_splits)
next
  fix q :: dispute_request and s cur r
  assume run: "dispute_attempt D tenant dispute_id q (Some s) cur = Inr r"
  then obtain st next_state where "decode_dispute D s = Inr st" "replace_observed D st next_state cur = Inr r"
    by (cases q) (auto simp: dispute_upsert_def dispute_advance_def read_dispute_in_def Let_def)
  then show "\<exists>c. cur = Some c \<and> row_version c = row_version s \<and> row_version r = row_version c + 1"
    using replace_observed_version decode_dispute_version by force
qed

fun request_ok :: "dispute_request \<Rightarrow> bool" where
  "request_ok (OpenDispute pay variant cycle disputed hold) \<longleftrightarrow>
     posted_ok disputed \<and> posted_ok hold \<and> spec_ok (currency disputed)"
| "request_ok (AdvanceDispute phase cycle disputed) \<longleftrightarrow> posted_ok disputed"

text \<open>
  The invariant of a dispute row: it decodes to a valid state of this dispute, and its version counts the
  writes, two per cycle.
\<close>

definition dispute_inv :: "uuid \<Rightarrow> string \<Rightarrow> dispute_state \<Rightarrow> bool" where
  "dispute_inv tenant dispute_id st \<longleftrightarrow> state_ok st \<and> ds_tenant_id st = tenant \<and> ds_dispute_id st = dispute_id \<and>
     ds_version st = 2 * ds_cycle st - (if ds_last_phase st = Opened then 2 else 1)"

text \<open>What one transaction does to the decoded row when nothing interferes.\<close>

definition opened_state :: "uuid \<Rightarrow> string \<Rightarrow> string \<Rightarrow> dispute_variant \<Rightarrow> int \<Rightarrow> posted_money \<Rightarrow> posted_money \<Rightarrow> int \<Rightarrow> dispute_state" where
  "opened_state tenant dispute_id pay variant cycle disputed hold version =
     \<lparr>ds_tenant_id = tenant, ds_dispute_id = dispute_id, ds_payment_id = pay, ds_variant = variant,
      ds_last_phase = Opened, ds_cycle = cycle, ds_disputed_amount = disputed, ds_cash_hold = hold,
      ds_version = version\<rparr>"

lemma replace_observed_encode:
  assumes "currency (ds_disputed_amount st) = currency (ds_disputed_amount next_state)"
    and "ds_tenant_id st = ds_tenant_id next_state" "ds_dispute_id st = ds_dispute_id next_state"
    and "ds_payment_id st = ds_payment_id next_state"
  shows "replace_observed D st next_state (Some (encode_dispute D st)) =
    rbind (ok_or R_Db (i64_checked_add (ds_version st) 1))
      (\<lambda>v. Inr (encode_dispute D (next_state\<lparr>ds_version := v\<rparr>)))"
  using assms by (simp add: replace_observed_def encode_dispute_def)

lemma open_first:
  assumes D: "decimal_contract D"
  shows "dispute_attempt D tenant dispute_id (OpenDispute pay variant cycle disputed hold) None None = Inr r \<longleftrightarrow>
    cycle = 1 \<and> currency disputed = currency hold \<and> 0 \<le> mval hold \<and> mval hold \<le> mval disputed \<and>
    r = encode_dispute D (opened_state tenant dispute_id pay variant 1 disputed hold 0)"
  by (auto simp: dispute_upsert_def read_dispute_in_def check_open_def insert_open_def validate_amounts_Inr [OF D]
      encode_dispute_def opened_state_def Let_def split: if_splits)

lemma open_again:
  assumes D: "decimal_contract D" and T: "text_contract D" and inv: "dispute_inv tenant dispute_id st"
  shows "dispute_attempt D tenant dispute_id (OpenDispute pay variant cycle disputed hold)
      (Some (encode_dispute D st)) (Some (encode_dispute D st)) = Inr r \<longleftrightarrow>
    ds_payment_id st = pay \<and> ds_last_phase st \<in> {Won, Lost} \<and> i32_checked_add (ds_cycle st) 1 = Some cycle \<and>
    currency disputed = currency (ds_disputed_amount st) \<and> currency hold = currency disputed \<and>
    0 \<le> mval hold \<and> mval hold \<le> mval disputed \<and>
    (\<exists>v. i64_checked_add (ds_version st) 1 = Some v \<and>
       r = encode_dispute D (opened_state tenant dispute_id pay variant cycle disputed hold v))"
proof -
  have st: "state_ok st" "ds_tenant_id st = tenant" "ds_dispute_id st = dispute_id" using inv by (simp_all add: dispute_inv_def)
  have "replace_observed D st (opened_state tenant dispute_id pay variant cycle disputed hold 0) (Some (encode_dispute D st)) =
      rbind (ok_or R_Db (i64_checked_add (ds_version st) 1))
        (\<lambda>v. Inr (encode_dispute D (opened_state tenant dispute_id pay variant cycle disputed hold v)))"
    if "currency disputed = currency (ds_disputed_amount st)" "ds_payment_id st = pay"
    using that st by (subst replace_observed_encode) (simp_all add: opened_state_def)
  then show ?thesis
    by (auto simp: dispute_upsert_def read_dispute_in_def decode_dispute_encode [OF D T st(1)] check_open_def observed_def
        validate_amounts_Inr [OF D] Let_def split: if_splits simp flip: opened_state_def)
qed

lemma advance_open:
  assumes D: "decimal_contract D" and T: "text_contract D" and inv: "dispute_inv tenant dispute_id st"
  shows "dispute_attempt D tenant dispute_id (AdvanceDispute phase cycle disputed)
      (Some (encode_dispute D st)) (Some (encode_dispute D st)) = Inr r \<longleftrightarrow>
    phase \<noteq> Opened \<and> ds_last_phase st = Opened \<and> ds_cycle st = cycle \<and>
    currency disputed = currency (ds_disputed_amount st) \<and> mval (ds_cash_hold st) \<le> mval disputed \<and>
    (\<exists>v. i64_checked_add (ds_version st) 1 = Some v \<and>
       r = encode_dispute D (st\<lparr>ds_last_phase := phase, ds_disputed_amount := disputed, ds_version := v\<rparr>))"
proof -
  have st: "state_ok st" using inv by (simp add: dispute_inv_def)
  then have hold: "0 \<le> mval (ds_cash_hold st)" by (simp add: state_ok_def)
  have "replace_observed D st (st\<lparr>ds_last_phase := phase, ds_disputed_amount := disputed\<rparr>) (Some (encode_dispute D st)) =
      rbind (ok_or R_Db (i64_checked_add (ds_version st) 1))
        (\<lambda>v. Inr (encode_dispute D (st\<lparr>ds_last_phase := phase, ds_disputed_amount := disputed, ds_version := v\<rparr>)))"
    if "currency disputed = currency (ds_disputed_amount st)"
    using that by (subst replace_observed_encode) simp_all
  then show ?thesis
    using hold by (auto simp: dispute_advance_def read_dispute_in_def decode_dispute_encode [OF D T st] check_outcome_def
        observed_def validate_amounts_Inr [OF D] split: if_splits)
qed

lemma attempt_keeps_inv:
  assumes D: "decimal_contract D" and T: "text_contract D" and q: "request_ok q"
    and cur: "cur = None \<or> (\<exists>st. cur = Some (encode_dispute D st) \<and> dispute_inv tenant dispute_id st)"
    and run: "dispute_attempt D tenant dispute_id q cur cur = Inr r"
  shows "\<exists>st. r = encode_dispute D st \<and> dispute_inv tenant dispute_id st"
proof (cases cur)
  case None
  show ?thesis
  proof (cases q)
    case (OpenDispute pay variant cycle disputed hold)
    with run None have r: "r = encode_dispute D (opened_state tenant dispute_id pay variant 1 disputed hold 0)"
        "currency disputed = currency hold" "0 \<le> mval hold" "mval hold \<le> mval disputed"
      by (simp_all add: open_first [OF D] del: dispute_attempt.simps)
    then show ?thesis using q OpenDispute
      by (intro exI [of _ "opened_state tenant dispute_id pay variant 1 disputed hold 0"])
        (simp add: dispute_inv_def state_ok_def opened_state_def)
  next
    case (AdvanceDispute phase cycle disputed)
    with run None show ?thesis by (auto simp: dispute_advance_def read_dispute_in_def check_outcome_def split: if_splits)
  qed
next
  case (Some row)
  with cur obtain st where st: "cur = Some (encode_dispute D st)" and inv: "dispute_inv tenant dispute_id st" by auto
  show ?thesis
  proof (cases q)
    case (OpenDispute pay variant cycle disputed hold)
    from run obtain v where "ds_last_phase st \<in> {Won, Lost}" "i32_checked_add (ds_cycle st) 1 = Some cycle"
        "currency disputed = currency hold" "0 \<le> mval hold" "mval hold \<le> mval disputed"
        "i64_checked_add (ds_version st) 1 = Some v"
        "r = encode_dispute D (opened_state tenant dispute_id pay variant cycle disputed hold v)"
      unfolding OpenDispute st open_again [OF D T inv] by auto
    then show ?thesis using q OpenDispute inv
      by (intro exI [of _ "opened_state tenant dispute_id pay variant cycle disputed hold v"])
        (auto simp: dispute_inv_def state_ok_def opened_state_def i32_checked_add_def i64_checked_add_def split: if_splits)
  next
    case (AdvanceDispute phase cycle disputed)
    from run obtain v where "phase \<noteq> Opened" "ds_last_phase st = Opened"
        "currency disputed = currency (ds_disputed_amount st)" "mval (ds_cash_hold st) \<le> mval disputed"
        "i64_checked_add (ds_version st) 1 = Some v"
        "r = encode_dispute D (st\<lparr>ds_last_phase := phase, ds_disputed_amount := disputed, ds_version := v\<rparr>)"
      unfolding AdvanceDispute st advance_open [OF D T inv] by auto
    then show ?thesis using q AdvanceDispute inv
      by (intro exI [of _ "st\<lparr>ds_last_phase := phase, ds_disputed_amount := disputed, ds_version := v\<rparr>"])
        (auto simp: dispute_inv_def state_ok_def i64_checked_add_def split: if_splits)
  qed
qed

lemma dispute_history_inv:
  assumes D: "decimal_contract D" and T: "text_contract D"
    and h: "row_history request_ok (dispute_attempt D tenant dispute_id) h" and row: "Some row \<in> set h"
  shows "\<exists>st. row = encode_dispute D st \<and> dispute_inv tenant dispute_id st"
proof -
  let ?P = "\<lambda>row. row = None \<or> (\<exists>st. row = Some (encode_dispute D st) \<and> dispute_inv tenant dispute_id st)"
  have "\<forall>row\<in>set h. ?P row"
    using attempt_keeps_inv [OF D T]
    by (intro serial_history_invariant [OF dispute_rows.histories_serial [OF h]]) auto
  with row show ?thesis by auto
qed

end
