(* ===== verification/Allocation.thy ===== *)
theory Allocation
  imports Precedence
begin

text \<open>
  \<open>ledger/src/domain/payment/allocation.rs\<close>: the entry that applies unallocated cash to invoices, and
  the check of a split the caller computed.  \<open>Uuid::to_string\<close> is the parameter \<open>uuid_text\<close>.
\<close>

record allocation_input =
  ai_tenant_id :: uuid
  ai_payer_tenant_id :: uuid
  ai_payment_id :: string
  ai_allocation_id :: uuid
  ai_currency :: currency_spec
  ai_splits :: "allocated list"
  ai_effective_at :: "offset_date_time option"

fun split_lines :: "allocation_input \<Rightarrow> (nat \<Rightarrow> uuid) \<Rightarrow> nat \<Rightarrow> allocated list \<Rightarrow> post_line list" where
  "split_lines i fresh k [] = []"
| "split_lines i fresh k (a # as) =
     payment_line (fresh k) (ai_payer_tenant_id i) (ai_tenant_id i) Ar Credit (al_amount a) (Some (al_invoice_id a)) #
     split_lines i fresh (Suc k) as"

definition build_allocation_entry ::
  "(uuid \<Rightarrow> string) \<Rightarrow> decimal_ops \<Rightarrow> (nat \<Rightarrow> uuid) \<Rightarrow> allocation_input \<Rightarrow> domain_error + post_entry" where
  "build_allocation_entry uuid_text D fresh i =
     (if ai_splits i = [] then Inl D_InvalidRequest
      else rbind (each_result (\<lambda>a. matching_currency (ai_currency i) (currency (al_amount a))) (ai_splits i)) (\<lambda>_.
           rbind (each_result (\<lambda>a. if dec_le D (amount (al_amount a)) dec_zero then Inl D_InvalidRequest else Inr ())
                    (ai_splits i)) (\<lambda>_.
           rbind (map_err map_exact_error (sum_posted D (map al_amount (ai_splits i)) (ai_currency i))) (\<lambda>t.
             let debit = payment_line (fresh 0) (ai_payer_tenant_id i) (ai_tenant_id i) Unallocated Debit t None;
                 ls = debit # split_lines i fresh 1 (ai_splits i)
             in Inr (payment_entry (fresh (length ls)) (ai_tenant_id i) (code (ai_currency i)) PaymentAllocate
                       (uuid_text (ai_allocation_id i)) (ai_effective_at i) ls)))))"

fun caller_split_loop ::
  "decimal_ops \<Rightarrow> candidate list \<Rightarrow> allocated list \<Rightarrow> string list \<Rightarrow> exact_amount \<Rightarrow> domain_error + exact_amount" where
  "caller_split_loop D candidates [] seen s = Inr s"
| "caller_split_loop D candidates (split # rest) seen s =
     (if al_invoice_id split \<in> set seen then Inl D_AllocationSplitInvalid
      else if dec_le D (amount (al_amount split)) dec_zero then Inl D_AllocationSplitInvalid
      else rbind (ok_or D_AllocationSplitInvalid (find (\<lambda>c. cd_invoice_id c = al_invoice_id split) candidates)) (\<lambda>cand.
        if dec_le D (amount (cd_open cand)) dec_zero then Inl D_AllocationSplitInvalid
        else if dec_lt D (amount (cd_open cand)) (amount (al_amount split)) then Inl D_AllocationSplitInvalid
        else rbind (map_err map_exact_error (checked_add s (from_decimal (amount (al_amount split))))) (\<lambda>s'.
          caller_split_loop D candidates rest (seen @ [al_invoice_id split]) s')))"

definition validate_caller_split ::
  "decimal_ops \<Rightarrow> candidate list \<Rightarrow> allocated list \<Rightarrow> posted_money \<Rightarrow> domain_error + allocated list" where
  "validate_caller_split D candidates caller lump =
     rbind (each_result (\<lambda>c. matching_spec lump (cd_open c)) candidates) (\<lambda>_.
     rbind (each_result (\<lambda>a. matching_spec lump (al_amount a)) caller) (\<lambda>_.
     rbind (caller_split_loop D candidates caller [] (from_decimal dec_zero)) (\<lambda>s.
     rbind (map_err map_exact_error (checked_sub (from_decimal (amount lump)) s)) (\<lambda>left.
       if exact_negative left then Inl D_AllocationSplitInvalid else Inr caller))))"

section \<open>The entry balances\<close>

lemma split_lines_facts [simp]:
  "length (split_lines i fresh k as) = length as"
  "map account_class (split_lines i fresh k as) = replicate (length as) Ar"
  "map money (split_lines i fresh k as) = map al_amount as"
  "map side (split_lines i fresh k as) = replicate (length as) Credit"
  "map invoice_id (split_lines i fresh k as) = map (\<lambda>a. Some (al_invoice_id a)) as"
  "lines_net (split_lines i fresh k as) = - (\<Sum>a\<leftarrow>as. mval (al_amount a))"
  by (induction as arbitrary: k) simp_all

lemma split_lines_plain:
  assumes "\<And>a. a \<in> set as \<Longrightarrow> currency (al_amount a) = cur \<and> 0 < mval (al_amount a)" "l \<in> set (split_lines i fresh k as)"
  shows "plain_line cur (ai_payer_tenant_id i) l"
  using assms by (induction as arbitrary: k) (auto simp: plain_payment_line)

definition allocation_ok :: "allocation_input \<Rightarrow> bool" where
  "allocation_ok i \<longleftrightarrow> cur_scale (ai_currency i) \<le> 28 \<and> length (ai_splits i) < 2 ^ 64"

definition splits_ok :: "allocation_input \<Rightarrow> bool" where
  "splits_ok i \<longleftrightarrow> ai_splits i \<noteq> [] \<and>
     (\<forall>a\<in>set (ai_splits i). currency (al_amount a) = ai_currency i \<and> 0 < mval (al_amount a))"

definition allocation_entry :: "(uuid \<Rightarrow> string) \<Rightarrow> (nat \<Rightarrow> uuid) \<Rightarrow> allocation_input \<Rightarrow> posted_money \<Rightarrow> post_entry" where
  "allocation_entry uuid_text fresh i t =
     payment_entry (fresh (Suc (length (ai_splits i)))) (ai_tenant_id i) (code (ai_currency i)) PaymentAllocate
       (uuid_text (ai_allocation_id i)) (ai_effective_at i)
       (payment_line (fresh 0) (ai_payer_tenant_id i) (ai_tenant_id i) Unallocated Debit t None #
        split_lines i fresh 1 (ai_splits i))"

lemma build_allocation_Inr:
  assumes D: "decimal_contract D" and ok: "allocation_ok i"
  shows "build_allocation_entry U D fresh i = Inr e \<longleftrightarrow>
    splits_ok i \<and> (\<exists>t. represents t (ai_currency i) (\<Sum>a\<leftarrow>ai_splits i. mval (al_amount a)) \<and> e = allocation_entry U fresh i t)"
proof -
  have ok': "cur_scale (ai_currency i) \<le> 28" "length (map al_amount (ai_splits i)) \<le> 2 ^ 64"
    using ok by (simp_all add: allocation_ok_def)
  have "(\<forall>a\<in>set (ai_splits i). (if dec_le D (amount (al_amount a)) dec_zero then Inl D_InvalidRequest else Inr ()) = Inr ())
      \<longleftrightarrow> (\<forall>a\<in>set (ai_splits i). 0 < mval (al_amount a))"
    by (auto simp: contract_compare [OF D] not_le)
  then show ?thesis
    by (auto simp: build_allocation_entry_def splits_ok_def allocation_entry_def sum_posted_Inr [OF D ok'] Let_def o_def)
qed

interpretation allocation: entry_builder "build_allocation_entry U" allocation_ok for U
proof unfold_locales
  fix D :: decimal_ops and i fresh e
  assume D: "decimal_contract D" and i: "allocation_ok i" and e: "build_allocation_entry U D fresh i = Inr e"
  from e obtain t where s: "splits_ok i" and t: "represents t (ai_currency i) (\<Sum>a\<leftarrow>ai_splits i. mval (al_amount a))"
      and e: "e = allocation_entry U fresh i t"
    by (auto simp: build_allocation_Inr [OF D i])
  show "length (lines e) \<le> 2 ^ 64" using i by (simp add: e allocation_entry_def allocation_ok_def)
  obtain a where a: "a \<in> set (ai_splits i)" using s by (cases "ai_splits i") (auto simp: splits_ok_def)
  have "0 < (\<Sum>a\<leftarrow>ai_splits i. mval (al_amount a))"
    using s by (intro sum_list_strict_mono [of "ai_splits i" "\<lambda>_. 0", simplified]) (auto simp: splits_ok_def)
  then have "\<forall>l\<in>set (lines e). plain_line (ai_currency i) (ai_payer_tenant_id i) l"
    using t s split_lines_plain [of "ai_splits i" "ai_currency i"]
    by (auto simp: e allocation_entry_def plain_payment_line represents_def splits_ok_def)
  then show "entry_balanced e"
    using t by (intro plain_entry_balanced) (auto simp: e allocation_entry_def represents_def)
qed

section \<open>Caller splits\<close>

definition split_fits :: "candidate list \<Rightarrow> allocated \<Rightarrow> bool" where
  "split_fits candidates a \<longleftrightarrow> 0 < mval (al_amount a) \<and>
     (case find (\<lambda>c. cd_invoice_id c = al_invoice_id a) candidates of
        None \<Rightarrow> False
      | Some c \<Rightarrow> mval (al_amount a) \<le> mval (cd_open c))"

lemma caller_split_loop_run:
  assumes D: "decimal_contract D" and g: "dec_grid k v" and k: "k + length xs \<le> 2 ^ 64"
  shows "caller_split_loop D cs xs seen (amount_of v) =
    (if distinct (map al_invoice_id xs) \<and> al_invoice_id ` set xs \<inter> set seen = {} \<and> (\<forall>x\<in>set xs. split_fits cs x)
     then Inr (amount_of (v + (\<Sum>x\<leftarrow>xs. mval (al_amount x)))) else Inl D_AllocationSplitInvalid)"
  using g k
proof (induction xs arbitrary: k v seen)
  case (Cons x xs)
  let ?v = "v + mval (al_amount x)"
  have g': "dec_grid (Suc k) ?v"
    using dec_grid_add [OF Cons.prems(1) dec_grid_dval [of "amount (al_amount x)"]] by simp
  have "checked_add (amount_of v) (from_decimal (amount (al_amount x))) = Inr (amount_of ?v)"
    using dec_grid_narrow [OF g'] dec_grid_ready [OF Cons.prems(1)] Cons.prems(2) by (simp add: checked_add_narrow)
  moreover have "caller_split_loop D cs xs (seen @ [al_invoice_id x]) (amount_of ?v) =
      (if distinct (map al_invoice_id xs) \<and> al_invoice_id ` set xs \<inter> set (seen @ [al_invoice_id x]) = {} \<and>
          (\<forall>x\<in>set xs. split_fits cs x)
       then Inr (amount_of (?v + (\<Sum>x\<leftarrow>xs. mval (al_amount x)))) else Inl D_AllocationSplitInvalid)"
    using Cons.prems(2) by (intro Cons.IH [OF g']) simp
  ultimately show ?case
    by (auto simp: split_fits_def contract_compare [OF D] not_less not_le add.assoc split: option.splits)
qed simp

definition caller_split_ok :: "candidate list \<Rightarrow> allocated list \<Rightarrow> posted_money \<Rightarrow> bool" where
  "caller_split_ok candidates caller lump \<longleftrightarrow> distinct (map al_invoice_id caller) \<and>
     (\<forall>a\<in>set caller. split_fits candidates a) \<and> (\<Sum>a\<leftarrow>caller. mval (al_amount a)) \<le> mval lump"

lemma validate_caller_split_run:
  assumes D: "decimal_contract D" and len: "length caller < 2 ^ 64"
    and cs: "\<forall>c\<in>set candidates. currency (cd_open c) = currency lump"
    and as: "\<forall>a\<in>set caller. currency (al_amount a) = currency lump"
  shows "validate_caller_split D candidates caller lump =
    (if caller_split_ok candidates caller lump then Inr caller else Inl D_AllocationSplitInvalid)"
proof -
  let ?t = "\<Sum>a\<leftarrow>caller. mval (al_amount a)"
  have m: "each_result (\<lambda>c. matching_spec lump (cd_open c)) candidates = Inr ()"
      "each_result (\<lambda>a. matching_spec lump (al_amount a)) caller = Inr ()"
    using cs as by (simp_all add: each_result_ok)
  have z: "from_decimal dec_zero = amount_of 0" by (simp add: from_decimal_amount_of)
  have gt: "dec_grid (length caller) ?t"
    using fold_add_value [of caller "\<lambda>a. amount (al_amount a)"] len by simp
  have gl: "dec_grid (Suc (length caller)) (mval lump - ?t)"
    using dec_grid_add [OF dec_grid_dval [of "amount lump"], of "length caller" "- ?t"] gt by simp
  have "checked_sub (from_decimal (amount lump)) (amount_of ?t) = Inr (amount_of (mval lump - ?t))"
    using dec_grid_narrow [OF gl] dec_grid_ready [OF gt] len by (simp add: checked_sub_narrow)
  moreover have "exact_negative (amount_of (mval lump - ?t)) \<longleftrightarrow> mval lump < ?t"
    using dec_grid_ready [OF gl] len by (simp add: exact_negative_value)
  ultimately show ?thesis
    using len unfolding validate_caller_split_def m rbind_simps z
    by (simp add: caller_split_loop_run [OF D, of 0] caller_split_ok_def)
qed

text \<open>The split the policy decides meets the conditions on a caller's split.\<close>

lemma select_split_is_caller_split:
  assumes D: "decimal_contract D" and lump: "posting_ok lump" "0 \<le> mval lump" and len: "length cs < 2 ^ 64"
    and ids: "distinct (map cd_invoice_id cs)" and run: "select_split D cs lump hint p = Inr out"
  shows "caller_split_ok cs out lump"
proof -
  let ?order = "map candidate_value (fill_order D cs hint p)"
  note S = select_split_Inr [OF D lump(1) len run]
  have fst: "map fst ?order = map cd_invoice_id (fill_order D cs hint p)" by (simp add: candidate_value_def o_def)
  have "distinct (map fst ?order)"
    unfolding fst using ids mset_fill_order [OF D, of cs hint p] by (metis mset_eq_imp_distinct_iff mset_map)
  then have "distinct (map fst (map allocated_value out))" unfolding S(2) by (rule spill_ids)
  then have ids': "distinct (map al_invoice_id out)" by (simp add: allocated_value_def o_def)
  have "(\<Sum>a\<leftarrow>out. mval (al_amount a)) = (\<Sum>(i, q)\<leftarrow>map allocated_value out. q)"
    by (simp add: allocated_value_def o_def)
  then have t: "(\<Sum>a\<leftarrow>out. mval (al_amount a)) \<le> mval lump"
    unfolding S(2) spill_total using lump(2) by simp
  have "split_fits cs a" if "a \<in> set out" for a
  proof -
    have "(al_invoice_id a, mval (al_amount a)) \<in> set (spill (mval lump) ?order)"
      using that unfolding S(2) [symmetric] by (force simp: allocated_value_def)
    from spill_member [OF this] obtain c where c: "c \<in> set cs" "cd_invoice_id c = al_invoice_id a"
        "mval (al_amount a) \<le> mval (cd_open c)" "0 < mval (al_amount a)"
      using set_fill_order [OF D, of cs hint p] by (auto simp: candidate_value_def)
    have "find (\<lambda>c. cd_invoice_id c = al_invoice_id a) cs = Some c"
      using ids c(1,2) by (induction cs) (force simp: image_iff)+
    with c show ?thesis by (simp add: split_fits_def)
  qed
  with ids' t show ?thesis by (simp add: caller_split_ok_def)
qed

end
