(* ===== verification/Credit.thy ===== *)
theory Credit
  imports Allocation
begin

text \<open>
  \<open>ledger/src/domain/payment/credit.rs\<close>: parking cash in the reusable-credit wallet (grant) and
  spending the wallet on receivables (apply).  The planner of a spend is the same fill as the
  precedence split, over wallet sub-grains.
\<close>

record grant_input =
  gi_tenant_id :: uuid
  gi_payer_tenant_id :: uuid
  gi_credit_application_id :: string
  gi_amount :: posted_money
  gi_credit_grant_event_type :: string
  gi_effective_at :: "offset_date_time option"

record credit_subgrain =
  sg_event_type :: string
  sg_available :: posted_money

record credit_debit =
  db_event_type :: string
  db_amount :: posted_money

record apply_input =
  ap_tenant_id :: uuid
  ap_payer_tenant_id :: uuid
  ap_credit_application_id :: string
  ap_currency :: currency_spec
  ap_debits :: "credit_debit list"
  ap_targets :: "allocated list"
  ap_effective_at :: "offset_date_time option"

text \<open>The line closures of the two builders: a payment line that may carry the wallet bucket.\<close>

definition credit_line ::
  "uuid \<Rightarrow> uuid \<Rightarrow> uuid \<Rightarrow> account_class \<Rightarrow> side \<Rightarrow> posted_money \<Rightarrow> string option \<Rightarrow> string option \<Rightarrow> post_line" where
  "credit_line lid payer seller cls sd m inv_id event_type =
     (payment_line lid payer seller cls sd m inv_id)\<lparr>credit_grant_event_type := event_type\<rparr>"

definition build_grant_entry ::
  "decimal_ops \<Rightarrow> (nat \<Rightarrow> uuid) \<Rightarrow> grant_input \<Rightarrow> domain_error + post_entry" where
  "build_grant_entry D fresh i =
     (if dec_le D (amount (gi_amount i)) dec_zero then Inl D_InvalidRequest
      else if gi_credit_grant_event_type i = [] then Inl D_InvalidRequest
      else let line = (\<lambda>k cls sd event_type.
                 credit_line (fresh k) (gi_payer_tenant_id i) (gi_tenant_id i) cls sd (gi_amount i) None event_type)
           in Inr (payment_entry (fresh 2) (gi_tenant_id i) (code (currency (gi_amount i))) CreditApply
                     (gi_credit_application_id i) (gi_effective_at i)
                     [line 0 Unallocated Debit None,
                      line 1 ReusableCredit Credit (Some (gi_credit_grant_event_type i))]))"

fun debit_loop ::
  "decimal_ops \<Rightarrow> currency_spec \<Rightarrow> credit_subgrain list \<Rightarrow> exact_amount \<Rightarrow> domain_error + credit_debit list" where
  "debit_loop D cur [] remaining = Inr []"
| "debit_loop D cur (sg # sgs) remaining =
     (if exact_eq remaining (from_decimal dec_zero) then Inr []
      else if dec_le D (amount (sg_available sg)) dec_zero then debit_loop D cur sgs remaining
      else let available = from_decimal (amount (sg_available sg))
           in rbind (map_err map_exact_error (checked_sub remaining available)) (\<lambda>difference.
                let give = (if exact_negative difference then remaining else available)
                in rbind (map_err map_exact_error (checked_sub remaining give)) (\<lambda>remaining'.
                   rbind (map_err map_exact_error (into_posted_exact D give cur)) (\<lambda>taken.
                   rbind (debit_loop D cur sgs remaining') (\<lambda>rest.
                     Inr (\<lparr>db_event_type = sg_event_type sg, db_amount = taken\<rparr> # rest))))))"

definition add_capacity :: "decimal_ops \<Rightarrow> credit_subgrain \<Rightarrow> exact_amount \<Rightarrow> domain_error + exact_amount" where
  "add_capacity D sg capacity =
     (if dec_lt D dec_zero (amount (sg_available sg))
      then map_err map_exact_error (checked_add capacity (from_decimal (amount (sg_available sg))))
      else Inr capacity)"

definition plan_wallet_debit ::
  "decimal_ops \<Rightarrow> credit_subgrain list \<Rightarrow> posted_money \<Rightarrow> domain_error + credit_debit list" where
  "plan_wallet_debit D subgrains m =
     rbind (each_result (\<lambda>sg. matching_spec m (sg_available sg)) subgrains) (\<lambda>_.
       if dec_le D (amount m) dec_zero then Inl D_InvalidRequest
       else rbind (fold_result (add_capacity D) subgrains (from_decimal dec_zero)) (\<lambda>capacity.
         let remaining = from_decimal (amount m)
         in rbind (map_err map_exact_error (checked_sub capacity remaining)) (\<lambda>left.
              if exact_negative left then Inl D_CreditExceedsWallet
              else debit_loop D (currency m) subgrains remaining)))"

fun credit_target_loop ::
  "decimal_ops \<Rightarrow> candidate list \<Rightarrow> allocated list \<Rightarrow> string list \<Rightarrow> domain_error + unit" where
  "credit_target_loop D candidates [] seen = Inr ()"
| "credit_target_loop D candidates (target # rest) seen =
     (if al_invoice_id target \<in> set seen then Inl D_CreditExceedsOpenAr
      else if dec_le D (amount (al_amount target)) dec_zero then Inl D_CreditExceedsOpenAr
      else rbind (ok_or D_CreditExceedsOpenAr (find (\<lambda>c. cd_invoice_id c = al_invoice_id target) candidates)) (\<lambda>cand.
        if dec_le D (amount (cd_open cand)) dec_zero then Inl D_CreditExceedsOpenAr
        else if dec_lt D (amount (cd_open cand)) (amount (al_amount target)) then Inl D_CreditExceedsOpenAr
        else credit_target_loop D candidates rest (seen @ [al_invoice_id target])))"

definition target_basis :: "candidate list \<Rightarrow> allocated list \<Rightarrow> posted_money option" where
  "target_basis candidates targets =
     (case candidates of
        c # _ \<Rightarrow> Some (cd_open c)
      | [] \<Rightarrow> (case targets of t # _ \<Rightarrow> Some (al_amount t) | [] \<Rightarrow> None))"

definition validate_credit_targets ::
  "decimal_ops \<Rightarrow> candidate list \<Rightarrow> allocated list \<Rightarrow> domain_error + allocated list" where
  "validate_credit_targets D candidates targets =
     rbind (case target_basis candidates targets of
              None \<Rightarrow> Inr ()
            | Some basis \<Rightarrow>
                rbind (each_result (\<lambda>c. matching_spec basis (cd_open c)) candidates) (\<lambda>_.
                  each_result (\<lambda>t. matching_spec basis (al_amount t)) targets)) (\<lambda>_.
     rbind (credit_target_loop D candidates targets []) (\<lambda>_. Inr targets))"

fun debit_lines :: "apply_input \<Rightarrow> (nat \<Rightarrow> uuid) \<Rightarrow> nat \<Rightarrow> credit_debit list \<Rightarrow> post_line list" where
  "debit_lines i fresh k [] = []"
| "debit_lines i fresh k (d # ds) =
     credit_line (fresh k) (ap_payer_tenant_id i) (ap_tenant_id i) ReusableCredit Debit (db_amount d) None
       (Some (db_event_type d)) # debit_lines i fresh (Suc k) ds"

fun target_lines :: "apply_input \<Rightarrow> (nat \<Rightarrow> uuid) \<Rightarrow> nat \<Rightarrow> allocated list \<Rightarrow> post_line list" where
  "target_lines i fresh k [] = []"
| "target_lines i fresh k (a # as) =
     credit_line (fresh k) (ap_payer_tenant_id i) (ap_tenant_id i) Ar Credit (al_amount a) (Some (al_invoice_id a)) None #
     target_lines i fresh (Suc k) as"

definition positive_amount :: "decimal_ops \<Rightarrow> posted_money \<Rightarrow> domain_error + unit" where
  "positive_amount D m = (if dec_le D (amount m) dec_zero then Inl D_InvalidRequest else Inr ())"

text \<open>The derived \<open>PartialEq\<close> of a posted amount: equal values in the same currency.\<close>

definition money_eq :: "decimal_ops \<Rightarrow> posted_money \<Rightarrow> posted_money \<Rightarrow> bool" where
  "money_eq D a b \<longleftrightarrow> dec_eq D (amount a) (amount b) \<and> currency a = currency b"

definition build_apply_entry ::
  "decimal_ops \<Rightarrow> (nat \<Rightarrow> uuid) \<Rightarrow> apply_input \<Rightarrow> domain_error + post_entry" where
  "build_apply_entry D fresh i =
     rbind (each_result (\<lambda>d. matching_currency (ap_currency i) (currency (db_amount d))) (ap_debits i)) (\<lambda>_.
     rbind (each_result (\<lambda>t. matching_currency (ap_currency i) (currency (al_amount t))) (ap_targets i)) (\<lambda>_.
       if ap_debits i = [] then Inl D_InvalidRequest
       else if ap_targets i = [] then Inl D_InvalidRequest
       else rbind (each_result (\<lambda>d. positive_amount D (db_amount d)) (ap_debits i)) (\<lambda>_.
            rbind (each_result (\<lambda>t. positive_amount D (al_amount t)) (ap_targets i)) (\<lambda>_.
            rbind (map_err map_exact_error (sum_posted D (map db_amount (ap_debits i)) (ap_currency i))) (\<lambda>debit_total.
            rbind (map_err map_exact_error (sum_posted D (map al_amount (ap_targets i)) (ap_currency i))) (\<lambda>credit_total.
              if \<not> money_eq D debit_total credit_total then Inl D_InvalidRequest
              else let ls = debit_lines i fresh 0 (ap_debits i) @
                              target_lines i fresh (length (ap_debits i)) (ap_targets i)
                   in Inr (payment_entry (fresh (length ls)) (ap_tenant_id i) (code (ap_currency i)) CreditApply
                             (ap_credit_application_id i) (ap_effective_at i) ls)))))))"

section \<open>The wallet plan is the fill\<close>

definition subgrain_candidate :: "credit_subgrain \<Rightarrow> candidate" where
  "subgrain_candidate sg =
     \<lparr>cd_invoice_id = sg_event_type sg, cd_open = sg_available sg, cd_original_posted_at = None\<rparr>"

definition debit_of :: "allocated \<Rightarrow> credit_debit" where
  "debit_of a = \<lparr>db_event_type = al_invoice_id a, db_amount = al_amount a\<rparr>"

lemma subgrain_candidate_simps [simp]:
  "cd_open (subgrain_candidate sg) = sg_available sg" "cd_invoice_id (subgrain_candidate sg) = sg_event_type sg"
  "db_amount (debit_of a) = al_amount a" "db_event_type (debit_of a) = al_invoice_id a"
  by (simp_all add: subgrain_candidate_def debit_of_def)

lemma debit_loop_step:
  assumes D: "decimal_contract D" and g: "dec_grid k r" and k: "k < 2 ^ 64"
  shows "debit_loop D cur (sg # sgs) (amount_of r) =
    (if r = 0 then Inr []
     else if mval (sg_available sg) \<le> 0 then debit_loop D cur sgs (amount_of r)
     else rbind (map_err map_exact_error (into_posted_exact D (amount_of (min r (mval (sg_available sg)))) cur)) (\<lambda>taken.
          rbind (debit_loop D cur sgs (amount_of (r - min r (mval (sg_available sg))))) (\<lambda>rest.
            Inr (\<lparr>db_event_type = sg_event_type sg, db_amount = taken\<rparr> # rest))))"
proof -
  let ?o = "mval (sg_available sg)"
  have ready: "exact_ready (amount_of r)" using k by (intro dec_grid_ready [OF g]) simp
  have gd: "dec_grid (Suc k) (r - ?o)"
    using dec_grid_add [OF g, of 1 "- ?o"] dec_grid_dval [of "amount (sg_available sg)"] by simp
  have d: "checked_sub (amount_of r) (from_decimal (amount (sg_available sg))) = Inr (amount_of (r - ?o))"
    using dec_grid_narrow [OF gd] k by (simp add: checked_sub_narrow [OF ready])
  have rd: "exact_ready (amount_of (r - ?o))" using k by (intro dec_grid_ready [OF gd]) simp
  have z: "checked_sub (amount_of r) (amount_of r) = Inr (amount_of 0)"
    using dec_grid_narrow [of 0 0] by (simp add: checked_sub_narrow [OF ready ready])
  have s: "exact_eq (amount_of r) (from_decimal dec_zero) \<longleftrightarrow> r = 0"
    using k by (intro exact_eq_zero [OF g]) simp
  show ?thesis
    unfolding debit_loop.simps s
    by (simp add: contract_compare [OF D] not_less d Let_def exact_negative_value [OF rd] z
        from_decimal_amount_of [symmetric] min_def)
qed

lemma debit_loop_fill:
  assumes D: "decimal_contract D" and "dec_grid k r" "k + length sgs \<le> 2 ^ 64" "0 \<le> r"
  shows "debit_loop D cur sgs (amount_of r) =
    rbind (fill_loop D cur (map subgrain_candidate sgs) (amount_of r)) (\<lambda>out. Inr (map debit_of out))"
  using assms(2-)
proof (induction sgs arbitrary: k r)
  case (Cons sg sgs)
  let ?g = "min r (mval (sg_available sg))"
  have k: "k < 2 ^ 64" "k + length sgs \<le> 2 ^ 64" "Suc k + length sgs \<le> 2 ^ 64" using Cons.prems by simp_all
  have "debit_loop D cur sgs (amount_of (r - ?g)) =
      rbind (fill_loop D cur (map subgrain_candidate sgs) (amount_of (r - ?g))) (\<lambda>out. Inr (map debit_of out))"
    by (rule Cons.IH [OF dec_grid_after [OF Cons.prems(1)] k(3)]) simp
  moreover note Cons.IH [OF Cons.prems(1) k(2) Cons.prems(3)]
  ultimately show ?case
    using Cons.prems(3) unfolding list.map debit_loop_step [OF D Cons.prems(1) k(1)] fill_loop_step [OF D Cons.prems(1) k(1)]
    by (auto simp: rbind_def debit_of_def map_err_def split: sum.splits)
qed simp

definition capacity_of :: "credit_subgrain list \<Rightarrow> rat" where
  "capacity_of sgs = (\<Sum>sg\<leftarrow>sgs. max 0 (mval (sg_available sg)))"

lemma add_capacity_run:
  assumes D: "decimal_contract D" and "dec_grid k v" "k + length sgs \<le> 2 ^ 64"
  shows "fold_result (add_capacity D) sgs (amount_of v) = Inr (amount_of (v + capacity_of sgs)) \<and>
    dec_grid (k + length sgs) (v + capacity_of sgs)"
  using assms(2-)
proof (induction sgs arbitrary: k v)
  case (Cons sg sgs)
  let ?v = "v + max 0 (mval (sg_available sg))"
  have g: "dec_grid (Suc k) ?v"
    using dec_grid_add [OF Cons.prems(1) dec_grid_dval [of "amount (sg_available sg)"]]
      dec_grid_add [OF Cons.prems(1), of 1 0] by (simp add: max_def)
  have "add_capacity D sg (amount_of v) = Inr (amount_of ?v)"
    using dec_grid_narrow [OF g] dec_grid_ready [OF Cons.prems(1)] Cons.prems(2)
    by (simp add: add_capacity_def contract_compare [OF D] checked_add_narrow max_def split: if_splits)
  moreover have "Suc k + length sgs \<le> 2 ^ 64" using Cons.prems(2) by simp
  ultimately show ?case using Cons.IH [OF g] by (simp add: capacity_of_def add.assoc)
qed (simp add: capacity_of_def)

definition debit_value :: "credit_debit \<Rightarrow> string \<times> rat" where
  "debit_value d = (db_event_type d, mval (db_amount d))"

definition subgrain_value :: "credit_subgrain \<Rightarrow> string \<times> rat" where
  "subgrain_value sg = (sg_event_type sg, mval (sg_available sg))"

lemma open_total_subgrains: "open_total (map subgrain_value sgs) = capacity_of sgs"
  by (induction sgs) (simp_all add: subgrain_value_def capacity_of_def)

lemma plan_wallet_debit_run:
  assumes D: "decimal_contract D" and len: "length sgs + 1 < 2 ^ 64"
    and cur: "\<forall>sg\<in>set sgs. currency (sg_available sg) = currency m"
  shows "plan_wallet_debit D sgs m =
    (if mval m \<le> 0 then Inl D_InvalidRequest
     else if capacity_of sgs < mval m then Inl D_CreditExceedsWallet
     else rbind (fill_loop D (currency m) (map subgrain_candidate sgs) (amount_of (mval m))) (\<lambda>out. Inr (map debit_of out)))"
proof -
  have e: "each_result (\<lambda>sg. matching_spec m (sg_available sg)) sgs = Inr ()"
    using cur by (simp add: each_result_ok)
  have z: "from_decimal dec_zero = amount_of 0" by (simp add: from_decimal_amount_of)
  have c: "fold_result (add_capacity D) sgs (amount_of 0) = Inr (amount_of (capacity_of sgs))"
      "dec_grid (length sgs) (capacity_of sgs)"
    using add_capacity_run [OF D, of 0 0 sgs] len by simp_all
  have g: "dec_grid (length sgs + 1) (capacity_of sgs - mval m)"
    using dec_grid_add [OF c(2), of 1 "- mval m"] dec_grid_dval [of "amount m"] by simp
  have r: "exact_ready (amount_of (capacity_of sgs))" "exact_ready (amount_of (capacity_of sgs - mval m))"
    using dec_grid_ready [OF c(2)] dec_grid_ready [OF g] len by simp_all
  have s: "checked_sub (amount_of (capacity_of sgs)) (from_decimal (amount m)) = Inr (amount_of (capacity_of sgs - mval m))"
    using dec_grid_narrow [OF g] len by (simp add: checked_sub_narrow [OF r(1)])
  have "debit_loop D (currency m) sgs (amount_of (mval m)) =
      rbind (fill_loop D (currency m) (map subgrain_candidate sgs) (amount_of (mval m))) (\<lambda>out. Inr (map debit_of out))"
    if "0 < mval m"
    using that len by (intro debit_loop_fill [OF D dec_grid_dval]) simp_all
  then show ?thesis
    unfolding plan_wallet_debit_def e rbind_simps z c(1) Let_def s map_err_simps
    by (simp add: contract_compare [OF D] not_less exact_negative_value [OF r(2)] from_decimal_amount_of)
qed

lemma plan_wallet_debit_Inr:
  assumes D: "decimal_contract D" and m: "posting_ok m" and len: "length sgs + 1 < 2 ^ 64"
    and run: "plan_wallet_debit D sgs m = Inr ds"
  shows "0 < mval m" "mval m \<le> capacity_of sgs" "\<forall>sg\<in>set sgs. currency (sg_available sg) = currency m"
    "map debit_value ds = spill (mval m) (map subgrain_value sgs)"
    "\<forall>d\<in>set ds. posted_ok (db_amount d) \<and> currency (db_amount d) = currency m"
    "(\<Sum>d\<leftarrow>ds. mval (db_amount d)) = mval m"
proof -
  have s: "cur_scale (currency m) \<le> 28" using m by (simp add: posting_ok_def)
  show cur: "\<forall>sg\<in>set sgs. currency (sg_available sg) = currency m"
    using run by (auto simp: plan_wallet_debit_def)
  from run show v: "0 < mval m" "mval m \<le> capacity_of sgs"
    by (simp_all add: plan_wallet_debit_run [OF D len cur] split: if_splits)
  from run v obtain out where o: "fill_loop D (currency m) (map subgrain_candidate sgs) (amount_of (mval m)) = Inr out"
      and ds: "ds = map debit_of out"
    by (auto simp: plan_wallet_debit_run [OF D len cur])
  have "1 + length (map subgrain_candidate sgs) \<le> 2 ^ 64" using len by simp
  note F = fill_loop_spill [OF D s dec_grid_dval this o]
  have "map candidate_value (map subgrain_candidate sgs) = map subgrain_value sgs"
    by (simp add: candidate_value_def subgrain_value_def)
  moreover have "map debit_value ds = map allocated_value out"
    by (simp add: ds debit_value_def allocated_value_def)
  ultimately show val: "map debit_value ds = spill (mval m) (map subgrain_value sgs)"
    using F(1) by (simp only:)
  show "\<forall>d\<in>set ds. posted_ok (db_amount d) \<and> currency (db_amount d) = currency m" using F(2) by (simp add: ds)
  have "(\<Sum>d\<leftarrow>ds. mval (db_amount d)) = (\<Sum>(i, q)\<leftarrow>map debit_value ds. q)" by (simp add: debit_value_def o_def)
  then show "(\<Sum>d\<leftarrow>ds. mval (db_amount d)) = mval m"
    unfolding val spill_total open_total_subgrains using v by simp
qed

section \<open>Targets\<close>

lemma credit_target_loop_run:
  assumes D: "decimal_contract D"
  shows "credit_target_loop D cs ts seen =
    (if distinct (map al_invoice_id ts) \<and> al_invoice_id ` set ts \<inter> set seen = {} \<and> (\<forall>t\<in>set ts. split_fits cs t)
     then Inr () else Inl D_CreditExceedsOpenAr)"
  by (induction ts arbitrary: seen)
    (auto simp: split_fits_def contract_compare [OF D] not_less not_le split: option.splits)

lemma validate_credit_targets_run:
  assumes D: "decimal_contract D"
    and cur: "\<forall>c\<in>set cs. currency (cd_open c) = cur" "\<forall>t\<in>set ts. currency (al_amount t) = cur"
  shows "validate_credit_targets D cs ts =
    (if distinct (map al_invoice_id ts) \<and> (\<forall>t\<in>set ts. split_fits cs t) then Inr ts else Inl D_CreditExceedsOpenAr)"
proof -
  have b: "currency basis = cur" if "target_basis cs ts = Some basis" for basis
    using that cur by (auto simp: target_basis_def split: list.splits)
  have "(case target_basis cs ts of None \<Rightarrow> Inr ()
      | Some basis \<Rightarrow> rbind (each_result (\<lambda>c. matching_spec basis (cd_open c)) cs) (\<lambda>_.
          each_result (\<lambda>t. matching_spec basis (al_amount t)) ts)) = Inr ()"
    using b cur by (auto split: option.splits)
  then show ?thesis by (simp add: validate_credit_targets_def credit_target_loop_run [OF D])
qed

lemma validate_credit_targets_Inr:
  assumes D: "decimal_contract D" and run: "validate_credit_targets D cs ts = Inr out"
  shows "out = ts" "distinct (map al_invoice_id ts)" "\<forall>t\<in>set ts. split_fits cs t"
  using run by (auto simp: validate_credit_targets_def credit_target_loop_run [OF D] split: if_splits)

section \<open>Both entries balance\<close>

lemma credit_line_simps [simp]:
  "money (credit_line lid payer seller cls sd m inv_id ev) = m"
  "side (credit_line lid payer seller cls sd m inv_id ev) = sd"
  "payer_tenant_id (credit_line lid payer seller cls sd m inv_id ev) = payer"
  "account_class (credit_line lid payer seller cls sd m inv_id ev) = cls"
  "invoice_id (credit_line lid payer seller cls sd m inv_id ev) = inv_id"
  "functional_money (credit_line lid payer seller cls sd m inv_id ev) = None"
  "credit_grant_event_type (credit_line lid payer seller cls sd m inv_id ev) = ev"
  by (simp_all add: credit_line_def)

lemma plain_credit_line:
  "plain_line cur payer (credit_line lid payer' seller cls sd m inv_id ev) \<longleftrightarrow>
     currency m = cur \<and> payer' = payer \<and> 0 < mval m"
  by (auto simp: plain_line_def)

text \<open>The two-sided event-type rule: a line names a wallet bucket exactly when it is a wallet line.\<close>

definition event_type_rule :: "post_line \<Rightarrow> bool" where
  "event_type_rule l \<longleftrightarrow> (credit_grant_event_type l = None \<longleftrightarrow> account_class l \<noteq> ReusableCredit)"

definition grant_ok :: "grant_input \<Rightarrow> bool" where
  "grant_ok i \<longleftrightarrow> posting_ok (gi_amount i)"

lemma build_grant_run:
  assumes "decimal_contract D"
  shows "build_grant_entry D fresh i = (if 0 < mval (gi_amount i) \<and> gi_credit_grant_event_type i \<noteq> []
    then Inr (payment_entry (fresh 2) (gi_tenant_id i) (code (currency (gi_amount i))) CreditApply
           (gi_credit_application_id i) (gi_effective_at i)
           [credit_line (fresh 0) (gi_payer_tenant_id i) (gi_tenant_id i) Unallocated Debit (gi_amount i) None None,
            credit_line (fresh 1) (gi_payer_tenant_id i) (gi_tenant_id i) ReusableCredit Credit (gi_amount i) None
              (Some (gi_credit_grant_event_type i))])
    else Inl D_InvalidRequest)"
  by (simp add: build_grant_entry_def contract_compare [OF assms] not_less Let_def)

interpretation credit_grant: entry_builder build_grant_entry grant_ok
proof unfold_locales
  fix D :: decimal_ops and i fresh e
  assume D: "decimal_contract D" and e: "build_grant_entry D fresh i = Inr e"
  show "length (lines e) \<le> 2 ^ 64" using e by (auto simp: build_grant_run [OF D] split: if_splits)
  show "entry_balanced e"
    using e by (intro plain_entry_balanced [of e "currency (gi_amount i)" "gi_payer_tenant_id i"])
      (auto simp: build_grant_run [OF D] plain_credit_line split: if_splits)
qed

lemma debit_lines_facts [simp]:
  "length (debit_lines i fresh k ds) = length ds"
  "lines_net (debit_lines i fresh k ds) = (\<Sum>d\<leftarrow>ds. mval (db_amount d))"
  by (induction ds arbitrary: k) simp_all

lemma target_lines_facts [simp]:
  "length (target_lines i fresh k ts) = length ts"
  "lines_net (target_lines i fresh k ts) = - (\<Sum>t\<leftarrow>ts. mval (al_amount t))"
  by (induction ts arbitrary: k) simp_all

lemma lines_net_append [simp]: "lines_net (xs @ ys) = lines_net xs + lines_net ys"
  by (simp add: lines_net_def)

lemma debit_lines_member:
  assumes "l \<in> set (debit_lines i fresh k ds)"
  obtains d where "d \<in> set ds" "account_class l = ReusableCredit" "side l = Debit" "money l = db_amount d"
    "payer_tenant_id l = ap_payer_tenant_id i" "functional_money l = None" "invoice_id l = None"
    "credit_grant_event_type l = Some (db_event_type d)"
  using assms by (induction ds arbitrary: k) auto

lemma target_lines_member:
  assumes "l \<in> set (target_lines i fresh k ts)"
  obtains t where "t \<in> set ts" "account_class l = Ar" "side l = Credit" "money l = al_amount t"
    "payer_tenant_id l = ap_payer_tenant_id i" "functional_money l = None" "invoice_id l = Some (al_invoice_id t)"
    "credit_grant_event_type l = None"
  using assms by (induction ts arbitrary: k) auto

definition apply_ok :: "apply_input \<Rightarrow> bool" where
  "apply_ok i \<longleftrightarrow> cur_scale (ap_currency i) \<le> 28 \<and> length (ap_debits i) + length (ap_targets i) \<le> 2 ^ 64"

definition apply_sides_ok :: "apply_input \<Rightarrow> bool" where
  "apply_sides_ok i \<longleftrightarrow> ap_debits i \<noteq> [] \<and> ap_targets i \<noteq> [] \<and>
     (\<forall>d\<in>set (ap_debits i). currency (db_amount d) = ap_currency i \<and> 0 < mval (db_amount d)) \<and>
     (\<forall>t\<in>set (ap_targets i). currency (al_amount t) = ap_currency i \<and> 0 < mval (al_amount t)) \<and>
     (\<Sum>d\<leftarrow>ap_debits i. mval (db_amount d)) = (\<Sum>t\<leftarrow>ap_targets i. mval (al_amount t))"

definition apply_lines :: "(nat \<Rightarrow> uuid) \<Rightarrow> apply_input \<Rightarrow> post_line list" where
  "apply_lines fresh i =
     debit_lines i fresh 0 (ap_debits i) @ target_lines i fresh (length (ap_debits i)) (ap_targets i)"

lemma positive_amount_Inr [simp]:
  "decimal_contract D \<Longrightarrow> positive_amount D m = Inr u \<longleftrightarrow> 0 < mval m"
  by (auto simp: positive_amount_def contract_compare not_less split: if_splits)

lemma build_apply_Inr:
  assumes D: "decimal_contract D" and ok: "apply_ok i"
  shows "build_apply_entry D fresh i = Inr e \<longleftrightarrow>
    apply_sides_ok i \<and> (\<exists>t. represents t (ap_currency i) (\<Sum>t\<leftarrow>ap_targets i. mval (al_amount t))) \<and>
    e = payment_entry (fresh (length (apply_lines fresh i))) (ap_tenant_id i) (code (ap_currency i)) CreditApply
          (ap_credit_application_id i) (ap_effective_at i) (apply_lines fresh i)"
proof -
  have ok': "cur_scale (ap_currency i) \<le> 28" "length (map db_amount (ap_debits i)) \<le> 2 ^ 64"
      "length (map al_amount (ap_targets i)) \<le> 2 ^ 64"
    using ok by (simp_all add: apply_ok_def)
  have eq: "money_eq D a b \<longleftrightarrow> mval a = mval b \<and> currency a = currency b" for a b
    by (simp add: money_eq_def contract_compare [OF D])
  have S: "build_apply_entry D fresh i = Inr e \<longleftrightarrow>
      ap_debits i \<noteq> [] \<and> ap_targets i \<noteq> [] \<and>
      (\<forall>d\<in>set (ap_debits i). currency (db_amount d) = ap_currency i \<and> 0 < mval (db_amount d)) \<and>
      (\<forall>t\<in>set (ap_targets i). currency (al_amount t) = ap_currency i \<and> 0 < mval (al_amount t)) \<and>
      (\<exists>a b. represents a (ap_currency i) (\<Sum>d\<leftarrow>ap_debits i. mval (db_amount d)) \<and>
             represents b (ap_currency i) (\<Sum>t\<leftarrow>ap_targets i. mval (al_amount t)) \<and> money_eq D a b) \<and>
      e = payment_entry (fresh (length (apply_lines fresh i))) (ap_tenant_id i) (code (ap_currency i)) CreditApply
            (ap_credit_application_id i) (ap_effective_at i) (apply_lines fresh i)"
    using D by (auto simp: build_apply_entry_def sum_posted_Inr [OF D ok'(1,2)] sum_posted_Inr [OF D ok'(1,3)]
        if_Inl_Inr Let_def o_def apply_lines_def)
  show ?thesis unfolding S apply_sides_ok_def eq by (auto simp: represents_def)
qed

interpretation credit_apply: entry_builder build_apply_entry apply_ok
proof unfold_locales
  fix D :: decimal_ops and i fresh e
  assume D: "decimal_contract D" and i: "apply_ok i" and "build_apply_entry D fresh i = Inr e"
  then have s: "apply_sides_ok i" and ls: "lines e = apply_lines fresh i" and cur: "entry_currency e = code (ap_currency i)"
    by (auto simp: build_apply_Inr [OF D i])
  show "length (lines e) \<le> 2 ^ 64" using i by (simp add: ls apply_lines_def apply_ok_def)
  have "plain_line (ap_currency i) (ap_payer_tenant_id i) l" if "l \<in> set (lines e)" for l
    using that s unfolding ls apply_lines_def
    by (auto simp: plain_line_def apply_sides_ok_def elim!: debit_lines_member target_lines_member)
  moreover have "0 < length (lines e)" using s by (simp add: ls apply_lines_def apply_sides_ok_def)
  moreover have "lines_net (lines e) = 0" using s by (simp add: ls apply_lines_def apply_sides_ok_def)
  ultimately show "entry_balanced e" using cur by (intro plain_entry_balanced) auto
qed

lemma apply_event_types:
  assumes "l \<in> set (apply_lines fresh i)"
  shows "event_type_rule l"
  using assms by (auto simp: apply_lines_def event_type_rule_def elim!: debit_lines_member target_lines_member)

text \<open>A spend planned for the sum of validated targets builds.\<close>

lemma plan_then_apply:
  assumes D: "decimal_contract D" and m: "posting_ok m" and len: "length sgs + 1 < 2 ^ 63" "length ts \<le> 2 ^ 63"
    and ts: "validate_credit_targets D cs ts = Inr out" "sum_posted D (map al_amount ts) (currency m) = Inr m"
    and plan: "plan_wallet_debit D sgs m = Inr ds"
    and i: "ap_currency i = currency m" "ap_debits i = ds" "ap_targets i = ts"
  shows "apply_ok i" "\<exists>e. build_apply_entry D fresh i = Inr e"
proof -
  have s: "cur_scale (currency m) \<le> 28" using m by (simp add: posting_ok_def)
  have len64: "length sgs + 1 < 2 ^ 64" "length (map al_amount ts) \<le> 2 ^ 64" using len by simp_all
  note P = plan_wallet_debit_Inr [OF D m len64(1) plan]
  note T = validate_credit_targets_Inr [OF D ts(1)]
  have sum: "represents m (currency m) (\<Sum>t\<leftarrow>ts. mval (al_amount t))" "\<forall>t\<in>set ts. currency (al_amount t) = currency m"
    using ts(2) by (simp_all add: sum_posted_Inr [OF D s len64(2)] o_def)
  have "length ds = length (spill (mval m) (map subgrain_value sgs))" by (metis P(4) length_map)
  also have "\<dots> \<le> length (map subgrain_value sgs)" by (rule spill_length)
  finally show ok: "apply_ok i" using len s by (simp add: apply_ok_def i)
  have pos: "0 < mval (db_amount d)" if "d \<in> set ds" for d
  proof -
    have "(db_event_type d, mval (db_amount d)) \<in> set (spill (mval m) (map subgrain_value sgs))"
      using that unfolding P(4) [symmetric] by (force simp: debit_value_def)
    then show ?thesis by (rule spill_member(1))
  qed
  have "mval m = (\<Sum>t\<leftarrow>ts. mval (al_amount t))" using sum(1) by (simp add: represents_def)
  moreover from this have "ts \<noteq> []" "ds \<noteq> []" using P(1,6) by auto
  ultimately have "apply_sides_ok i"
    using P(5,6) T(3) sum(2) pos by (auto simp: apply_sides_ok_def i split_fits_def)
  then show "\<exists>e. build_apply_entry D fresh i = Inr e"
    using sum(1) by (auto simp: build_apply_Inr [OF D ok] i)
qed

end
