(* ===== verification/Chargeback.thy ===== *)
theory Chargeback
  imports Dispute Credit Status
begin

text \<open>
  \<open>ledger/src/domain/payment/chargeback.rs\<close>: the entry of each dispute phase.  A cash hold moves at most
  the net cash the payment left in clearing; a reclass moves the receivable between its active and
  disputed parts.  \<open>ar_effect\<close> is what the legs do to the receivable and to its disputed part.
\<close>

datatype funds_at_open = Withheld | NotMoved

fun funds_variant :: "funds_at_open \<Rightarrow> dispute_variant" where
  "funds_variant Withheld = CashHold"
| "funds_variant NotMoved = ArReclass"

fun funds_as_str :: "funds_at_open \<Rightarrow> string" where
  "funds_as_str Withheld = ''withheld''"
| "funds_as_str NotMoved = ''not_moved''"

definition ascii_lower :: "char \<Rightarrow> char" where
  "ascii_lower c =
     (if 65 \<le> (of_char c :: nat) \<and> (of_char c :: nat) \<le> 90 then char_of ((of_char c :: nat) + 32) else c)"

definition funds_parse :: "string \<Rightarrow> funds_at_open option" where
  "funds_parse s = map_of (map (\<lambda>f. (funds_as_str f, f)) [Withheld, NotMoved]) (map ascii_lower s)"

record chargeback_input =
  cb_tenant_id :: uuid
  cb_payer_tenant_id :: uuid
  cb_payment_id :: string
  cb_dispute_id :: string
  cb_cycle :: int
  cb_phase :: dispute_phase
  cb_variant :: dispute_variant
  cb_disputed_amount :: posted_money
  cb_invoice_id :: "string option"
  cb_effective_at :: "offset_date_time option"

definition business_id :: "chargeback_input \<Rightarrow> string" where
  "business_id i = cb_dispute_id i @ '':'' @ show_int (cb_cycle i) @ '':'' @ phase_as_str (cb_phase i)"

definition cash_line :: "chargeback_input \<Rightarrow> uuid \<Rightarrow> account_class \<Rightarrow> side \<Rightarrow> posted_money \<Rightarrow> post_line" where
  "cash_line i lid cls sd m = payment_line lid (cb_payer_tenant_id i) (cb_tenant_id i) cls sd m None"

definition ar_line :: "chargeback_input \<Rightarrow> uuid \<Rightarrow> string \<Rightarrow> side \<Rightarrow> string \<Rightarrow> post_line" where
  "ar_line i lid inv_id sd status =
     (payment_line lid (cb_payer_tenant_id i) (cb_tenant_id i) Ar sd (cb_disputed_amount i) (Some inv_id))
       \<lparr>ar_status := Some status\<rparr>"

definition require_invoice_id :: "chargeback_input \<Rightarrow> domain_error + string" where
  "require_invoice_id i = ok_or D_InvalidRequest (cb_invoice_id i)"

definition ar_reclass_lines ::
  "chargeback_input \<Rightarrow> (nat \<Rightarrow> uuid) \<Rightarrow> string \<Rightarrow> string \<Rightarrow> domain_error + post_line list" where
  "ar_reclass_lines i fresh dr_status cr_status =
     rbind (require_invoice_id i) (\<lambda>inv_id.
       Inr [ar_line i (fresh 0) inv_id Debit dr_status, ar_line i (fresh 1) inv_id Credit cr_status])"

definition opened_cash_hold_lines :: "chargeback_input \<Rightarrow> (nat \<Rightarrow> uuid) \<Rightarrow> posted_money \<Rightarrow> post_line list" where
  "opened_cash_hold_lines i fresh held =
     [cash_line i (fresh 0) DisputeHold Debit held, cash_line i (fresh 1) CashClearing Credit held]"

definition won_cash_hold_lines :: "chargeback_input \<Rightarrow> (nat \<Rightarrow> uuid) \<Rightarrow> posted_money \<Rightarrow> post_line list" where
  "won_cash_hold_lines i fresh held =
     [cash_line i (fresh 0) CashClearing Debit held, cash_line i (fresh 1) DisputeHold Credit held]"

definition won_ar_reclass_lines :: "chargeback_input \<Rightarrow> (nat \<Rightarrow> uuid) \<Rightarrow> domain_error + post_line list" where
  "won_ar_reclass_lines i fresh = ar_reclass_lines i fresh AR_STATUS_ACTIVE AR_STATUS_DISPUTED"

definition lost_cash_hold_lines :: "chargeback_input \<Rightarrow> (nat \<Rightarrow> uuid) \<Rightarrow> posted_money \<Rightarrow> post_line list" where
  "lost_cash_hold_lines i fresh held =
     [cash_line i (fresh 0) DisputeLossExpense Debit held, cash_line i (fresh 1) DisputeHold Credit held]"

definition lost_ar_reclass_lines :: "chargeback_input \<Rightarrow> (nat \<Rightarrow> uuid) \<Rightarrow> domain_error + post_line list" where
  "lost_ar_reclass_lines i fresh =
     rbind (require_invoice_id i) (\<lambda>inv_id.
       Inr [cash_line i (fresh 0) DisputeLossExpense Debit (cb_disputed_amount i),
            ar_line i (fresh 1) inv_id Credit AR_STATUS_DISPUTED])"

definition opened_ar_reclass_lines :: "chargeback_input \<Rightarrow> (nat \<Rightarrow> uuid) \<Rightarrow> domain_error + post_line list" where
  "opened_ar_reclass_lines i fresh = ar_reclass_lines i fresh AR_STATUS_DISPUTED AR_STATUS_ACTIVE"

definition held_cash :: "decimal_ops \<Rightarrow> chargeback_input \<Rightarrow> posted_money \<Rightarrow> posted_money" where
  "held_cash D i supplied =
     (if dec_lt D (amount supplied) (amount (cb_disputed_amount i)) then supplied else cb_disputed_amount i)"

definition chargeback_lines ::
  "chargeback_input \<Rightarrow> (nat \<Rightarrow> uuid) \<Rightarrow> posted_money \<Rightarrow> domain_error + post_line list" where
  "chargeback_lines i fresh held =
     (case (cb_phase i, cb_variant i) of
        (Opened, CashHold) \<Rightarrow> Inr (opened_cash_hold_lines i fresh held)
      | (Opened, ArReclass) \<Rightarrow> opened_ar_reclass_lines i fresh
      | (Won, CashHold) \<Rightarrow> Inr (won_cash_hold_lines i fresh held)
      | (Won, ArReclass) \<Rightarrow> won_ar_reclass_lines i fresh
      | (Lost, CashHold) \<Rightarrow> Inr (lost_cash_hold_lines i fresh held)
      | (Lost, ArReclass) \<Rightarrow> lost_ar_reclass_lines i fresh
      | (Partial, _) \<Rightarrow> Inl D_InvalidDisputeTransition)"

definition build_chargeback_entry ::
  "decimal_ops \<Rightarrow> (nat \<Rightarrow> uuid) \<Rightarrow> chargeback_input \<Rightarrow> posted_money \<Rightarrow> domain_error + post_entry" where
  "build_chargeback_entry D fresh i supplied =
     rbind (matching_spec (cb_disputed_amount i) supplied) (\<lambda>_.
       if dec_le D (amount (cb_disputed_amount i)) dec_zero then Inl D_InvalidRequest
       else let cash_hold = held_cash D i supplied
            in if cb_variant i = CashHold \<and> dec_le D (amount cash_hold) dec_zero then Inl D_InvalidRequest
               else rbind (chargeback_lines i fresh cash_hold) (\<lambda>ls.
                 Inr (payment_entry (fresh 2) (cb_tenant_id i) (code (currency (cb_disputed_amount i))) Chargeback
                        (business_id i) (cb_effective_at i) ls)))"

definition clawed_back_on_post :: "decimal_ops \<Rightarrow> chargeback_input \<Rightarrow> posted_money \<Rightarrow> domain_error + posted_money" where
  "clawed_back_on_post D i supplied =
     rbind (matching_spec (cb_disputed_amount i) supplied) (\<lambda>_.
       if cb_phase i = Lost \<and> cb_variant i = CashHold
       then let held = held_cash D i supplied
            in if dec_le D (amount held) dec_zero then Inl D_InvalidRequest else Inr held
       else zero_posted D (cb_disputed_amount i))"

text \<open>
  \<open>infra/payment/chargeback.rs\<close>: the cash a phase works with, from the stored row on an outcome, and the
  hold the opening records.
\<close>

definition supplied_net ::
  "decimal_ops \<Rightarrow> chargeback_input \<Rightarrow> dispute_state option \<Rightarrow> domain_error + posted_money \<Rightarrow> domain_error + posted_money" where
  "supplied_net D i existing read_net =
     (case (cb_variant i, cb_phase i) of
        (CashHold, Opened) \<Rightarrow> read_net
      | (CashHold, Won) \<Rightarrow> (case existing of Some row \<Rightarrow> Inr (ds_cash_hold row) | None \<Rightarrow> zero_posted D (cb_disputed_amount i))
      | (CashHold, Lost) \<Rightarrow> (case existing of Some row \<Rightarrow> Inr (ds_cash_hold row) | None \<Rightarrow> zero_posted D (cb_disputed_amount i))
      | _ \<Rightarrow> zero_posted D (cb_disputed_amount i))"

definition min_posted :: "decimal_ops \<Rightarrow> posted_money \<Rightarrow> posted_money \<Rightarrow> domain_error + posted_money" where
  "min_posted D a b = rbind (matching_spec a b) (\<lambda>_. Inr (if dec_lt D (amount b) (amount a) then b else a))"

section \<open>Effects\<close>

definition class_net :: "post_entry \<Rightarrow> account_class \<Rightarrow> rat" where
  "class_net e cls = (\<Sum>l\<leftarrow>lines e. if account_class l = cls then signed (side l) (mval (money l)) else 0)"

definition disputed_net :: "post_entry \<Rightarrow> rat" where
  "disputed_net e = (\<Sum>l\<leftarrow>lines e. if ar_status l = Some AR_STATUS_DISPUTED then signed (side l) (mval (money l)) else 0)"

lemma cash_line_simps [simp]:
  "money (cash_line i lid cls sd m) = m" "side (cash_line i lid cls sd m) = sd"
  "account_class (cash_line i lid cls sd m) = cls" "payer_tenant_id (cash_line i lid cls sd m) = cb_payer_tenant_id i"
  "functional_money (cash_line i lid cls sd m) = None" "ar_status (cash_line i lid cls sd m) = None"
  by (simp_all add: cash_line_def)

lemma ar_line_simps [simp]:
  "money (ar_line i lid inv_id sd st) = cb_disputed_amount i" "side (ar_line i lid inv_id sd st) = sd"
  "account_class (ar_line i lid inv_id sd st) = Ar" "payer_tenant_id (ar_line i lid inv_id sd st) = cb_payer_tenant_id i"
  "functional_money (ar_line i lid inv_id sd st) = None" "ar_status (ar_line i lid inv_id sd st) = Some st"
  "invoice_id (ar_line i lid inv_id sd st) = Some inv_id"
  by (simp_all add: ar_line_def)

lemmas chargeback_line_defs =
  chargeback_lines_def opened_cash_hold_lines_def won_cash_hold_lines_def lost_cash_hold_lines_def
  opened_ar_reclass_lines_def won_ar_reclass_lines_def lost_ar_reclass_lines_def ar_reclass_lines_def require_invoice_id_def

lemma held_cash_value:
  assumes "decimal_contract D"
  shows "mval (held_cash D i supplied) = min (mval supplied) (mval (cb_disputed_amount i))"
  by (simp add: held_cash_def contract_compare [OF assms] min_def)

lemma held_cash_cases: "held_cash D i supplied \<in> {supplied, cb_disputed_amount i}"
  by (simp add: held_cash_def)

lemma build_chargeback_Inr:
  assumes D: "decimal_contract D"
  shows "build_chargeback_entry D fresh i supplied = Inr e \<longleftrightarrow>
    currency supplied = currency (cb_disputed_amount i) \<and> 0 < mval (cb_disputed_amount i) \<and>
    (cb_variant i = CashHold \<longrightarrow> 0 < mval supplied) \<and>
    (\<exists>ls. chargeback_lines i fresh (held_cash D i supplied) = Inr ls \<and>
       e = payment_entry (fresh 2) (cb_tenant_id i) (code (currency (cb_disputed_amount i))) Chargeback
             (business_id i) (cb_effective_at i) ls)"
  using held_cash_value [OF D, of i supplied]
  by (auto simp: build_chargeback_entry_def contract_compare [OF D] not_less not_le Let_def split: if_splits)

definition chargeback_ok :: "chargeback_input \<times> posted_money \<Rightarrow> bool" where
  "chargeback_ok p \<longleftrightarrow> posting_ok (cb_disputed_amount (fst p)) \<and> posting_ok (snd p)"

lemma chargeback_lines_plain:
  assumes run: "chargeback_lines i fresh held = Inr ls" and cur: "currency held = currency (cb_disputed_amount i)"
    and pos: "0 < mval (cb_disputed_amount i)" "cb_variant i = CashHold \<longrightarrow> 0 < mval held"
  shows "length ls = 2" "lines_net ls = 0" "\<forall>l\<in>set ls. plain_line (currency (cb_disputed_amount i)) (cb_payer_tenant_id i) l"
  using assms by (auto simp: chargeback_line_defs plain_line_def split: dispute_phase.splits dispute_variant.splits)

interpretation chargeback_entries:
  entry_builder "\<lambda>D fresh p. build_chargeback_entry D fresh (fst p) (snd p)" chargeback_ok
proof unfold_locales
  fix D :: decimal_ops and p fresh e
  assume D: "decimal_contract D" and e: "build_chargeback_entry D fresh (fst p) (snd p) = Inr e"
  let ?i = "fst p" and ?held = "held_cash D (fst p) (snd p)"
  from e obtain ls where v: "currency (snd p) = currency (cb_disputed_amount ?i)" "0 < mval (cb_disputed_amount ?i)"
      "cb_variant ?i = CashHold \<longrightarrow> 0 < mval (snd p)"
      and ls: "chargeback_lines ?i fresh ?held = Inr ls"
      and e: "e = payment_entry (fresh 2) (cb_tenant_id ?i) (code (currency (cb_disputed_amount ?i))) Chargeback
            (business_id ?i) (cb_effective_at ?i) ls"
    by (auto simp: build_chargeback_Inr [OF D])
  have "currency ?held = currency (cb_disputed_amount ?i)" using held_cash_cases [of D ?i "snd p"] v(1) by auto
  moreover have "cb_variant ?i = CashHold \<longrightarrow> 0 < mval ?held" using v by (simp add: held_cash_value [OF D])
  ultimately have P: "length ls = 2" "lines_net ls = 0"
      "\<forall>l\<in>set ls. plain_line (currency (cb_disputed_amount ?i)) (cb_payer_tenant_id ?i) l"
    using chargeback_lines_plain [OF ls _ v(2)] by blast+
  show "length (lines e) \<le> 2 ^ 64" using P by (simp add: e)
  have "ls \<noteq> []" using P(1) by auto
  then show "entry_balanced e" using P by (intro plain_entry_balanced) (auto simp: e)
qed

text \<open>The effect of each phase, by class.\<close>

definition hold_effect :: "dispute_phase \<Rightarrow> rat \<Rightarrow> account_class \<Rightarrow> rat" where
  "hold_effect p q cls =
     (case p of
        Opened \<Rightarrow> (if cls = DisputeHold then q else if cls = CashClearing then - q else 0)
      | Won \<Rightarrow> (if cls = CashClearing then q else if cls = DisputeHold then - q else 0)
      | Lost \<Rightarrow> (if cls = DisputeLossExpense then q else if cls = DisputeHold then - q else 0)
      | Partial \<Rightarrow> 0)"

lemma chargeback_hold_effect:
  assumes D: "decimal_contract D" and v: "cb_variant i = CashHold" and run: "build_chargeback_entry D fresh i supplied = Inr e"
  shows "class_net e cls = hold_effect (cb_phase i) (min (mval supplied) (mval (cb_disputed_amount i))) cls"
    "disputed_net e = 0"
  using run v held_cash_value [OF D, of i supplied]
  by (auto simp: build_chargeback_Inr [OF D] chargeback_line_defs class_net_def disputed_net_def hold_effect_def
      split: dispute_phase.splits)

lemma chargeback_reclass_effect:
  assumes D: "decimal_contract D" and v: "cb_variant i = ArReclass" and run: "build_chargeback_entry D fresh i supplied = Inr e"
  shows "class_net e Ar = (if cb_phase i = Lost then - mval (cb_disputed_amount i) else 0)"
    "disputed_net e = (if cb_phase i = Opened then mval (cb_disputed_amount i) else - mval (cb_disputed_amount i))"
    "class_net e CashClearing = 0" "class_net e DisputeHold = 0"
    "class_net e DisputeLossExpense = (if cb_phase i = Lost then mval (cb_disputed_amount i) else 0)"
  using run v
  by (auto simp: build_chargeback_Inr [OF D] chargeback_line_defs class_net_def disputed_net_def AR_STATUS_DISPUTED_def
      AR_STATUS_ACTIVE_def split: dispute_phase.splits)

lemma min_posted_Inr:
  assumes D: "decimal_contract D"
  shows "min_posted D a b = Inr m \<longleftrightarrow> currency a = currency b \<and> m = (if mval b < mval a then b else a)"
  by (auto simp: min_posted_def contract_compare [OF D])

lemma clawed_back_Inr:
  assumes D: "decimal_contract D" and run: "clawed_back_on_post D i supplied = Inr m"
  shows "mval m = (if cb_phase i = Lost \<and> cb_variant i = CashHold then min (mval supplied) (mval (cb_disputed_amount i)) else 0)"
  using run held_cash_value [OF D, of i supplied]
  by (auto simp: clawed_back_on_post_def Let_def zero_posted_Inr [OF D] represents_def split: if_splits)

end
