(* ===== verification/Dispute_Properties.thy ===== *)
theory Dispute_Properties
  imports Chargeback Payment_Properties
begin

text \<open>
  What allocation, the credit wallet, stored money, the dispute row and the chargeback entries promise
  (\<open>ledger/src/domain/payment\<close>, \<open>ledger/src/infra/storage\<close>).
\<close>

section \<open>Allocation\<close>

text \<open>A split computed by the caller is returned unchanged exactly when it names distinct open candidates, takes
  a positive share of at most the open balance from each and stays within the lump; otherwise it is
  refused as \<open>AllocationSplitInvalid\<close>.\<close>

theorem caller_split_spec:
  assumes "decimal_contract D" "length caller < 2 ^ 64"
    and "\<forall>c\<in>set cs. currency (cd_open c) = currency lump" "\<forall>a\<in>set caller. currency (al_amount a) = currency lump"
  shows "validate_caller_split D cs caller lump =
    (if distinct (map al_invoice_id caller) \<and> (\<forall>a\<in>set caller. split_fits cs a) \<and>
        (\<Sum>a\<leftarrow>caller. mval (al_amount a)) \<le> mval lump
     then Inr caller else Inl D_AllocationSplitInvalid)"
  using validate_caller_split_run [OF assms] by (simp add: caller_split_ok_def)

definition usd_share :: "string \<Rightarrow> int \<Rightarrow> allocated" where
  "usd_share i k = \<lparr>al_invoice_id = i, al_amount = usd_amount k\<rparr>"

lemma usd_share_simps [simp]: "al_invoice_id (usd_share i k) = i" "al_amount (usd_share i k) = usd_amount k"
  by (simp_all add: usd_share_def)

theorem caller_split_spec_witness:
  "validate_caller_split reference_decimal two_open [usd_share ''inv-1'' 99] (usd_amount 125) =
     Inr [usd_share ''inv-1'' 99] \<and>
   validate_caller_split reference_decimal two_open [usd_share ''inv-1'' 103] (usd_amount 125) =
     Inl D_AllocationSplitInvalid"
  using caller_split_spec [OF reference_decimal_contract, of "[usd_share ''inv-1'' 99]" two_open "usd_amount 125"]
    caller_split_spec [OF reference_decimal_contract, of "[usd_share ''inv-1'' 103]" two_open "usd_amount 125"]
  by (simp add: two_open_def split_fits_def dec_fits_numeric)

text \<open>C18: a split the precedence policy decides passes the check on a caller's split, and the entry built from it
  draws its total from the unallocated balance, pays each invoice its share and passes the
  balance check.\<close>

theorem decided_split_posts:
  assumes D: "decimal_contract D" and lump: "posting_ok lump" "0 \<le> mval lump" and len: "length cs < 2 ^ 64"
    and ids: "distinct (map cd_invoice_id cs)" and run: "select_split D cs lump hint p = Inr out"
    and i: "ai_splits i = out" "ai_currency i = currency lump" and e: "build_allocation_entry U D fresh i = Inr e"
  shows "validate_caller_split D cs out lump = Inr out \<and>
    validate_balanced_entry D (entry_currency e) (map line_facts_of (lines e)) = Inr () \<and>
    map account_class (lines e) = Unallocated # replicate (length out) Ar \<and>
    map invoice_id (lines e) = None # map (\<lambda>a. Some (al_invoice_id a)) out \<and>
    map (\<lambda>l. mval (money l)) (tl (lines e)) = map (\<lambda>a. mval (al_amount a)) out"
proof -
  note S = select_split_Inr [OF D lump(1) len run]
  have "length out \<le> length (map candidate_value (fill_order D cs hint p))"
    using S(2) spill_length by (metis length_map)
  then have len': "length out < 2 ^ 64" using len length_fill_order [OF D] by simp
  have ok: "allocation_ok i" using lump(1) len' i by (simp add: allocation_ok_def posting_ok_def)
  obtain t where t: "represents t (ai_currency i) (\<Sum>a\<leftarrow>ai_splits i. mval (al_amount a))" "e = allocation_entry U fresh i t"
    using e by (auto simp: build_allocation_Inr [OF D ok])
  have "map (\<lambda>l. mval (money l)) (split_lines i fresh 1 out) = map (\<lambda>a. mval (al_amount a)) out"
    using arg_cong [OF split_lines_facts(3) [of i fresh 1 out], of "map (\<lambda>m. mval m)"]
    by (simp only: list.map_comp o_def)
  moreover have "caller_split_ok cs out lump" by (rule select_split_is_caller_split [OF D lump len ids run])
  then have "validate_caller_split D cs out lump = Inr out"
    using validate_caller_split_run [OF D len', of cs lump] S by auto
  ultimately show ?thesis
    using allocation.engine_accepts [OF D ok e] by (simp add: t(2) allocation_entry_def i)
qed

definition usd_allocation :: "allocated list \<Rightarrow> allocation_input" where
  "usd_allocation out =
     \<lparr>ai_tenant_id = 1, ai_payer_tenant_id = 7, ai_payment_id = ''pay-1'', ai_allocation_id = 9, ai_currency = usd,
      ai_splits = out, ai_effective_at = None\<rparr>"

lemma two_open_values:
  assumes "select_split reference_decimal two_open (usd_amount 125) None OldestFirst = Inr out"
  shows "map allocated_value out = [(''inv-2'', 57 / 100), (''inv-1'', 17 / 25)]"
    "\<forall>a\<in>set out. posted_ok (al_amount a) \<and> currency (al_amount a) = usd"
  using select_split_Inr(2,3) [OF reference_decimal_contract two_open_facts(3,1) assms]
  by (simp_all add: two_open_order candidate_value_def dec_fits_numeric min_def)

theorem decided_split_posts_witness:
  "\<exists>out e. select_split reference_decimal two_open (usd_amount 125) None OldestFirst = Inr out \<and>
     build_allocation_entry show_nat reference_decimal id (usd_allocation out) = Inr e \<and>
     map invoice_id (lines e) = [None, Some ''inv-2'', Some ''inv-1'']"
proof -
  obtain out where o: "select_split reference_decimal two_open (usd_amount 125) None OldestFirst = Inr out"
    by (rule two_open_run)
  note V = two_open_values [OF o]
  have ids: "map al_invoice_id out = [''inv-2'', ''inv-1'']"
    using arg_cong [OF V(1), of "map fst"] by (simp add: allocated_value_def o_def)
  have q: "map (\<lambda>a. mval (al_amount a)) out = [57 / 100, 17 / 25]"
    using arg_cong [OF V(1), of "map snd"] by (simp add: allocated_value_def o_def)
  have ok: "allocation_ok (usd_allocation out)"
    using arg_cong [OF ids, of length] by (simp add: allocation_ok_def usd_allocation_def)
  have "0 < mval (al_amount a)" if "a \<in> set out" for a
  proof -
    have "mval (al_amount a) \<in> set (map (\<lambda>a. mval (al_amount a)) out)" using that by simp
    then show ?thesis unfolding q by auto
  qed
  then have "splits_ok (usd_allocation out)"
    using V(2) ids by (auto simp: splits_ok_def usd_allocation_def)
  moreover have "represents (usd_amount 125) usd (\<Sum>a\<leftarrow>out. mval (al_amount a))"
    unfolding q by (rule usd_represents) simp_all
  ultimately obtain e where e: "build_allocation_entry show_nat reference_decimal id (usd_allocation out) = Inr e"
    using build_allocation_Inr [OF reference_decimal_contract ok, of show_nat id] by (auto simp: usd_allocation_def)
  have "map invoice_id (lines e) = None # map (\<lambda>a. Some (al_invoice_id a)) out"
    using decided_split_posts [OF reference_decimal_contract two_open_facts(3) _ two_open_facts(1,2) o _ _ e]
    by (simp add: usd_allocation_def dec_fits_numeric)
  also have "\<dots> = None # map Some (map al_invoice_id out)" by simp
  finally show ?thesis using o e ids by auto
qed

section \<open>The credit wallet\<close>

text \<open>The plan of a wallet spend is refused as \<open>InvalidRequest\<close> for a non-positive amount and as
  \<open>CreditExceedsWallet\<close> when the sub-grains do not cover it; otherwise it exists, draws exactly the
  amount, and empties each sub-grain in the given order before the next one is touched.\<close>

theorem wallet_plan_spec:
  assumes D: "decimal_contract D" and m: "posting_ok m" and len: "length sgs + 1 < 2 ^ 64"
    and sgs: "\<forall>sg\<in>set sgs. posted_ok (sg_available sg) \<and> currency (sg_available sg) = currency m"
    and small: "mval m * 10 ^ cur_scale (currency m) < 10 ^ 28"
  shows "if mval m \<le> 0 then plan_wallet_debit D sgs m = Inl D_InvalidRequest
    else if capacity_of sgs < mval m then plan_wallet_debit D sgs m = Inl D_CreditExceedsWallet
    else \<exists>ds. plan_wallet_debit D sgs m = Inr ds \<and> (\<Sum>d\<leftarrow>ds. mval (db_amount d)) = mval m \<and>
      map debit_value ds = spill (mval m) (map subgrain_value sgs)"
proof (cases "mval m \<le> 0 \<or> capacity_of sgs < mval m")
  case True
  then show ?thesis using sgs by (auto simp: plan_wallet_debit_run [OF D len])
next
  case False
  have s: "cur_scale (currency m) \<le> 28" and p: "posted_ok m" using m by (simp_all add: posting_ok_def)
  obtain R where R: "mval m * 10 ^ cur_scale (currency m) = of_int R" using posted_units [OF p] .
  have "of_int R < (of_int (10 ^ 28) :: rat)" using small R by simp
  then have R28: "R < 10 ^ 28" by (simp only: of_int_less_iff)
  have k: "1 + length (map subgrain_candidate sgs) \<le> 2 ^ 64" using len by simp
  have "\<exists>out. fill_loop D (currency m) (map subgrain_candidate sgs) (amount_of (mval m)) = Inr out"
    by (rule fill_loop_total [OF D s dec_grid_dval k R R28]) (use sgs in auto)
  then obtain ds where ds: "plan_wallet_debit D sgs m = Inr ds"
    using False sgs by (auto simp: plan_wallet_debit_run [OF D len])
  from plan_wallet_debit_Inr(4,6) [OF D m len ds] False ds show ?thesis by auto
qed

definition usd_grain :: "string \<Rightarrow> int \<Rightarrow> credit_subgrain" where
  "usd_grain ev k = \<lparr>sg_event_type = ev, sg_available = usd_amount k\<rparr>"

lemma usd_grain_simps [simp]: "sg_event_type (usd_grain ev k) = ev" "sg_available (usd_grain ev k) = usd_amount k"
  by (simp_all add: usd_grain_def)

theorem wallet_plan_spec_witness:
  "plan_wallet_debit reference_decimal [usd_grain ''promo'' 57] (usd_amount 125) = Inl D_CreditExceedsWallet \<and>
   (\<exists>ds. plan_wallet_debit reference_decimal [usd_grain ''promo'' 57, usd_grain ''goodwill'' 101] (usd_amount 125) = Inr ds \<and>
     map debit_value ds = [(''promo'', 57 / 100), (''goodwill'', 17 / 25)])"
  using wallet_plan_spec [OF reference_decimal_contract, of "usd_amount 125" "[usd_grain ''promo'' 57]"]
    wallet_plan_spec [OF reference_decimal_contract, of "usd_amount 125" "[usd_grain ''promo'' 57, usd_grain ''goodwill'' 101]"]
  by (auto simp: usd_posting_ok usd_amount_ok capacity_of_def subgrain_value_def dec_fits_numeric min_def)

text \<open>C26: a spend planned for the total of validated targets always builds, its debits name wallet buckets and its
  credits receivables (a line names a bucket exactly when it is a wallet line), and the entry
  passes the balance check.\<close>

theorem credit_spend_posts:
  assumes D: "decimal_contract D" and m: "posting_ok m" and len: "length sgs + 1 < 2 ^ 63" "length ts \<le> 2 ^ 63"
    and ts: "validate_credit_targets D cs ts = Inr out" "sum_posted D (map al_amount ts) (currency m) = Inr m"
    and plan: "plan_wallet_debit D sgs m = Inr ds"
    and i: "ap_currency i = currency m" "ap_debits i = ds" "ap_targets i = ts"
  shows "\<exists>e. build_apply_entry D fresh i = Inr e \<and> (\<forall>l\<in>set (lines e). event_type_rule l) \<and>
    validate_balanced_entry D (entry_currency e) (map line_facts_of (lines e)) = Inr ()"
proof -
  note P = plan_then_apply [OF D m len ts plan i]
  then obtain e where e: "build_apply_entry D fresh i = Inr e" by blast
  then have "lines e = apply_lines fresh i" by (auto simp: build_apply_Inr [OF D P(1)])
  then show ?thesis using e credit_apply.engine_accepts [OF D P(1) e] apply_event_types by auto
qed

definition usd_apply :: "credit_debit list \<Rightarrow> apply_input" where
  "usd_apply ds =
     \<lparr>ap_tenant_id = 1, ap_payer_tenant_id = 7, ap_credit_application_id = ''app-1'', ap_currency = usd,
      ap_debits = ds, ap_targets = [usd_share ''inv-1'' 57], ap_effective_at = None\<rparr>"

theorem credit_spend_posts_witness:
  "\<exists>ds e. plan_wallet_debit reference_decimal [usd_grain ''promo'' 101] (usd_amount 57) = Inr ds \<and>
     build_apply_entry reference_decimal id (usd_apply ds) = Inr e"
proof -
  obtain ds where ds: "plan_wallet_debit reference_decimal [usd_grain ''promo'' 101] (usd_amount 57) = Inr ds"
  proof -
    have "\<exists>out. fill_loop reference_decimal usd (map subgrain_candidate [usd_grain ''promo'' 101]) (amount_of (57 / 100)) = Inr out"
      using fill_loop_total [OF reference_decimal_contract, of usd 1 "57 / 100" "map subgrain_candidate [usd_grain ''promo'' 101]" 57]
        dec_grid_dval [of "Decimal 57 2"] by (simp add: dec_fits_numeric usd_amount_ok)
    then show thesis
      using that by (auto simp: plan_wallet_debit_run [OF reference_decimal_contract] capacity_of_def dec_fits_numeric)
  qed
  have "validate_credit_targets reference_decimal two_open [usd_share ''inv-1'' 57] = Inr [usd_share ''inv-1'' 57]"
    by (subst validate_credit_targets_run [OF reference_decimal_contract, of _ usd])
      (simp_all add: two_open_def split_fits_def dec_fits_numeric)
  moreover have "sum_posted reference_decimal (map al_amount [usd_share ''inv-1'' 57]) (currency (usd_amount 57)) = Inr (usd_amount 57)"
    by (simp add: sum_posted_Inr [OF reference_decimal_contract] usd_represents dec_fits_numeric)
  ultimately show ?thesis
    using credit_spend_posts [OF reference_decimal_contract usd_posting_ok [of 57], of "[usd_grain ''promo'' 101]"
        "[usd_share ''inv-1'' 57]" two_open "[usd_share ''inv-1'' 57]" ds "usd_apply ds" id] ds
    by (auto simp: usd_apply_def)
qed

section \<open>Stored money\<close>

text \<open>C34: a money column and its currency columns decode exactly when they are the encoding of a validated amount,
  and then to that amount; anything else is \<open>InvalidStoredMoney\<close>.\<close>

theorem stored_money_roundtrip:
  assumes "decimal_contract D" "text_contract D"
  shows "(decode_money D t c s = Inr m \<longleftrightarrow> posted_ok m \<and> spec_ok (currency m) \<and> encode_amount D m = t \<and>
      code (currency m) = c \<and> int (cur_scale (currency m)) = s) \<and>
    (\<forall>e. decode_money D t c s = Inl e \<longrightarrow> e = R_InvalidStoredMoney)"
  using decode_money_Inr [OF assms] decode_money_Inl by blast

lemma usd_spec_ok: "spec_ok usd"
  by (simp add: spec_ok_def is_ascii_uppercase_def)

theorem stored_money_roundtrip_witness:
  "decode_money reference_decimal (encode_amount reference_decimal (usd_amount 125)) ''USD'' 2 = Inr (usd_amount 125)"
  using stored_money_roundtrip [OF reference_decimal_ok, of "encode_amount reference_decimal (usd_amount 125)" "''USD''" 2
      "usd_amount 125"] by (simp add: usd_amount_ok usd_spec_ok)

section \<open>Disputes\<close>

text \<open>C11: writes to a dispute row are serializable.  Whatever past state of the row a transaction has read, its
  write commits only when that is still the state of the row, so every interleaving of openings and
  outcomes has the effect of a serial one, and a second outcome for the same cycle never commits.\<close>

theorem dispute_no_stale_write:
  assumes h: "row_history request_ok (dispute_attempt D tenant dispute_id) (cur # h)"
    and seen: "seen \<in> set (cur # h)" and run: "dispute_attempt D tenant dispute_id q seen cur = Inr r"
  shows "seen = cur \<and> serial_history request_ok (dispute_attempt D tenant dispute_id) (cur # h)"
  using dispute_rows.no_stale_write [OF h seen run] dispute_rows.histories_serial [OF h] by blast

definition usd_opened :: dispute_state where
  "usd_opened = opened_state 1 ''dsp-1'' ''pay-1'' CashHold 1 (usd_amount 125) (usd_amount 122) 0"

definition usd_opening :: dispute_request where
  "usd_opening = OpenDispute ''pay-1'' CashHold 1 (usd_amount 125) (usd_amount 122)"

lemma usd_opening_commits:
  "dispute_attempt reference_decimal 1 ''dsp-1'' usd_opening None None = Inr (encode_dispute reference_decimal usd_opened)"
  unfolding usd_opening_def usd_opened_def open_first [OF reference_decimal_contract] by (simp add: dec_fits_numeric)

lemma usd_opening_history:
  "row_history request_ok (dispute_attempt reference_decimal 1 ''dsp-1'')
     [Some (encode_dispute reference_decimal usd_opened), None]"
proof (rule row_history.committed [OF row_history.start, of None])
  show "dispute_attempt reference_decimal 1 ''dsp-1'' usd_opening None None = Inr (encode_dispute reference_decimal usd_opened)"
    by (rule usd_opening_commits)
qed (simp_all add: usd_opening_def usd_amount_ok usd_spec_ok)

lemma usd_opened_inv: "dispute_inv 1 ''dsp-1'' usd_opened"
  by (simp add: dispute_inv_def state_ok_def usd_opened_def opened_state_def usd_amount_ok usd_spec_ok dec_fits_numeric)

definition usd_resolved :: "dispute_phase \<Rightarrow> dispute_state" where
  "usd_resolved p = usd_opened\<lparr>ds_last_phase := p, ds_disputed_amount := usd_amount 125, ds_version := 1\<rparr>"

lemma usd_outcome_commits:
  assumes "p \<noteq> Opened"
  shows "dispute_attempt reference_decimal 1 ''dsp-1'' (AdvanceDispute p 1 (usd_amount 125))
    (Some (encode_dispute reference_decimal usd_opened)) (Some (encode_dispute reference_decimal usd_opened)) =
    Inr (encode_dispute reference_decimal (usd_resolved p))"
  unfolding advance_open [OF reference_decimal_ok usd_opened_inv] using assms
  by (simp add: usd_resolved_def usd_opened_def opened_state_def i64_checked_add_def dec_fits_numeric)

theorem dispute_no_stale_write_witness:
  "serial_history request_ok (dispute_attempt reference_decimal 1 ''dsp-1'')
     [Some (encode_dispute reference_decimal usd_opened), None]"
  using dispute_no_stale_write [OF usd_opening_history _ usd_outcome_commits [of Won]] by simp

text \<open>C19: every row a history leaves decodes to a valid dispute with the identity it was opened with: the hold is
  between zero and the disputed amount in one currency, the cycle starts at 1, and the version counts
  two writes per cycle, so openings and outcomes alternate.\<close>

theorem dispute_row_invariant:
  assumes D: "decimal_contract D" and T: "text_contract D"
    and h: "row_history request_ok (dispute_attempt D tenant dispute_id) h" and row: "Some row \<in> set h"
  shows "\<exists>st. decode_dispute D row = Inr st \<and> ds_tenant_id st = tenant \<and> ds_dispute_id st = dispute_id \<and>
    currency (ds_cash_hold st) = currency (ds_disputed_amount st) \<and>
    0 \<le> mval (ds_cash_hold st) \<and> mval (ds_cash_hold st) \<le> mval (ds_disputed_amount st) \<and> 1 \<le> ds_cycle st \<and>
    ds_version st = 2 * ds_cycle st - (if ds_last_phase st = Opened then 2 else 1)"
proof -
  obtain st where "row = encode_dispute D st" "dispute_inv tenant dispute_id st"
    using dispute_history_inv [OF D T h row] by blast
  then show ?thesis
    using decode_dispute_encode [OF D T, of st] by (intro exI [of _ st]) (simp add: dispute_inv_def state_ok_def)
qed

theorem dispute_row_invariant_witness:
  "\<exists>st. decode_dispute reference_decimal (encode_dispute reference_decimal usd_opened) = Inr st \<and>
     ds_version st = 2 * ds_cycle st - (if ds_last_phase st = Opened then 2 else 1)"
  using dispute_row_invariant [OF reference_decimal_ok usd_opening_history, of "encode_dispute reference_decimal usd_opened"]
  by auto

text \<open>C20: the cash an opening parks is the cash its outcome gives back.  The opening of a cash hold moves the hold
  it records from clearing; whatever outcome the row then accepts moves exactly that hold out again, to
  clearing when won and to loss when lost, where it is also the amount counted as clawed back.\<close>

theorem dispute_hold_returns:
  assumes D: "decimal_contract D" and T: "text_contract D"
    and op: "cb_phase i = Opened" "cb_variant i = CashHold" "supplied_net D i None (Inr net) = Inr net"
      "min_posted D net (cb_disputed_amount i) = Inr hold" "build_chargeback_entry D fresh i net = Inr e"
    and row: "dispute_inv tenant dispute_id st" "ds_cash_hold st = hold"
      "dispute_attempt D tenant dispute_id (AdvanceDispute (cb_phase i') (cb_cycle i') (cb_disputed_amount i'))
         (Some (encode_dispute D st)) (Some (encode_dispute D st)) = Inr row'"
    and outcome: "cb_phase i' \<in> {Won, Lost}" "cb_variant i' = CashHold"
      "supplied_net D i' (Some st) read_net = Inr net'" "build_chargeback_entry D fresh' i' net' = Inr e'"
      "clawed_back_on_post D i' net' = Inr claw"
  shows "class_net e DisputeHold = mval hold \<and> class_net e' DisputeHold = - mval hold \<and>
    class_net e CashClearing + class_net e' CashClearing = (if cb_phase i' = Won then 0 else - mval hold) \<and>
    class_net e' DisputeLossExpense = (if cb_phase i' = Lost then mval hold else 0) \<and>
    mval claw = (if cb_phase i' = Lost then mval hold else 0)"
proof -
  have hold: "mval hold = min (mval net) (mval (cb_disputed_amount i))"
    using op(4) by (auto simp: min_posted_Inr [OF D] min_def)
  have net': "net' = hold"
    using outcome(1-3) row(2) by (auto simp: supplied_net_def split: dispute_phase.splits)
  have le: "mval hold \<le> mval (cb_disputed_amount i')"
    using row(3) unfolding advance_open [OF D T row(1)] row(2) by simp
  then have m: "min (mval net') (mval (cb_disputed_amount i')) = mval hold" by (simp add: net')
  show ?thesis
    using chargeback_hold_effect(1) [OF D op(2,5)] chargeback_hold_effect(1) [OF D outcome(2,4)]
      clawed_back_Inr [OF D outcome(5)] outcome(1,2) op(1) unfolding m hold [symmetric]
    by (auto simp: hold_effect_def)
qed

definition usd_chargeback :: "dispute_phase \<Rightarrow> chargeback_input" where
  "usd_chargeback p =
     \<lparr>cb_tenant_id = 1, cb_payer_tenant_id = 7, cb_payment_id = ''pay-1'', cb_dispute_id = ''dsp-1'', cb_cycle = 1,
      cb_phase = p, cb_variant = CashHold, cb_disputed_amount = usd_amount 125, cb_invoice_id = None,
      cb_effective_at = None\<rparr>"

lemma usd_chargeback_simps [simp]:
  "cb_phase (usd_chargeback p) = p" "cb_variant (usd_chargeback p) = CashHold" "cb_cycle (usd_chargeback p) = 1"
  "cb_disputed_amount (usd_chargeback p) = usd_amount 125"
  by (simp_all add: usd_chargeback_def)

lemma usd_chargeback_built:
  assumes "p \<noteq> Partial"
  shows "\<exists>e. build_chargeback_entry reference_decimal id (usd_chargeback p) (usd_amount 122) = Inr e"
  using assms by (cases p) (auto simp: build_chargeback_Inr [OF reference_decimal_contract] chargeback_line_defs dec_fits_numeric)

theorem dispute_hold_returns_witness:
  "\<exists>e e'. build_chargeback_entry reference_decimal id (usd_chargeback Opened) (usd_amount 122) = Inr e \<and>
     build_chargeback_entry reference_decimal id (usd_chargeback Won) (usd_amount 122) = Inr e' \<and>
     class_net e CashClearing + class_net e' CashClearing = 0"
proof -
  obtain e e' where e: "build_chargeback_entry reference_decimal id (usd_chargeback Opened) (usd_amount 122) = Inr e"
      and e': "build_chargeback_entry reference_decimal id (usd_chargeback Won) (usd_amount 122) = Inr e'"
    using usd_chargeback_built [of Opened] usd_chargeback_built [of Won] by auto
  have net: "supplied_net reference_decimal (usd_chargeback Opened) None (Inr (usd_amount 122)) = Inr (usd_amount 122)"
    and net': "supplied_net reference_decimal (usd_chargeback Won) (Some usd_opened) (Inr (usd_amount 122)) = Inr (usd_amount 122)"
    and hold: "min_posted reference_decimal (usd_amount 122) (cb_disputed_amount (usd_chargeback Opened)) = Inr (usd_amount 122)"
    and row: "ds_cash_hold usd_opened = usd_amount 122"
    by (simp_all add: supplied_net_def usd_opened_def opened_state_def min_posted_Inr [OF reference_decimal_contract] dec_fits_numeric)
  obtain claw where claw: "clawed_back_on_post reference_decimal (usd_chargeback Won) (usd_amount 122) = Inr claw"
    using zero_posted_total [OF reference_decimal_contract, of "usd_amount 125"]
    by (auto simp: clawed_back_on_post_def)
  have "dispute_attempt reference_decimal 1 ''dsp-1''
      (AdvanceDispute (cb_phase (usd_chargeback Won)) (cb_cycle (usd_chargeback Won)) (cb_disputed_amount (usd_chargeback Won)))
      (Some (encode_dispute reference_decimal usd_opened)) (Some (encode_dispute reference_decimal usd_opened)) =
      Inr (encode_dispute reference_decimal (usd_resolved Won))"
    using usd_outcome_commits [of Won] by (simp del: dispute_attempt.simps)
  from dispute_hold_returns [OF reference_decimal_ok _ _ net hold e usd_opened_inv row this _ _ net' e' claw] e e'
  show ?thesis by (auto simp: dec_fits_numeric)
qed

text \<open>The entry of every dispute phase passes the balance check; a reclass leaves cash and the hold alone, moves the
  disputed part of the receivable by the disputed amount, and reduces the receivable itself only when
  the dispute is lost.\<close>

theorem chargeback_entry_effect:
  assumes D: "decimal_contract D" and ok: "posting_ok (cb_disputed_amount i)" "posting_ok supplied"
    and e: "build_chargeback_entry D fresh i supplied = Inr e"
  shows "validate_balanced_entry D (entry_currency e) (map line_facts_of (lines e)) = Inr () \<and>
    (cb_variant i = ArReclass \<longrightarrow>
       class_net e CashClearing = 0 \<and> class_net e DisputeHold = 0 \<and>
       disputed_net e = (if cb_phase i = Opened then mval (cb_disputed_amount i) else - mval (cb_disputed_amount i)) \<and>
       class_net e Ar = (if cb_phase i = Lost then - mval (cb_disputed_amount i) else 0))"
proof -
  have "chargeback_ok (i, supplied)" using ok by (simp add: chargeback_ok_def)
  from chargeback_entries.engine_accepts [OF D this] e
  have "validate_balanced_entry D (entry_currency e) (map line_facts_of (lines e)) = Inr ()" by simp
  then show ?thesis using chargeback_reclass_effect [OF D _ e] by auto
qed

theorem chargeback_entry_effect_witness:
  "\<exists>e. build_chargeback_entry reference_decimal id (usd_chargeback Lost) (usd_amount 122) = Inr e \<and>
     validate_balanced_entry reference_decimal (entry_currency e) (map line_facts_of (lines e)) = Inr ()"
proof -
  obtain e where e: "build_chargeback_entry reference_decimal id (usd_chargeback Lost) (usd_amount 122) = Inr e"
    using usd_chargeback_built [of Lost] by auto
  from chargeback_entry_effect [OF reference_decimal_contract _ _ e] e show ?thesis by (simp add: usd_posting_ok)
qed

end
