(* ===== verification/Period.thy ===== *)
theory Period
  imports Digits Ledger_Types
begin

text \<open>
  \<open>ledger/src/domain/period.rs\<close>: arithmetic on \<open>YYYYMM\<close> period ids.  \<open>str::parse\<close> accepts a leading
  sign, so the functions also accept texts such as \<open>2026+1\<close>.  The calendar of the \<open>time\<close> crate
  (\<open>try_utc_ymd_hms\<close>) is the parameter \<open>civil\<close>.
\<close>

text \<open>The check every function starts with.\<close>

definition period_parts :: "string \<Rightarrow> (int \<times> nat) option" where
  "period_parts p =
     (if length p \<noteq> 6 then None
      else case parse_int (take 4 p) of
          None \<Rightarrow> None
        | Some year \<Rightarrow>
            (case parse_nat (drop 4 p) of
               None \<Rightarrow> None
             | Some month \<Rightarrow> if 1 \<le> month \<and> month \<le> 12 then Some (year, month) else None))"

definition period_text :: "int \<Rightarrow> int \<Rightarrow> string" where
  "period_text year month = pad_zero 4 year @ pad_zero 2 month"

definition next_period_id :: "string \<Rightarrow> string option" where
  "next_period_id p =
     (case period_parts p of
        None \<Rightarrow> None
      | Some (year, month) \<Rightarrow>
          (let (next_year, next_month) = (if month = 12 then (year + 1, 1) else (year, month + 1))
           in Some (period_text next_year (int next_month))))"

definition period_id_plus :: "string \<Rightarrow> nat \<Rightarrow> string option" where
  "period_id_plus p k =
     (case period_parts p of
        None \<Rightarrow> None
      | Some (year, month) \<Rightarrow>
          (let t = year * 12 + (int month - 1) + int k
           in Some (period_text (t div 12) (t mod 12 + 1))))"

definition previous_period_id :: "string \<Rightarrow> string option" where
  "previous_period_id p =
     (case period_parts p of
        None \<Rightarrow> None
      | Some (year, month) \<Rightarrow>
          (let (prev_year, prev_month) = (if month = 1 then (year - 1, 12) else (year, month - 1))
           in Some (period_text prev_year (int prev_month))))"

definition period_start_utc ::
  "(int \<Rightarrow> nat \<Rightarrow> offset_date_time option) \<Rightarrow> string \<Rightarrow> offset_date_time option" where
  "period_start_utc civil p =
     (case period_parts p of None \<Rightarrow> None | Some (year, month) \<Rightarrow> civil year month)"

definition period_end_utc ::
  "(int \<Rightarrow> nat \<Rightarrow> offset_date_time option) \<Rightarrow> string \<Rightarrow> offset_date_time option" where
  "period_end_utc civil p = (case next_period_id p of None \<Rightarrow> None | Some n \<Rightarrow> period_start_utc civil n)"

section \<open>Months on a line\<close>

text \<open>A period as a month count; \<open>month_text\<close> is its six-digit id for the years 0 to 9999.\<close>

definition month_index :: "string \<Rightarrow> int option" where
  "month_index p = map_option (\<lambda>(y, m). y * 12 + (int m - 1)) (period_parts p)"

definition month_text :: "int \<Rightarrow> string" where
  "month_text t = period_text (t div 12) (t mod 12 + 1)"

definition calendar :: "int \<Rightarrow> bool" where
  "calendar t \<longleftrightarrow> 0 \<le> t \<and> t < 120000"

lemma month_text_parts:
  assumes "calendar t"
  shows "length (month_text t) = 6" "list_all is_ascii_digit (month_text t)"
    "period_parts (month_text t) = Some (t div 12, nat (t mod 12 + 1))"
    "digits_val (month_text t) = nat (t div 12) * 100 + nat (t mod 12 + 1)"
proof -
  have "0 \<le> t div 12" "t div 12 < 10000" using assms unfolding calendar_def by presburger+
  then have y: "t div 12 = int (nat (t div 12))" "nat (t div 12) < 10 ^ 4" by (simp_all add: nat_less_iff)
  have m: "t mod 12 + 1 = int (nat (t mod 12 + 1))" "nat (t mod 12 + 1) < 10 ^ 2" "1 \<le> nat (t mod 12 + 1)" "nat (t mod 12 + 1) \<le> 12"
    using pos_mod_bound [of 12 t] pos_mod_sign [of 12 t] by (auto simp: nat_less_iff)
  note Y = pad_zero_facts [OF y(2), folded y(1)] and M = pad_zero_facts [OF m(2), folded m(1)]
  let ?Y = "pad_zero 4 (t div 12)" and ?M = "pad_zero 2 (t mod 12 + 1)"
  show "length (month_text t) = 6" "list_all is_ascii_digit (month_text t)"
      "digits_val (month_text t) = nat (t div 12) * 100 + nat (t mod 12 + 1)"
    using Y M by (simp_all add: month_text_def period_text_def digits_val_append)
  have "take 4 (?Y @ ?M) = ?Y" "drop 4 (?Y @ ?M) = ?M" using Y(1) by simp_all
  moreover have "?Y \<noteq> []" "?M \<noteq> []" using Y(1) M(1) by auto
  ultimately show "period_parts (month_text t) = Some (t div 12, nat (t mod 12 + 1))"
    using Y M m y(1) by (simp add: period_parts_def month_text_def period_text_def parse_int_digits parse_nat_digits)
qed

lemma month_index_text: "calendar t \<Longrightarrow> month_index (month_text t) = Some t"
  using pos_mod_sign [of 12 t] by (simp add: month_index_def month_text_parts)

lemma period_id_plus_text: "month_index p = Some t \<Longrightarrow> period_id_plus p k = Some (month_text (t + int k))"
  by (auto simp: month_index_def period_id_plus_def month_text_def Let_def)

lemma period_id_plus_None: "period_id_plus p k = None \<longleftrightarrow> month_index p = None"
  by (auto simp: month_index_def period_id_plus_def Let_def split: option.splits)

lemma period_parts_month: "period_parts p = Some (y, m) \<Longrightarrow> 1 \<le> m \<and> m \<le> 12"
  by (auto simp: period_parts_def split: option.splits if_splits)

lemma next_period_text:
  assumes "month_index p = Some t"
  shows "next_period_id p = Some (month_text (t + 1))"
proof -
  obtain y m where p: "period_parts p = Some (y, m)" and t: "t = y * 12 + (int m - 1)"
    using assms by (auto simp: month_index_def)
  have m: "1 \<le> m" "m \<le> 12" using period_parts_month [OF p] by auto
  show ?thesis
  proof (cases "m = 12")
    case True
    then show ?thesis using p t by (simp add: next_period_id_def month_text_def add.commute)
  next
    case False
    then have "(y * 12 + int m) div 12 = y" "(y * 12 + int m) mod 12 = int m"
      using m div_pos_pos_trivial [of "int m" 12] mod_pos_pos_trivial [of "int m" 12] by simp_all
    then show ?thesis using p t False by (simp add: next_period_id_def month_text_def add.commute)
  qed
qed

lemma previous_period_text:
  assumes "month_index p = Some t"
  shows "previous_period_id p = Some (month_text (t - 1))"
proof -
  obtain y m where p: "period_parts p = Some (y, m)" and t: "t = y * 12 + (int m - 1)"
    using assms by (auto simp: month_index_def)
  have m: "1 \<le> m" "m \<le> 12" using period_parts_month [OF p] by auto
  show ?thesis
  proof (cases "m = 1")
    case True
    then have "(t - 1) div 12 = y - 1" "(t - 1) mod 12 = 11"
      using t by (presburger, presburger)
    then show ?thesis using p True by (simp add: previous_period_id_def month_text_def)
  next
    case False
    define k where "k = int m - 2"
    have e: "t - 1 = k + y * 12" and k: "0 \<le> k" "k < 12" using t m False by (auto simp: k_def)
    have "(t - 1) div 12 = y" "(t - 1) mod 12 = int m - 2"
      unfolding e using k div_pos_pos_trivial [OF k] by (simp_all add: k_def)
    then show ?thesis using p False m by (simp add: previous_period_id_def month_text_def of_nat_diff)
  qed
qed

text \<open>Period ids sort as the months they name.\<close>

lemma digit_order:
  assumes "is_ascii_digit c" "is_ascii_digit d"
  shows "c < d \<longleftrightarrow> digit_val c < digit_val d" "c = d \<longleftrightarrow> digit_val c = digit_val d"
proof -
  show "c < d \<longleftrightarrow> digit_val c < digit_val d"
    using assms by (auto simp: less_char_def digit_val_def is_ascii_digit_def)
  show "c = d \<longleftrightarrow> digit_val c = digit_val d" using assms digit_char_val by metis
qed

lemma leading_digit_less:
  assumes "(a :: nat) < b" "x < 10 ^ n"
  shows "a * 10 ^ n + x < b * 10 ^ n + y"
proof -
  have "(a + 1) * 10 ^ n \<le> b * 10 ^ n" using assms(1) by (intro mult_right_mono) simp_all
  then show ?thesis using assms(2) by (simp add: algebra_simps)
qed

lemma digit_string_less:
  assumes "length s = length t" "list_all is_ascii_digit s" "list_all is_ascii_digit t"
  shows "s < t \<longleftrightarrow> digits_val s < digits_val t"
  using assms
proof (induction s t rule: list_induct2)
  case (Cons c s d t)
  have b: "digits_val s < 10 ^ length t" "digits_val t < 10 ^ length t"
    using digits_val_less [of s] digits_val_less [of t] Cons by simp_all
  have o: "c < d \<longleftrightarrow> digit_val c < digit_val d" "c = d \<longleftrightarrow> digit_val c = digit_val d"
    using Cons.prems digit_order [of c d] by simp_all
  have e: "digits_val (c # s) = digit_val c * 10 ^ length t + digits_val s"
      "digits_val (d # t) = digit_val d * 10 ^ length t + digits_val t"
    using Cons.hyps by (simp_all add: digits_val_Cons)
  consider "digit_val c < digit_val d" | "digit_val c = digit_val d" | "digit_val d < digit_val c" by linarith
  then show ?case
  proof cases
    case 1
    then show ?thesis using o leading_digit_less [OF 1 b(1), of "digits_val t"] by (simp add: e)
  next
    case 2
    then show ?thesis unfolding e using o Cons by simp
  next
    case 3
    then show ?thesis using o leading_digit_less [OF 3 b(2), of "digits_val s"] by (auto simp: e)
  qed
qed simp

lemma year_month_order:
  fixes a b c d :: int
  assumes "0 \<le> b" "b < 12" "0 \<le> d" "d < 12"
  shows "a * 100 + b < c * 100 + d \<longleftrightarrow> 12 * a + b < 12 * c + d"
proof -
  consider "a + 1 \<le> c" | "a = c" | "c + 1 \<le> a" by linarith
  then show ?thesis using assms by cases auto
qed

lemma month_text_less:
  assumes "calendar s" "calendar t"
  shows "month_text s < month_text t \<longleftrightarrow> s < t"
proof -
  note S = month_text_parts [OF assms(1)] and T = month_text_parts [OF assms(2)]
  have "month_text s < month_text t \<longleftrightarrow>
      nat (s div 12) * 100 + nat (s mod 12 + 1) < nat (t div 12) * 100 + nat (t mod 12 + 1)"
    using digit_string_less [of "month_text s" "month_text t"] S T by simp
  also have "\<dots> \<longleftrightarrow> (s div 12) * 100 + s mod 12 < (t div 12) * 100 + t mod 12"
  proof -
    have "nat (r div 12) * 100 + nat (r mod 12 + 1) = nat ((r div 12) * 100 + (r mod 12 + 1))" if "calendar r" for r
      using that by (simp add: calendar_def nat_add_distrib nat_mult_distrib pos_imp_zdiv_nonneg_iff)
    moreover have "0 < (t div 12) * 100 + (t mod 12 + 1)" if "calendar t" for t
      using that pos_mod_sign [of 12 t] by (simp add: calendar_def pos_imp_zdiv_nonneg_iff add_nonneg_pos)
    ultimately show ?thesis using assms by (simp add: nat_less_eq_zless)
  qed
  also have "\<dots> \<longleftrightarrow> 12 * (s div 12) + s mod 12 < 12 * (t div 12) + t mod 12" by (rule year_month_order) simp_all
  also have "\<dots> \<longleftrightarrow> s < t" by simp
  finally show ?thesis .
qed

end
