(* ===== verification/Recognition.thy ===== *)
theory Recognition
  imports Period Precedence
begin

text \<open>
  \<open>ledger/src/domain/recognition\<close> (\<open>input.rs\<close>, \<open>ports.rs\<close>, \<open>builder.rs\<close>): deriving the recognition
  schedule of an invoice item.  The three resolver ports are arguments of \<open>derive\<close>; the locale
  \<open>schedule_ports\<close> states what the builder relies on, and the default resolvers interpret it.
\<close>

section \<open>Inputs and ports\<close>

datatype recognition_timing = PointInTime | StraightLine nat "string option"

fun is_deferred :: "recognition_timing \<Rightarrow> bool" where
  "is_deferred (StraightLine periods first_period) = True"
| "is_deferred PointInTime = False"

record recognition_input =
  ri_policy_ref :: string
  ri_timing :: recognition_timing
  ri_po_allocation_group :: "string option"
  ri_multi_po :: bool
  ri_ssp_snapshot_ref :: "string option"
  ri_subscription_ref :: "string option"
  ri_vc_estimate_ref :: "string option"
  ri_vc_method_ref :: "string option"
  ri_immaterial_one_shot_sku :: bool

definition ssp_snapshot_missing :: "recognition_input \<Rightarrow> bool" where
  "ssp_snapshot_missing i \<longleftrightarrow> ri_multi_po i \<and> (case ri_ssp_snapshot_ref i of None \<Rightarrow> True | Some s \<Rightarrow> s = [])"

record recognition_context =
  rc_input :: recognition_input
  rc_invoice_period_id :: string
  rc_item_amount_ex_tax :: posted_money
  rc_invoice_total :: posted_money
  rc_revenue_stream :: string

record resolved_policy =
  rp_policy_ref :: string
  rp_timing :: recognition_timing

type_synonym policy_resolver = "recognition_context \<Rightarrow> domain_error + resolved_policy"
type_synonym ssp_resolver = "recognition_context \<Rightarrow> domain_error + string option"
type_synonym vc_resolver = "recognition_context \<Rightarrow> domain_error + string option \<times> string option"

definition default_policy_resolve :: policy_resolver where
  "default_policy_resolve ctx =
     rbind (case ri_timing (rc_input ctx) of
              PointInTime \<Rightarrow> Inr PointInTime
            | StraightLine periods first_period \<Rightarrow>
                (let first = (case first_period of Some p \<Rightarrow> p | None \<Rightarrow> rc_invoice_period_id ctx)
                 in if period_id_plus first 0 = None then Inl D_RecognitionPolicyConflict
                    else Inr (StraightLine periods (Some first)))) (\<lambda>timing.
       Inr \<lparr>rp_policy_ref = ri_policy_ref (rc_input ctx), rp_timing = timing\<rparr>)"

definition default_ssp_resolve :: ssp_resolver where
  "default_ssp_resolve ctx =
     (if ssp_snapshot_missing (rc_input ctx) then Inl D_SspSnapshotRequired
      else Inr (ri_ssp_snapshot_ref (rc_input ctx)))"

definition default_vc_resolve :: vc_resolver where
  "default_vc_resolve ctx = Inr (ri_vc_estimate_ref (rc_input ctx), ri_vc_method_ref (rc_input ctx))"

section \<open>Plans\<close>

record planned_segment =
  ps_segment_no :: int
  ps_period_id :: string
  ps_amount :: posted_money

record built_schedule =
  bs_deferred :: posted_money
  bs_segments :: "planned_segment list"
  bs_policy_ref :: string
  bs_ssp_snapshot_ref :: "string option"
  bs_po_allocation_group :: "string option"
  bs_subscription_ref :: "string option"
  bs_vc_estimate_ref :: "string option"
  bs_vc_method_ref :: "string option"
  bs_revenue_stream :: string

datatype schedule_outcome = NoDeferral | Schedule built_schedule

fun outcome_deferred :: "schedule_outcome \<Rightarrow> posted_money option" where
  "outcome_deferred NoDeferral = None"
| "outcome_deferred (Schedule b) = Some (bs_deferred b)"

definition expected_segment_no :: "nat \<Rightarrow> int option" where
  "expected_segment_no index = (if int index + 1 < 2 ^ 31 then Some (int index + 1) else None)"

fun plan_loop ::
  "posted_money \<Rightarrow> planned_segment list \<Rightarrow> nat \<Rightarrow> string option \<Rightarrow> exact_amount \<Rightarrow> domain_error + exact_amount" where
  "plan_loop deferred [] index prior s = Inr s"
| "plan_loop deferred (seg # segs) index prior s =
     rbind (ok_or D_ScheduleTooLong (expected_segment_no index)) (\<lambda>expected.
     rbind (matching_spec deferred (ps_amount seg)) (\<lambda>_.
       if ps_segment_no seg \<noteq> expected then Inl D_RecognitionPolicyConflict
       else if dec_negative (amount (ps_amount seg)) then Inl D_RecognitionPolicyConflict
       else if length (ps_period_id seg) \<noteq> 6 \<or> \<not> list_all is_ascii_digit (ps_period_id seg) \<or>
               period_id_plus (ps_period_id seg) 0 = None
       then Inl D_RecognitionPolicyConflict
       else if (case prior of None \<Rightarrow> False | Some p \<Rightarrow> ps_period_id seg \<le> p) then Inl D_RecognitionPolicyConflict
       else rbind (map_err map_exact_error (checked_add s (from_decimal (amount (ps_amount seg))))) (\<lambda>s'.
         plan_loop deferred segs (Suc index) (Some (ps_period_id seg)) s')))"

definition validate_plan :: "built_schedule \<Rightarrow> nat \<Rightarrow> domain_error + unit" where
  "validate_plan b max_segments =
     (if bs_segments b = [] \<or> length (bs_segments b) > max_segments then Inl D_ScheduleTooLong
      else if dec_negative (amount (bs_deferred b)) then Inl D_RecognitionPolicyConflict
      else rbind (plan_loop (bs_deferred b) (bs_segments b) 0 None (from_decimal dec_zero)) (\<lambda>s.
        if \<not> exact_eq s (from_decimal (amount (bs_deferred b))) then Inl D_RecognitionPolicyConflict else Inr ()))"

section \<open>Derivation\<close>

definition validate_context :: "recognition_context \<Rightarrow> domain_error + unit" where
  "validate_context ctx =
     rbind (matching_spec (rc_item_amount_ex_tax ctx) (rc_invoice_total ctx)) (\<lambda>_.
       if dec_negative (amount (rc_item_amount_ex_tax ctx)) then Inl D_AmountOutOfRange else Inr ())"

definition segment_count :: "nat \<Rightarrow> nat \<Rightarrow> domain_error + nat" where
  "segment_count periods max_segments =
     (if periods = 0 then Inl D_AmountOutOfRange
      else if 2 ^ 31 \<le> periods then Inl D_ScheduleTooLong
      else if periods > max_segments then Inl D_ScheduleTooLong
      else Inr periods)"

definition is_immaterial :: "decimal_ops \<Rightarrow> posted_money \<Rightarrow> posted_money \<Rightarrow> domain_error + bool" where
  "is_immaterial D item invoice =
     rbind (matching_spec item invoice) (\<lambda>_.
     rbind (map_err map_money_error
              (posted_try_new D (Decimal 10000 (cur_scale (currency item))) (currency item))) (\<lambda>most.
     let item_exact = from_decimal (amount item)
     in rbind (map_err map_exact_error (checked_sub (from_decimal (amount most)) item_exact)) (\<lambda>room.
        rbind (map_err map_exact_error (checked_mul item_exact (from_decimal (Decimal 100 0)))) (\<lambda>hundred_item.
        rbind (map_err map_exact_error (checked_sub (from_decimal (amount invoice)) hundred_item)) (\<lambda>rest.
          Inr (\<not> exact_negative room \<and> \<not> exact_negative rest))))))"

fun lay_out :: "string \<Rightarrow> nat \<Rightarrow> posted_money list \<Rightarrow> domain_error + planned_segment list" where
  "lay_out first i [] = Inr []"
| "lay_out first i (m # ms) =
     (if 2 ^ 32 \<le> i then Inl D_AmountOutOfRange
      else rbind (ok_or D_AmountOutOfRange (period_id_plus first i)) (\<lambda>period.
        if 2 ^ 31 \<le> i + 1 then Inl D_AmountOutOfRange
        else rbind (lay_out first (Suc i) ms) (\<lambda>rest.
          Inr (\<lparr>ps_segment_no = int i + 1, ps_period_id = period, ps_amount = m\<rparr> # rest))))"

definition plan_straight_line ::
  "decimal_ops \<Rightarrow> nat \<Rightarrow> posted_money \<Rightarrow> nat \<Rightarrow> string \<Rightarrow> domain_error + planned_segment list" where
  "plan_straight_line D max_segments deferred periods first =
     rbind (segment_count periods max_segments) (\<lambda>n.
     rbind (map_err map_exact_error (allocate D deferred (replicate n (Decimal 1 0)) Last)) (\<lambda>amounts.
       if list_ex (\<lambda>m. dec_negative (amount m)) amounts then Inl D_AmountOutOfRange
       else lay_out first 0 amounts))"

definition derive ::
  "decimal_ops \<Rightarrow> policy_resolver \<Rightarrow> ssp_resolver \<Rightarrow> vc_resolver \<Rightarrow> nat \<Rightarrow> recognition_context
   \<Rightarrow> domain_error + schedule_outcome" where
  "derive D policy ssp vc max_segments ctx =
     rbind (validate_context ctx) (\<lambda>_.
     rbind (ssp ctx) (\<lambda>snapshot.
     rbind (policy ctx) (\<lambda>resolved.
       case rp_timing resolved of
         PointInTime \<Rightarrow> Inr NoDeferral
       | StraightLine periods first_period \<Rightarrow>
           rbind (if ri_immaterial_one_shot_sku (rc_input ctx)
                  then is_immaterial D (rc_item_amount_ex_tax ctx) (rc_invoice_total ctx) else Inr False) (\<lambda>immaterial.
             if immaterial then Inr NoDeferral
             else rbind (ok_or D_RecognitionPolicyConflict first_period) (\<lambda>first.
                  rbind (plan_straight_line D max_segments (rc_item_amount_ex_tax ctx) periods first) (\<lambda>segments.
                  rbind (vc ctx) (\<lambda>(estimate_ref, method_ref).
                    Inr (Schedule
                      \<lparr>bs_deferred = rc_item_amount_ex_tax ctx, bs_segments = segments,
                       bs_policy_ref = rp_policy_ref resolved, bs_ssp_snapshot_ref = snapshot,
                       bs_po_allocation_group = ri_po_allocation_group (rc_input ctx),
                       bs_subscription_ref = ri_subscription_ref (rc_input ctx),
                       bs_vc_estimate_ref = estimate_ref, bs_vc_method_ref = method_ref,
                       bs_revenue_stream = rc_revenue_stream ctx\<rparr>))))))))"

section \<open>The layout\<close>

fun segments_from :: "int \<Rightarrow> nat \<Rightarrow> posted_money list \<Rightarrow> planned_segment list" where
  "segments_from t i [] = []"
| "segments_from t i (m # ms) =
     \<lparr>ps_segment_no = int i + 1, ps_period_id = month_text (t + int i), ps_amount = m\<rparr> # segments_from t (Suc i) ms"

lemma segments_from_facts [simp]:
  "length (segments_from t i ms) = length ms"
  "map ps_amount (segments_from t i ms) = ms"
  "segments_from t i ms = [] \<longleftrightarrow> ms = []"
  by (induction ms arbitrary: i) simp_all

lemma segments_from_nth:
  "j < length ms \<Longrightarrow> segments_from t i ms ! j =
     \<lparr>ps_segment_no = int (i + j) + 1, ps_period_id = month_text (t + int (i + j)), ps_amount = ms ! j\<rparr>"
  by (induction ms arbitrary: i j) (auto simp: nth_Cons add_ac split: nat.splits)

lemma lay_out_run:
  assumes "month_index first = Some t" "i + length ms < 2 ^ 31"
  shows "lay_out first i ms = Inr (segments_from t i ms)"
  using assms(2)
proof (induction ms arbitrary: i)
  case (Cons m ms)
  then have "Suc i + length ms < 2 ^ 31" "i < 2 ^ 32" "i + 1 < 2 ^ 31" by simp_all
  with Cons.IH [of "Suc i"] show ?case by (simp add: period_id_plus_text [OF assms(1)])
qed simp

lemma negative_posted: "posted_ok m \<Longrightarrow> dec_negative (amount m) \<longleftrightarrow> mval m < 0"
  by (simp add: posted_ok_def dec_negative_canonical dval_def divide_less_0_iff)

lemma posted_exact_eq:
  assumes "dec_grid k v" "k \<le> 2 ^ 64"
  shows "exact_eq (amount_of v) (from_decimal d) \<longleftrightarrow> v = dval d"
  using exact_eq_value [of "amount_of v" "from_decimal d"] dec_grid_ready [OF assms(1)] assms(2) by simp

lemma plan_loop_run:
  assumes "\<forall>m\<in>set ms. currency m = currency deferred \<and> \<not> dec_negative (amount m)"
    and "i + length ms < 2 ^ 31" "0 \<le> t" "calendar (t + int (i + length ms) - 1)"
    and "prior = None \<and> i = 0 \<or> prior = Some (month_text (t + int i - 1)) \<and> 0 < i"
    and "dec_grid i v"
  shows "plan_loop deferred (segments_from t i ms) i prior (amount_of v) = Inr (amount_of (v + (\<Sum>m\<leftarrow>ms. mval m)))"
  using assms
proof (induction ms arbitrary: i prior v)
  case (Cons m ms)
  let ?v = "v + mval m"
  have cal: "calendar (t + int i)" using Cons.prems(3,4) by (simp add: calendar_def)
  have g: "dec_grid (Suc i) ?v" using dec_grid_add [OF Cons.prems(6) dec_grid_dval [of "amount m"]] by simp
  have small: "i < 2 ^ 31" "Suc i < 2 ^ 31" using Cons.prems(2) by simp_all
  have add: "checked_add (amount_of v) (from_decimal (amount m)) = Inr (amount_of ?v)"
    using dec_grid_narrow [OF g] dec_grid_ready [OF Cons.prems(6)] small by (simp add: checked_add_narrow)
  have no: "expected_segment_no i = Some (int i + 1)" using small by (simp add: expected_segment_no_def)
  have idx: "period_id_plus (month_text (t + int i)) 0 \<noteq> None"
    using month_index_text [OF cal] by (simp add: period_id_plus_None)
  have later: "\<not> month_text (t + int i) \<le> month_text (t + int i - 1)" if "0 < i"
  proof -
    have "calendar (t + int i - 1)" using that cal Cons.prems(3) by (simp add: calendar_def)
    then have "month_text (t + int i - 1) < month_text (t + int i)" using cal by (simp add: month_text_less)
    then show ?thesis by simp
  qed
  have "plan_loop deferred (segments_from t (Suc i) ms) (Suc i) (Some (month_text (t + int i))) (amount_of ?v) =
      Inr (amount_of (?v + (\<Sum>m\<leftarrow>ms. mval m)))"
    using Cons.prems g by (intro Cons.IH) (auto simp: algebra_simps)
  moreover have "(case prior of None \<Rightarrow> False | Some p \<Rightarrow> month_text (t + int i) \<le> p) = False"
    using Cons.prems(5) later by auto
  ultimately show ?case
    using Cons.prems(1) no idx add month_text_parts(1,2) [OF cal] by (cases prior) (simp_all add: add.assoc)
qed simp

lemma segment_count_Inr [simp]:
  "segment_count periods mx = Inr n \<longleftrightarrow> n = periods \<and> 0 < n \<and> n < 2 ^ 31 \<and> n \<le> mx"
  by (auto simp: segment_count_def)

text \<open>The straight-line shares: all but the last are the rounded equal share.\<close>

definition equal_share :: "posted_money \<Rightarrow> nat \<Rightarrow> rat" where
  "equal_share m n = share_value m (of_nat n) 1"

lemma unit_weights: "(\<Sum>w\<leftarrow>replicate n (Decimal 1 0). dval w) = of_nat n"
  by (induction n) (simp_all add: dec_fits_numeric)

lemma plan_straight_line_Inr:
  assumes D: "decimal_contract D" and m: "posting_ok deferred"
    and run: "plan_straight_line D mx deferred n first = Inr segs" and first: "month_index first = Some t"
  obtains ms where "segs = segments_from t 0 ms" "length ms = n" "0 < n" "n < 2 ^ 31" "n \<le> mx"
    "\<forall>m\<in>set ms. posted_ok m \<and> currency m = currency deferred \<and> 0 \<le> mval m"
    "(\<Sum>m\<leftarrow>ms. mval m) = mval deferred" "\<forall>j<n - 1. mval (ms ! j) = equal_share deferred n"
proof -
  have s: "cur_scale (currency deferred) \<le> 28" using m by (simp add: posting_ok_def)
  from run obtain ms where n: "0 < n" "n < 2 ^ 31" "n \<le> mx"
      and ms: "allocate D deferred (replicate n (Decimal 1 0)) Last = Inr ms"
      and pos: "\<not> list_ex (\<lambda>m. dec_negative (amount m)) ms" and segs: "lay_out first 0 ms = Inr segs"
    by (auto simp: plan_straight_line_def split: if_splits)
  obtain i where i: "residual_index D Last (replicate n (Decimal 1 0)) n = Some i"
      and A: "length ms = n" "\<And>m. m \<in> set ms \<Longrightarrow> posted_ok m \<and> currency m = currency deferred"
        "(\<Sum>m\<leftarrow>ms. mval m) = mval deferred"
        "\<And>j. j < n \<Longrightarrow> j \<noteq> i \<Longrightarrow> mval (ms ! j) = share_value deferred (of_nat n) (dval (replicate n (Decimal 1 0) ! j))"
    using allocate_Inr [OF D s ms] unfolding unit_weights length_replicate by metis
  have "i = n - 1" using i n(1) by (simp add: residual_index_def)
  then have "\<forall>j<n - 1. mval (ms ! j) = equal_share deferred n"
    using A(4) by (simp add: equal_share_def dec_fits_numeric)
  moreover have "\<forall>m\<in>set ms. posted_ok m \<and> currency m = currency deferred \<and> 0 \<le> mval m"
    using A(2) pos negative_posted by (auto simp: list_ex_iff not_less)
  moreover have "segs = segments_from t 0 ms" using segs lay_out_run [OF first, of 0 ms] A(1) n(2) by simp
  ultimately show thesis using that A(1,3) n by blast
qed

lemma validate_plan_of_layout:
  assumes segs: "bs_segments b = segments_from t 0 ms" and n: "0 < length ms" "length ms < 2 ^ 31" "length ms \<le> mx"
    and ms: "\<forall>m\<in>set ms. posted_ok m \<and> currency m = currency (bs_deferred b) \<and> 0 \<le> mval m"
    and sum: "(\<Sum>m\<leftarrow>ms. mval m) = mval (bs_deferred b)" and d: "posted_ok (bs_deferred b)" "0 \<le> mval (bs_deferred b)"
    and cal: "0 \<le> t" "calendar (t + int (length ms) - 1)"
  shows "validate_plan b mx = Inr ()"
proof -
  have z: "from_decimal dec_zero = amount_of 0" by (simp add: from_decimal_amount_of)
  have nonneg: "\<forall>m\<in>set ms. currency m = currency (bs_deferred b) \<and> \<not> dec_negative (amount m)"
    using ms negative_posted by (auto simp: not_less)
  have "plan_loop (bs_deferred b) (segments_from t 0 ms) 0 None (amount_of 0) = Inr (amount_of (mval (bs_deferred b)))"
    using plan_loop_run [OF nonneg, of 0 t None 0] n cal sum by simp
  moreover have "exact_eq (amount_of (mval (bs_deferred b))) (from_decimal (amount (bs_deferred b)))"
    using posted_exact_eq [OF dec_grid_dval] by simp
  moreover have "\<not> dec_negative (amount (bs_deferred b))" using d negative_posted by (simp add: not_less)
  moreover have "ms \<noteq> []" using n by auto
  ultimately show ?thesis using n by (simp add: validate_plan_def segs z)
qed

section \<open>What the ports must do\<close>

locale schedule_ports =
  fixes policy :: policy_resolver and ssp :: ssp_resolver
  assumes policy_period: "policy ctx = Inr r \<Longrightarrow> rp_timing r = StraightLine n p \<Longrightarrow> \<exists>q t. p = Some q \<and> month_index q = Some t"
    and ssp_present: "ssp ctx = Inr s \<Longrightarrow> ri_multi_po (rc_input ctx) \<Longrightarrow> s \<noteq> None \<and> s \<noteq> Some []"
begin

lemma derive_Schedule:
  assumes D: "decimal_contract D" and m: "posting_ok (rc_item_amount_ex_tax ctx)"
    and run: "derive D policy ssp vc mx ctx = Inr (Schedule b)"
  obtains t n r ms first_period where "policy ctx = Inr r" "rp_timing r = StraightLine n (Some first_period)"
    "month_index first_period = Some t" "bs_segments b = segments_from t 0 ms" "length ms = n" "0 < n" "n < 2 ^ 31" "n \<le> mx"
    "\<forall>m\<in>set ms. posted_ok m \<and> currency m = currency (bs_deferred b) \<and> 0 \<le> mval m"
    "(\<Sum>m\<leftarrow>ms. mval m) = mval (bs_deferred b)" "\<forall>j<n - 1. mval (ms ! j) = equal_share (bs_deferred b) n"
    "bs_deferred b = rc_item_amount_ex_tax ctx" "0 \<le> mval (bs_deferred b)"
    "ri_multi_po (rc_input ctx) \<longrightarrow> bs_ssp_snapshot_ref b \<noteq> None \<and> bs_ssp_snapshot_ref b \<noteq> Some []"
proof -
  from run obtain r snapshot where ctx: "validate_context ctx = Inr ()" and r: "policy ctx = Inr r"
      and snap: "ssp ctx = Inr snapshot"
    by (auto simp: derive_def)
  with run have "rp_timing r \<noteq> PointInTime" by (auto simp: derive_def)
  then obtain n p where tm: "rp_timing r = StraightLine n p" by (cases "rp_timing r") auto
  from run obtain first segs where p: "p = Some first"
      and segs: "plan_straight_line D mx (rc_item_amount_ex_tax ctx) n first = Inr segs"
      and b: "bs_deferred b = rc_item_amount_ex_tax ctx" "bs_segments b = segs" "bs_ssp_snapshot_ref b = snapshot"
    by (auto simp: derive_def ctx r snap tm split: if_splits)
  from policy_period [OF r tm] p obtain t where t: "month_index first = Some t" by auto
  have "\<not> dec_negative (amount (rc_item_amount_ex_tax ctx))" using ctx by (auto simp: validate_context_def split: if_splits)
  then have nonneg: "0 \<le> mval (bs_deferred b)" using m b negative_posted by (simp add: posting_ok_def not_less)
  obtain ms where ms: "segs = segments_from t 0 ms" "length ms = n" "0 < n" "n < 2 ^ 31" "n \<le> mx"
      "\<forall>m\<in>set ms. posted_ok m \<and> currency m = currency (rc_item_amount_ex_tax ctx) \<and> 0 \<le> mval m"
      "(\<Sum>m\<leftarrow>ms. mval m) = mval (rc_item_amount_ex_tax ctx)"
      "\<forall>j<n - 1. mval (ms ! j) = equal_share (rc_item_amount_ex_tax ctx) n"
    by (rule plan_straight_line_Inr [OF D m segs t])
  show thesis
  proof (rule that [OF r _ t _ ms(2-5)])
    show "rp_timing r = StraightLine n (Some first)" using tm p by simp
    show "bs_segments b = segments_from t 0 ms" using b ms(1) by simp
    show "ri_multi_po (rc_input ctx) \<longrightarrow> bs_ssp_snapshot_ref b \<noteq> None \<and> bs_ssp_snapshot_ref b \<noteq> Some []"
      using ssp_present [OF snap] b by simp
  qed (use ms(6-8) b nonneg in simp_all)
qed

end

interpretation default_ports: schedule_ports default_policy_resolve default_ssp_resolve
proof unfold_locales
  fix ctx r n p
  assume r: "default_policy_resolve ctx = Inr r" and t: "rp_timing r = StraightLine n p"
  show "\<exists>q t. p = Some q \<and> month_index q = Some t"
    using r t by (cases "ri_timing (rc_input ctx)")
      (auto simp: default_policy_resolve_def Let_def period_id_plus_None split: if_splits option.splits)
next
  fix ctx s
  assume "default_ssp_resolve ctx = Inr s" "ri_multi_po (rc_input ctx)"
  then show "s \<noteq> None \<and> s \<noteq> Some []"
    by (auto simp: default_ssp_resolve_def ssp_snapshot_missing_def split: if_splits option.splits)
qed

text \<open>Immateriality, on values.\<close>

lemma is_immaterial_Inr:
  assumes D: "decimal_contract D" and item: "posting_ok item" and inv: "posting_ok invoice"
    and run: "is_immaterial D item invoice = Inr v"
  shows "v \<longleftrightarrow> mval item * 10 ^ cur_scale (currency item) \<le> 10000 \<and> 100 * mval item \<le> mval invoice"
proof -
  let ?s = "cur_scale (currency item)"
  have s: "?s \<le> 28" using item by (simp add: posting_ok_def)
  have fits: "dec_fits 10000 ?s" "dec_fits 100 0" using s by (simp_all add: dec_fits_def)
  from run obtain most room hundred rest where
      most: "posted_try_new D (Decimal 10000 ?s) (currency item) = Inr most"
      and room: "checked_sub (from_decimal (amount most)) (from_decimal (amount item)) = Inr room"
      and hundred: "checked_mul (from_decimal (amount item)) (from_decimal (Decimal 100 0)) = Inr hundred"
      and rest: "checked_sub (from_decimal (amount invoice)) hundred = Inr rest"
      and v: "v \<longleftrightarrow> \<not> exact_negative room \<and> \<not> exact_negative rest"
    unfolding is_immaterial_def Let_def rbind_eq_Inr map_err_eq_Inr by blast
  have M: "mval most = 10000 / 10 ^ ?s"
    using most fits by (simp add: posted_try_new_represents [OF D] represents_def)
  have R: "exact_ready room" "exval room = mval most - mval item"
    using room narrow_ready by (auto simp: checked_sub_narrow)
  have H: "exact_ready hundred" "exval hundred = mval item * 100"
    using hundred narrow_ready fits by (auto simp: checked_mul_narrow)
  have T: "exact_ready rest" "exval rest = mval invoice - mval item * 100"
    using rest narrow_ready H by (auto simp: checked_sub_narrow)
  have "mval item \<le> 10000 / 10 ^ ?s \<longleftrightarrow> mval item * 10 ^ ?s \<le> 10000" by (simp add: pos_le_divide_eq)
  then show ?thesis using v by (auto simp: exact_negative_value R T M not_less mult.commute)
qed

end
