(* ===== verification/Invoice.thy ===== *)
theory Invoice
  imports Recognition
begin

text \<open>
  \<open>ledger/src/domain/invoice/mapping.rs\<close> and \<open>builder.rs\<close>: the entry of a posted invoice.  The receivable
  is debited with the gross; the credits are grouped, revenue by class, code, status and stream and
  the deferred part by stream, in the order of a \<open>BTreeMap\<close>, with one tax line per component.
\<close>

section \<open>Inputs\<close>

record invoice_item =
  it_amount_ex_tax :: posted_money
  it_deferred :: posted_money
  it_revenue_stream :: string
  it_catalog_class :: "account_class option"
  it_contract_class :: "account_class option"
  it_gl_code :: "string option"
  it_recognition :: "recognition_input option"
  it_invoice_item_ref :: "string option"
  it_sku_or_plan_ref :: "string option"
  it_price_id :: "string option"
  it_pricing_snapshot_ref :: "string option"

record tax_breakdown =
  tx_amount :: posted_money
  tx_tax_jurisdiction :: string
  tx_tax_filing_period :: string
  tx_tax_rate_ref :: "string option"

record posted_invoice =
  pi_invoice_id :: string
  pi_payer_tenant_id :: uuid
  pi_resource_tenant_id :: "uuid option"
  pi_seller_tenant_id :: uuid
  pi_effective_at :: naive_date
  pi_due_date :: "naive_date option"
  pi_period_id :: string
  pi_items :: "invoice_item list"
  pi_tax :: "tax_breakdown list"
  pi_posted_by_actor_id :: uuid
  pi_correlation_id :: uuid

datatype invoice_error =
    EmptyInvoice
  | MappingLengthMismatch
  | NegativeAmount
  | InvalidDeferral
  | InvoiceExact exact_error

record mapped_line =
  ml_account_class :: account_class
  ml_gl_code :: "string option"
  ml_mapping_status :: mapping_status

definition resolve :: "invoice_item \<Rightarrow> mapped_line" where
  "resolve item =
     (case (case it_contract_class item of Some c \<Rightarrow> Some c | None \<Rightarrow> it_catalog_class item) of
        Some cls \<Rightarrow> \<lparr>ml_account_class = cls, ml_gl_code = it_gl_code item, ml_mapping_status = Resolved\<rparr>
      | None \<Rightarrow> \<lparr>ml_account_class = Suspense, ml_gl_code = it_gl_code item, ml_mapping_status = Pending\<rparr>)"

definition invoice_matching :: "posted_money \<Rightarrow> currency_spec \<Rightarrow> invoice_error + unit" where
  "invoice_matching m cur = map_err (\<lambda>e. InvoiceExact (MoneyErr e)) (ensure_same (currency m) cur)"

definition invoice_spec :: "posted_invoice \<Rightarrow> currency_spec option" where
  "invoice_spec invoice =
     (case pi_items invoice of
        item # _ \<Rightarrow> Some (currency (it_amount_ex_tax item))
      | [] \<Rightarrow> (case pi_tax invoice of t # _ \<Rightarrow> Some (currency (tx_amount t)) | [] \<Rightarrow> None))"

definition invoice_currency :: "posted_invoice \<Rightarrow> string option" where
  "invoice_currency invoice = map_option code (invoice_spec invoice)"

definition item_signs :: "decimal_ops \<Rightarrow> invoice_item \<Rightarrow> invoice_error + unit" where
  "item_signs D item =
     (if dec_lt D (amount (it_amount_ex_tax item)) dec_zero then Inl NegativeAmount
      else if dec_lt D (amount (it_deferred item)) dec_zero \<or>
              dec_lt D (amount (it_amount_ex_tax item)) (amount (it_deferred item))
      then Inl InvalidDeferral
      else Inr ())"

definition validated_spec :: "decimal_ops \<Rightarrow> posted_invoice \<Rightarrow> invoice_error + currency_spec" where
  "validated_spec D invoice =
     rbind (ok_or EmptyInvoice (invoice_spec invoice)) (\<lambda>spec.
     rbind (each_result (\<lambda>item. rbind (invoice_matching (it_amount_ex_tax item) spec) (\<lambda>_.
              invoice_matching (it_deferred item) spec)) (pi_items invoice)) (\<lambda>_.
     rbind (each_result (\<lambda>t. invoice_matching (tx_amount t) spec) (pi_tax invoice)) (\<lambda>_.
     rbind (each_result (item_signs D) (pi_items invoice)) (\<lambda>_.
       if list_ex (\<lambda>t. dec_lt D (amount (tx_amount t)) dec_zero) (pi_tax invoice) then Inl NegativeAmount
       else Inr spec))))"

definition gross :: "decimal_ops \<Rightarrow> posted_invoice \<Rightarrow> invoice_error + posted_money" where
  "gross D invoice =
     rbind (validated_spec D invoice) (\<lambda>spec.
       map_err InvoiceExact
         (sum_posted D (map it_amount_ex_tax (pi_items invoice) @ map tx_amount (pi_tax invoice)) spec))"

section \<open>Groups\<close>

record item_refs =
  rf_invoice_item_ref :: "string option"
  rf_sku_or_plan_ref :: "string option"
  rf_price_id :: "string option"
  rf_pricing_snapshot_ref :: "string option"

definition refs_of :: "invoice_item \<Rightarrow> item_refs" where
  "refs_of item =
     \<lparr>rf_invoice_item_ref = it_invoice_item_ref item, rf_sku_or_plan_ref = it_sku_or_plan_ref item,
      rf_price_id = it_price_id item, rf_pricing_snapshot_ref = it_pricing_snapshot_ref item\<rparr>"

text \<open>Class, code, status and stream, in the order of the derived \<open>Ord\<close>.\<close>

type_synonym revenue_key = "string \<times> string \<times> string \<times> string"

record revenue_agg =
  ra_amount :: exact_amount
  ra_account_class :: account_class
  ra_gl_code :: "string option"
  ra_mapping_status :: mapping_status
  ra_refs :: item_refs

record deferred_agg =
  da_amount :: exact_amount
  da_refs :: item_refs

definition revenue_key_of :: "invoice_item \<Rightarrow> mapped_line \<Rightarrow> revenue_key" where
  "revenue_key_of item m =
     (account_class_as_str (ml_account_class m), case ml_gl_code m of Some c \<Rightarrow> c | None \<Rightarrow> [],
      mapping_status_as_str (ml_mapping_status m), it_revenue_stream item)"

definition revenue_seed :: "invoice_item \<Rightarrow> mapped_line \<Rightarrow> revenue_agg" where
  "revenue_seed item m =
     \<lparr>ra_amount = from_decimal dec_zero, ra_account_class = ml_account_class m, ra_gl_code = ml_gl_code m,
      ra_mapping_status = ml_mapping_status m, ra_refs = refs_of item\<rparr>"

type_synonym invoice_groups = "(revenue_key \<times> revenue_agg) list \<times> (string \<times> deferred_agg) list"

definition group_item ::
  "decimal_ops \<Rightarrow> invoice_item \<times> mapped_line \<Rightarrow> invoice_groups \<Rightarrow> exact_error + invoice_groups" where
  "group_item D im groups =
     (case (im, groups) of ((item, m), (revenue, deferred)) \<Rightarrow>
       let deferred_amount = from_decimal (amount (it_deferred item))
       in rbind (checked_sub (from_decimal (amount (it_amount_ex_tax item))) deferred_amount) (\<lambda>recognized_now.
          let key = revenue_key_of item m;
              agg = (case map_of revenue key of Some a \<Rightarrow> a | None \<Rightarrow> revenue_seed item m)
          in rbind (checked_add (ra_amount agg) recognized_now) (\<lambda>r.
             let revenue' = btree_insert key (agg\<lparr>ra_amount := r\<rparr>) revenue
             in if dec_lt D dec_zero (amount (it_deferred item))
                then let stream = it_revenue_stream item;
                         cl = (case map_of deferred stream of
                                 Some a \<Rightarrow> a
                               | None \<Rightarrow> \<lparr>da_amount = from_decimal dec_zero, da_refs = refs_of item\<rparr>)
                     in rbind (checked_add (da_amount cl) deferred_amount) (\<lambda>q.
                          Inr (revenue', btree_insert stream (cl\<lparr>da_amount := q\<rparr>) deferred))
                else Inr (revenue', deferred))))"

section \<open>The entry\<close>

definition invoice_line ::
  "posted_invoice \<Rightarrow> uuid \<Rightarrow> account_class \<Rightarrow> string option \<Rightarrow> side \<Rightarrow> posted_money \<Rightarrow> naive_date option
   \<Rightarrow> string option \<Rightarrow> mapping_status \<Rightarrow> item_refs \<Rightarrow> tax_breakdown option \<Rightarrow> post_line" where
  "invoice_line invoice lid cls gl sd m due stream status refs tax =
     \<lparr>line_id = lid, payer_tenant_id = pi_payer_tenant_id invoice, seller_tenant_id = Some (pi_seller_tenant_id invoice),
      resource_tenant_id = pi_resource_tenant_id invoice, account_id = nil_uuid, account_class = cls, gl_code = gl,
      side = sd, money = m, invoice_id = Some (pi_invoice_id invoice), due_date = due, revenue_stream = stream,
      mapping_status = status, functional_money = None,
      tax_jurisdiction = map_option tx_tax_jurisdiction tax, tax_filing_period = map_option tx_tax_filing_period tax,
      tax_rate_ref = (case tax of None \<Rightarrow> None | Some t \<Rightarrow> tx_tax_rate_ref t),
      invoice_item_ref = rf_invoice_item_ref refs, sku_or_plan_ref = rf_sku_or_plan_ref refs,
      price_id = rf_price_id refs, pricing_snapshot_ref = rf_pricing_snapshot_ref refs,
      po_allocation_group = None, credit_grant_event_type = None, ar_status = None\<rparr>"

definition no_refs :: item_refs where
  "no_refs = \<lparr>rf_invoice_item_ref = None, rf_sku_or_plan_ref = None, rf_price_id = None, rf_pricing_snapshot_ref = None\<rparr>"

fun revenue_lines ::
  "decimal_ops \<Rightarrow> posted_invoice \<Rightarrow> currency_spec \<Rightarrow> (nat \<Rightarrow> uuid) \<Rightarrow> nat \<Rightarrow> (revenue_key \<times> revenue_agg) list
   \<Rightarrow> exact_error + post_line list" where
  "revenue_lines D invoice spec fresh k [] = Inr []"
| "revenue_lines D invoice spec fresh k ((key, agg) # rest) =
     (if exact_eq (ra_amount agg) (from_decimal dec_zero) then revenue_lines D invoice spec fresh k rest
      else rbind (into_posted_exact D (ra_amount agg) spec) (\<lambda>m.
           rbind (revenue_lines D invoice spec fresh (Suc k) rest) (\<lambda>ls.
             Inr (invoice_line invoice (fresh k) (ra_account_class agg) (ra_gl_code agg) Credit m None
                    (Some (snd (snd (snd key)))) (ra_mapping_status agg) (ra_refs agg) None # ls))))"

fun deferred_lines ::
  "decimal_ops \<Rightarrow> posted_invoice \<Rightarrow> currency_spec \<Rightarrow> (nat \<Rightarrow> uuid) \<Rightarrow> nat \<Rightarrow> (string \<times> deferred_agg) list
   \<Rightarrow> exact_error + post_line list" where
  "deferred_lines D invoice spec fresh k [] = Inr []"
| "deferred_lines D invoice spec fresh k ((stream, agg) # rest) =
     rbind (into_posted_exact D (da_amount agg) spec) (\<lambda>m.
     rbind (deferred_lines D invoice spec fresh (Suc k) rest) (\<lambda>ls.
       Inr (invoice_line invoice (fresh k) ContractLiability None Credit m None (Some stream) Resolved (da_refs agg) None # ls)))"

fun tax_lines :: "decimal_ops \<Rightarrow> posted_invoice \<Rightarrow> (nat \<Rightarrow> uuid) \<Rightarrow> nat \<Rightarrow> tax_breakdown list \<Rightarrow> post_line list" where
  "tax_lines D invoice fresh k [] = []"
| "tax_lines D invoice fresh k (t # ts) =
     (if is_zero D (amount (tx_amount t)) then tax_lines D invoice fresh k ts
      else invoice_line invoice (fresh k) TaxPayable None Credit (tx_amount t) None None Resolved no_refs (Some t) #
           tax_lines D invoice fresh (Suc k) ts)"

definition build_invoice_entry ::
  "decimal_ops \<Rightarrow> (nat \<Rightarrow> uuid) \<Rightarrow> posted_invoice \<Rightarrow> mapped_line list \<Rightarrow> invoice_error + post_entry" where
  "build_invoice_entry D fresh invoice mapped =
     (if length mapped \<noteq> length (pi_items invoice) then Inl MappingLengthMismatch
      else rbind (validated_spec D invoice) (\<lambda>spec.
           rbind (gross D invoice) (\<lambda>g.
             let ar = (if dec_lt D dec_zero (amount g)
                       then [invoice_line invoice (fresh 1) Ar None Debit g (pi_due_date invoice) None Resolved no_refs None]
                       else [])
             in rbind (map_err InvoiceExact (fold_result (group_item D) (zip (pi_items invoice) mapped) ([], [])))
                  (\<lambda>(revenue, deferred).
                rbind (map_err InvoiceExact (revenue_lines D invoice spec fresh (1 + length ar) revenue)) (\<lambda>rls.
                rbind (map_err InvoiceExact
                         (deferred_lines D invoice spec fresh (1 + length ar + length rls) deferred)) (\<lambda>dls.
                  Inr \<lparr>entry_id = fresh 0, tenant_id = pi_seller_tenant_id invoice, period_id = pi_period_id invoice,
                       entry_currency = code spec, source_doc_type = InvoicePost,
                       source_business_id = pi_invoice_id invoice, effective_at = pi_effective_at invoice,
                       posted_by_actor_id = pi_posted_by_actor_id invoice, correlation_id = pi_correlation_id invoice,
                       reverses_entry_id = None, reverses_period_id = None,
                       lines = ar @ rls @ dls @
                         tax_lines D invoice fresh (1 + length ar + length rls + length dls) (pi_tax invoice)\<rparr>))))))"

section \<open>What the checks give\<close>

definition invoice_ok :: "posted_invoice \<Rightarrow> bool" where
  "invoice_ok invoice \<longleftrightarrow>
     list_all (\<lambda>i. posting_ok (it_amount_ex_tax i) \<and> posting_ok (it_deferred i)) (pi_items invoice) \<and>
     list_all (\<lambda>t. posting_ok (tx_amount t)) (pi_tax invoice) \<and>
     length (pi_items invoice) + length (pi_tax invoice) \<le> 2 ^ 32"

definition item_valid :: "currency_spec \<Rightarrow> invoice_item \<Rightarrow> bool" where
  "item_valid spec i \<longleftrightarrow> currency (it_amount_ex_tax i) = spec \<and> currency (it_deferred i) = spec \<and>
     0 \<le> mval (it_deferred i) \<and> mval (it_deferred i) \<le> mval (it_amount_ex_tax i)"

definition invoice_valid :: "posted_invoice \<Rightarrow> currency_spec \<Rightarrow> bool" where
  "invoice_valid invoice spec \<longleftrightarrow> invoice_spec invoice = Some spec \<and> list_all (item_valid spec) (pi_items invoice) \<and>
     list_all (\<lambda>t. currency (tx_amount t) = spec \<and> 0 \<le> mval (tx_amount t)) (pi_tax invoice)"

lemma invoice_matching_Inr [simp]: "invoice_matching m spec = Inr u \<longleftrightarrow> currency m = spec"
  by (simp add: invoice_matching_def)

lemma item_signs_Inr:
  assumes "decimal_contract D"
  shows "item_signs D i = Inr u \<longleftrightarrow> 0 \<le> mval (it_deferred i) \<and> mval (it_deferred i) \<le> mval (it_amount_ex_tax i)"
  using assms by (auto simp: item_signs_def decimal_rules)

lemma validated_spec_Inr:
  assumes "decimal_contract D"
  shows "validated_spec D invoice = Inr spec \<longleftrightarrow> invoice_valid invoice spec"
  using assms
  by (auto simp: validated_spec_def invoice_valid_def item_valid_def item_signs_Inr list_all_iff list_ex_iff
      decimal_rules not_less)

definition items_total :: "posted_invoice \<Rightarrow> rat" where
  "items_total invoice = (\<Sum>i\<leftarrow>pi_items invoice. mval (it_amount_ex_tax i))"

definition tax_total :: "posted_invoice \<Rightarrow> rat" where
  "tax_total invoice = (\<Sum>t\<leftarrow>pi_tax invoice. mval (tx_amount t))"

lemma valid_scale:
  assumes "invoice_ok invoice" "invoice_valid invoice spec"
  shows "cur_scale spec \<le> 28"
  using assms
  by (auto simp: invoice_ok_def invoice_valid_def invoice_spec_def posting_ok_def split: list.splits)

lemma gross_Inr:
  assumes D: "decimal_contract D" and ok: "invoice_ok invoice" and spec: "invoice_valid invoice spec"
  shows "gross D invoice = Inr g \<longleftrightarrow> represents g spec (items_total invoice + tax_total invoice)"
proof -
  let ?vs = "map it_amount_ex_tax (pi_items invoice) @ map tx_amount (pi_tax invoice)"
  have len: "length ?vs \<le> 2 ^ 64" using ok by (simp add: invoice_ok_def)
  have "validated_spec D invoice = Inr spec" using spec by (simp add: validated_spec_Inr [OF D])
  moreover have "\<forall>v\<in>set ?vs. currency v = spec"
    using spec by (auto simp: invoice_valid_def item_valid_def list_all_iff)
  ultimately show ?thesis
    using sum_posted_Inr [OF D valid_scale [OF ok spec] len]
    by (simp add: gross_def items_total_def tax_total_def o_def)
qed

end
