(* ===== verification/Invoice_Entry.thy ===== *)
theory Invoice_Entry
  imports Invoice
begin

text \<open>
  The entry \<open>build_invoice_entry\<close> returns: the groups hold what the items hold, the credits match
  the debit, and every amount that fits the carrier posts.
\<close>

section \<open>Grouping keeps every amount\<close>

definition group_amount :: "nat \<Rightarrow> nat \<Rightarrow> exact_amount \<Rightarrow> bool" where
  "group_amount s n e \<longleftrightarrow> e = amount_of (exval e) \<and> dec_grid n (exval e) \<and> on_grid (exval e) s \<and> 0 \<le> exval e"

lemma group_amount_mono: "group_amount s n e \<Longrightarrow> group_amount s (n + k) e"
  using dec_grid_add [of n "exval e" k 0] by (auto simp: group_amount_def)

lemma on_grid_add: "on_grid p s \<Longrightarrow> on_grid q s \<Longrightarrow> on_grid (p + q) s"
  by (simp add: on_grid_def distrib_right)

lemma on_grid_diff: "on_grid p s \<Longrightarrow> on_grid q s \<Longrightarrow> on_grid (p - q) s"
  by (simp add: on_grid_def left_diff_distrib)

lemma posted_on_grid: "posted_ok m \<Longrightarrow> on_grid (mval m) (cur_scale (currency m))"
  using represents_on_grid [of m "currency m" "mval m"] by (simp add: represents_def)

text \<open>
  A map of running amounts: its keys are sorted, its amounts are sums of \<open>n\<close> carriers on the grid
  \<open>s\<close>, its entries satisfy \<open>P\<close>, and \<open>W w\<close> is the sum of the amounts weighted by a function
  \<open>w\<close> of the keys.
\<close>

definition store_of ::
  "('v \<Rightarrow> exact_amount) \<Rightarrow> ('k \<Rightarrow> 'v \<Rightarrow> bool) \<Rightarrow> nat \<Rightarrow> nat \<Rightarrow> (('k \<Rightarrow> rat) \<Rightarrow> rat) \<Rightarrow> ('k::linorder \<times> 'v) list \<Rightarrow> bool" where
  "store_of f P s n W m \<longleftrightarrow> sorted_keys m \<and> (\<forall>(k, a)\<in>set m. group_amount s n (f a) \<and> P k a) \<and>
     (\<forall>w. (\<Sum>(k, a)\<leftarrow>m. w k * exval (f a)) = W w)"

lemma store_of_member: "store_of f P s n W m \<Longrightarrow> (k, a) \<in> set m \<Longrightarrow> group_amount s n (f a) \<and> P k a"
  by (auto simp: store_of_def)

lemma store_of_mono: "store_of f P s n W m \<Longrightarrow> store_of f P s (n + k) W m"
  using group_amount_mono by (fastforce simp: store_of_def)

lemma group_amount_add:
  assumes e: "group_amount s n e" and d: "dec_grid 2 d" "on_grid d s" "0 \<le> d" and n: "n + 2 \<le> 2 ^ 64"
  shows "checked_add e (amount_of d) = Inr (amount_of (exval e + d))" "group_amount s (n + 2) (amount_of (exval e + d))"
proof -
  have e': "amount_of (exval e) = e" "dec_grid n (exval e)" using e by (simp_all add: group_amount_def)
  have grid: "dec_grid (n + 2) (exval e + d)" by (intro dec_grid_add e'(2) d(1))
  have "exact_ready (amount_of (exval e))" using n by (intro dec_grid_ready [OF e'(2)]) simp
  moreover have "exact_ready (amount_of d)" by (intro dec_grid_ready [OF d(1)]) simp
  ultimately show "checked_add e (amount_of d) = Inr (amount_of (exval e + d))"
    using dec_grid_narrow [OF grid] n by (simp add: checked_add_narrow e')
  show "group_amount s (n + 2) (amount_of (exval e + d))"
    using grid e d on_grid_add [of "exval e" s d] by (simp add: group_amount_def)
qed

text \<open>Adding \<open>d\<close> to the group at \<open>key\<close>, which \<open>seed\<close> opens when there is none.\<close>

definition entry_or :: "'v \<Rightarrow> ('k \<times> 'v) list \<Rightarrow> 'k \<Rightarrow> 'v" where
  "entry_or seed m key = (case map_of m key of Some a \<Rightarrow> a | None \<Rightarrow> seed)"

lemma store_of_insert:
  fixes key :: "'k::linorder"
  assumes m: "store_of f P s n W m" and seed: "f seed = from_decimal dec_zero"
    and d: "dec_grid 2 d" "on_grid d s" "0 \<le> d" and n: "n + 2 \<le> 2 ^ 64"
  defines "r \<equiv> amount_of (exval (f (entry_or seed m key)) + d)"
  shows "checked_add (f (entry_or seed m key)) (amount_of d) = Inr r" "0 \<le> exval (f (entry_or seed m key))"
    and "f a' = r \<Longrightarrow> P key a' \<Longrightarrow> store_of f P s (n + 2) (\<lambda>w. W w + w key * d) (btree_insert key a' m)"
proof -
  let ?a = "entry_or seed m key"
  have sorted: "sorted_keys m" using m by (simp add: store_of_def)
  have zero: "group_amount s n (from_decimal dec_zero)"
    by (simp add: group_amount_def from_decimal_amount_of on_grid_def)
  have a: "group_amount s n (f ?a)"
  proof (cases "map_of m key")
    case None
    then show ?thesis using zero seed by (simp add: entry_or_def)
  next
    case (Some b)
    then show ?thesis using store_of_member [OF m map_of_SomeD] by (simp add: entry_or_def)
  qed
  show "checked_add (f ?a) (amount_of d) = Inr r" "0 \<le> exval (f ?a)"
    using group_amount_add [OF a d n] a by (simp_all add: r_def group_amount_def)
  assume a': "f a' = r" "P key a'"
  have r: "group_amount s (n + 2) r" using group_amount_add [OF a d n] by (simp add: r_def)
  have "(\<Sum>(k, v)\<leftarrow>btree_insert key a' m. w k * exval (f v)) = W w + w key * d" for w
  proof -
    have "(\<Sum>(k, v)\<leftarrow>m. w k * exval (f v)) = W w" using m by (simp add: store_of_def)
    then show ?thesis
      using btree.sum_put [OF sorted, of "\<lambda>k v. w k * exval (f v)" key a'] a'(1) seed
      by (cases "map_of m key") (simp_all add: r_def entry_or_def algebra_simps from_decimal_amount_of)
  qed
  moreover have "group_amount s (n + 2) (f v) \<and> P k v" if kv: "(k, v) \<in> set (btree_insert key a' m)" for k v
  proof -
    have "map_of (btree_insert key a' m) k = Some v"
      using kv btree.inv_distinct [OF btree.inv_put [OF sorted]] by simp
    then have "k = key \<and> v = a' \<or> (k, v) \<in> set m"
      using btree.map_of_put [OF sorted] by (auto split: if_splits dest: map_of_SomeD)
    then show ?thesis
      using a' r store_of_member [OF m, of k v] group_amount_mono [of s n "f v" 2] by auto
  qed
  ultimately show "store_of f P s (n + 2) (\<lambda>w. W w + w key * d) (btree_insert key a' m)"
    using btree.inv_put [OF sorted] by (auto simp: store_of_def)
qed

lemma length_btree_insert: "length (btree_insert k v m) \<le> Suc (length m)"
  by (induction k v m rule: btree_insert.induct) auto

text \<open>The groups after some items: every weight sees in the groups exactly what it sees in the items.\<close>

definition recognized :: "invoice_item \<Rightarrow> rat" where
  "recognized i = mval (it_amount_ex_tax i) - mval (it_deferred i)"

definition revenue_weight :: "(invoice_item \<times> mapped_line) list \<Rightarrow> (revenue_key \<Rightarrow> rat) \<Rightarrow> rat" where
  "revenue_weight ims w = (\<Sum>(i, m)\<leftarrow>ims. w (revenue_key_of i m) * recognized i)"

definition deferred_weight :: "(invoice_item \<times> mapped_line) list \<Rightarrow> (string \<Rightarrow> rat) \<Rightarrow> rat" where
  "deferred_weight ims w = (\<Sum>(i, m)\<leftarrow>ims. w (it_revenue_stream i) * mval (it_deferred i))"

abbreviation revenue_store where
  "revenue_store \<equiv> store_of ra_amount (\<lambda>k a. account_class_as_str (ra_account_class a) = fst k)"

abbreviation deferred_store where
  "deferred_store \<equiv> store_of da_amount (\<lambda>k a. 0 < exval (da_amount a))"

definition grouped :: "nat \<Rightarrow> (invoice_item \<times> mapped_line) list \<Rightarrow> invoice_groups \<Rightarrow> bool" where
  "grouped s ims g \<longleftrightarrow> revenue_store s (2 * length ims) (revenue_weight ims) (fst g) \<and>
     deferred_store s (2 * length ims) (deferred_weight ims) (snd g) \<and>
     length (fst g) \<le> length ims \<and> length (snd g) \<le> length ims"

lemma weights_snoc:
  "revenue_weight (ims @ [(i, m)]) = (\<lambda>w. revenue_weight ims w + w (revenue_key_of i m) * recognized i)"
  "deferred_weight (ims @ [(i, m)]) = (\<lambda>w. deferred_weight ims w + w (it_revenue_stream i) * mval (it_deferred i))"
  by (simp_all add: fun_eq_iff revenue_weight_def deferred_weight_def)

lemma item_amounts:
  assumes "item_valid spec i" "posted_ok (it_amount_ex_tax i)" "posted_ok (it_deferred i)"
  shows "dec_grid 2 (recognized i)" "on_grid (recognized i) (cur_scale spec)" "0 \<le> recognized i"
    and "dec_grid 2 (mval (it_deferred i))" "on_grid (mval (it_deferred i)) (cur_scale spec)" "0 \<le> mval (it_deferred i)"
    and "checked_sub (from_decimal (amount (it_amount_ex_tax i))) (from_decimal (amount (it_deferred i))) =
      Inr (amount_of (recognized i))"
proof -
  let ?a = "amount (it_amount_ex_tax i)" and ?d = "amount (it_deferred i)"
  show g: "dec_grid 2 (recognized i)"
    using dec_grid_add [OF dec_grid_dval [of ?a], of 1 "- dval ?d"] dec_grid_dval [of ?d]
    by (simp add: recognized_def numeral_2_eq_2)
  show "dec_grid 2 (mval (it_deferred i))"
    using dec_grid_add [OF dec_grid_dval [of ?d], of 1 0] by (simp add: numeral_2_eq_2)
  show "on_grid (recognized i) (cur_scale spec)" "0 \<le> recognized i" "on_grid (mval (it_deferred i)) (cur_scale spec)"
      "0 \<le> mval (it_deferred i)"
    using assms posted_on_grid [OF assms(2)] posted_on_grid [OF assms(3)]
    by (auto simp: item_valid_def recognized_def on_grid_diff)
  show "checked_sub (from_decimal ?a) (from_decimal ?d) = Inr (amount_of (recognized i))"
    using dec_grid_narrow [OF g] by (simp add: checked_sub_narrow recognized_def)
qed

lemma group_item_step:
  assumes D: "decimal_contract D" and g: "grouped (cur_scale spec) ims g" and n: "2 * length ims + 2 \<le> 2 ^ 64"
    and i: "item_valid spec i" "posted_ok (it_amount_ex_tax i)" "posted_ok (it_deferred i)"
  shows "\<exists>g'. group_item D (i, m) g = Inr g' \<and> grouped (cur_scale spec) (ims @ [(i, m)]) g'"
proof -
  obtain revs deff where gp: "g = (revs, deff)" by fastforce
  note A = item_amounts [OF i]
  let ?d = "mval (it_deferred i)"
  define seed where "seed = \<lparr>da_amount = amount_of 0, da_refs = refs_of i\<rparr>"
  define agg where "agg = entry_or (revenue_seed i m) revs (revenue_key_of i m)"
  define cl where "cl = entry_or seed deff (it_revenue_stream i)"
  let ?agg = "agg\<lparr>ra_amount := amount_of (exval (ra_amount agg) + recognized i)\<rparr>"
  let ?cl = "cl\<lparr>da_amount := amount_of (exval (da_amount cl) + ?d)\<rparr>"
  let ?revs = "btree_insert (revenue_key_of i m) ?agg revs"
  let ?def = "if 0 < ?d then btree_insert (it_revenue_stream i) ?cl deff else deff"
  have R: "revenue_store (cur_scale spec) (2 * length ims) (revenue_weight ims) revs"
    and C: "deferred_store (cur_scale spec) (2 * length ims) (deferred_weight ims) deff"
    using g by (simp_all add: grouped_def gp)
  have "ra_amount (revenue_seed i m) = from_decimal dec_zero" "da_amount seed = from_decimal dec_zero"
    by (simp_all add: revenue_seed_def seed_def from_decimal_amount_of)
  note RI = store_of_insert [OF R this(1) A(1-3) n, where key = "revenue_key_of i m", folded agg_def]
    and CI = store_of_insert [OF C this(2) A(4-6) n, where key = "it_revenue_stream i", folded cl_def]
  have "group_item D (i, m) g = Inr (?revs, ?def)"
    using A(7) RI(1) CI(1) D
    by (simp add: group_item_def gp Let_def decimal_rules from_decimal_amount_of
        flip: entry_or_def agg_def seed_def cl_def)
  moreover have "account_class_as_str (ra_account_class agg) = fst (revenue_key_of i m)"
  proof (cases "map_of revs (revenue_key_of i m)")
    case None
    then show ?thesis by (simp add: agg_def entry_or_def revenue_seed_def revenue_key_of_def)
  next
    case (Some a)
    then show ?thesis using store_of_member [OF R map_of_SomeD] by (simp add: agg_def entry_or_def)
  qed
  then have "revenue_store (cur_scale spec) (2 * length ims + 2) (revenue_weight (ims @ [(i, m)])) ?revs"
    using RI(3) [of ?agg] by (simp add: weights_snoc)
  moreover have "deferred_store (cur_scale spec) (2 * length ims + 2) (deferred_weight (ims @ [(i, m)])) ?def"
  proof (cases "0 < ?d")
    case True
    then show ?thesis using CI(2) CI(3) [of ?cl] by (simp add: weights_snoc)
  next
    case False
    then have "?d = 0" using A(6) by simp
    then show ?thesis using store_of_mono [OF C, of 2] by (simp add: weights_snoc)
  qed
  moreover have "length ?revs \<le> Suc (length ims)" "length ?def \<le> Suc (length ims)"
    using g length_btree_insert [of "revenue_key_of i m" ?agg revs] length_btree_insert [of "it_revenue_stream i" ?cl deff]
    by (auto simp: grouped_def gp)
  ultimately show ?thesis by (auto simp: grouped_def)
qed

lemma group_items:
  assumes D: "decimal_contract D" and n: "2 * length ims \<le> 2 ^ 64"
    and i: "\<And>i m. (i, m) \<in> set ims \<Longrightarrow> item_valid spec i \<and> posted_ok (it_amount_ex_tax i) \<and> posted_ok (it_deferred i)"
  shows "\<exists>g. fold_result (group_item D) ims ([], []) = Inr g \<and> grouped (cur_scale spec) ims g"
  using n i
proof (induction ims rule: rev_induct)
  case Nil
  then show ?case by (simp add: grouped_def store_of_def revenue_weight_def deferred_weight_def)
next
  case (snoc im ims)
  obtain i m where im: "im = (i, m)" by fastforce
  obtain g where g: "fold_result (group_item D) ims ([], []) = Inr g" "grouped (cur_scale spec) ims g"
    using snoc by fastforce
  have "\<exists>g'. group_item D (i, m) g = Inr g' \<and> grouped (cur_scale spec) (ims @ [(i, m)]) g'"
    using snoc.prems(1) snoc.prems(2) [of i m] im by (intro group_item_step [OF D g(2)]) simp_all
  then show ?case using g(1) by (auto simp: fold_result_append im)
qed

section \<open>The lines\<close>

definition credited :: "post_line list \<Rightarrow> account_class \<Rightarrow> string option \<Rightarrow> rat" where
  "credited ls c stream =
     (\<Sum>l\<leftarrow>ls. if side l = Credit \<and> account_class l = c \<and> revenue_stream l = stream then mval (money l) else 0)"

lemma credited_simps [simp]:
  "credited [] c s = 0"
  "credited (l # ls) c s =
     (if side l = Credit \<and> account_class l = c \<and> revenue_stream l = s then mval (money l) else 0) + credited ls c s"
  "credited (ls @ ms) c s = credited ls c s + credited ms c s"
  by (simp_all add: credited_def)

lemma invoice_line_simps [simp]:
  fixes invoice lid cls gl sd m due stream status refs tax
  defines "l \<equiv> invoice_line invoice lid cls gl sd m due stream status refs tax"
  shows "line_id l = lid" "account_class l = cls" "gl_code l = gl" "side l = sd" "money l = m" "due_date l = due"
    "revenue_stream l = stream" "mapping_status l = status" "functional_money l = None"
    "payer_tenant_id l = pi_payer_tenant_id invoice"
  by (simp_all add: l_def invoice_line_def)

lemma plain_invoice_line:
  "currency m = spec \<Longrightarrow> 0 < mval m \<Longrightarrow>
   plain_line spec (pi_payer_tenant_id invoice) (invoice_line invoice lid cls gl sd m due stream status refs tax)"
  by (simp add: plain_line_def)

definition credit_lines :: "currency_spec \<Rightarrow> uuid \<Rightarrow> post_line list \<Rightarrow> bool" where
  "credit_lines spec payer ls \<longleftrightarrow> (\<forall>l\<in>set ls. plain_line spec payer l \<and> side l = Credit)"

lemma credit_lines_simps [simp]:
  "credit_lines spec payer []"
  "credit_lines spec payer (l # ls) \<longleftrightarrow> plain_line spec payer l \<and> side l = Credit \<and> credit_lines spec payer ls"
  by (auto simp: credit_lines_def)

lemma group_amount_ready: "group_amount s n e \<Longrightarrow> n \<le> 2 ^ 64 \<Longrightarrow> exact_ready e"
  using dec_grid_ready [of n "exval e"] by (auto simp: group_amount_def)

lemma group_amount_posts:
  assumes "decimal_contract D" "cur_scale spec \<le> 28" "group_amount s n e" "n \<le> 2 ^ 64"
  shows "into_posted_exact D e spec = Inr m \<longleftrightarrow> represents m spec (exval e)"
  using assms by (intro into_posted_exact_Inr group_amount_ready)

lemma group_amount_zero:
  assumes "group_amount s n e" "n \<le> 2 ^ 64"
  shows "exact_eq e (from_decimal dec_zero) \<longleftrightarrow> exval e = 0"
  using assms group_amount_ready [OF assms] by (simp add: exact_eq_value)

lemma class_literal_inj [simp]: "account_class_as_str c = account_class_as_str d \<longleftrightarrow> c = d"
  using account_enum.literal_inj by blast

lemma revenue_lines_Inr:
  assumes D: "decimal_contract D" and s: "cur_scale spec \<le> 28" and n: "n \<le> 2 ^ 64"
    and "\<forall>(k, a)\<in>set m. group_amount s' n (ra_amount a) \<and> account_class_as_str (ra_account_class a) = fst k"
    and "revenue_lines D invoice spec fresh j m = Inr ls"
  shows "credit_lines spec (pi_payer_tenant_id invoice) ls \<and> length ls \<le> length m \<and>
    lines_net ls = - (\<Sum>(k, a)\<leftarrow>m. exval (ra_amount a)) \<and>
    credited ls c st = (\<Sum>(k, a)\<leftarrow>m. (if account_class_as_str c = fst k \<and> Some (snd (snd (snd k))) = st then 1 else 0) * exval (ra_amount a))"
  using assms(4-)
proof (induction m arbitrary: j ls)
  case (Cons p m)
  obtain k a where p: "p = (k, a)" by fastforce
  have g: "group_amount s' n (ra_amount a)" and cls: "fst k = account_class_as_str (ra_account_class a)"
    using Cons.prems(1) by (simp_all add: p)
  have "\<forall>(k, a)\<in>set m. group_amount s' n (ra_amount a) \<and> account_class_as_str (ra_account_class a) = fst k" using Cons.prems(1) by simp
  note IH = Cons.IH [OF this]
  show ?case
  proof (cases "exval (ra_amount a) = 0")
    case True
    then show ?thesis using Cons.prems(2) IH group_amount_zero [OF g n] by (fastforce simp: p)
  next
    case False
    then obtain v rest where v: "represents v spec (exval (ra_amount a))"
        and rest: "revenue_lines D invoice spec fresh (Suc j) m = Inr rest"
        and ls: "ls = invoice_line invoice (fresh j) (ra_account_class a) (ra_gl_code a) Credit v None
                    (Some (snd (snd (snd k)))) (ra_mapping_status a) (ra_refs a) None # rest"
      using Cons.prems(2) by (auto simp: p group_amount_zero [OF g n] group_amount_posts [OF D s g n])
    have pos: "0 < exval (ra_amount a)" using False g by (simp add: group_amount_def)
    then show ?thesis using IH [OF rest] v cls unfolding ls
      by (auto simp: p represents_def plain_invoice_line)
  qed
qed simp

lemma deferred_lines_Inr:
  assumes D: "decimal_contract D" and s: "cur_scale spec \<le> 28" and n: "n \<le> 2 ^ 64"
    and "\<forall>(k, a)\<in>set m. group_amount s' n (da_amount a) \<and> 0 < exval (da_amount a)"
    and "deferred_lines D invoice spec fresh j m = Inr ls"
  shows "credit_lines spec (pi_payer_tenant_id invoice) ls \<and> length ls = length m \<and>
    lines_net ls = - (\<Sum>(k, a)\<leftarrow>m. exval (da_amount a)) \<and>
    credited ls c st = (\<Sum>(k, a)\<leftarrow>m. (if c = ContractLiability \<and> Some k = st then 1 else 0) * exval (da_amount a))"
  using assms(4-)
proof (induction m arbitrary: j ls)
  case (Cons p m)
  obtain k a where p: "p = (k, a)" by fastforce
  have g: "group_amount s' n (da_amount a)" and pos: "0 < exval (da_amount a)"
    using Cons.prems(1) by (simp_all add: p)
  have "\<forall>(k, a)\<in>set m. group_amount s' n (da_amount a) \<and> 0 < exval (da_amount a)" using Cons.prems(1) by simp
  note IH = Cons.IH [OF this]
  from Cons.prems(2) obtain v rest where v: "represents v spec (exval (da_amount a))"
      and rest: "deferred_lines D invoice spec fresh (Suc j) m = Inr rest"
      and ls: "ls = invoice_line invoice (fresh j) ContractLiability None Credit v None (Some k) Resolved (da_refs a) None # rest"
    by (auto simp: p group_amount_posts [OF D s g n])
  show ?case using IH [OF rest] v pos unfolding ls by (auto simp: p represents_def plain_invoice_line)
qed simp

lemma tax_lines_facts:
  assumes D: "decimal_contract D" and "\<forall>t\<in>set ts. currency (tx_amount t) = spec \<and> 0 \<le> mval (tx_amount t)"
  shows "credit_lines spec (pi_payer_tenant_id invoice) (tax_lines D invoice fresh j ts) \<and>
    length (tax_lines D invoice fresh j ts) \<le> length ts \<and>
    lines_net (tax_lines D invoice fresh j ts) = - (\<Sum>t\<leftarrow>ts. mval (tx_amount t)) \<and>
    credited (tax_lines D invoice fresh j ts) c st =
      (if c = TaxPayable \<and> st = None then \<Sum>t\<leftarrow>ts. mval (tx_amount t) else 0)"
  using assms(2)
proof (induction ts arbitrary: j)
  case (Cons t ts)
  have "0 < mval (tx_amount t)" if "mval (tx_amount t) \<noteq> 0" using Cons.prems that by simp
  then show ?case using Cons D by (auto simp: decimal_rules plain_invoice_line intro: le_SucI)
qed simp


section \<open>The entry\<close>

text \<open>What the items and the taxes ask to be credited to a class on a stream.\<close>

definition invoice_credit :: "posted_invoice \<Rightarrow> mapped_line list \<Rightarrow> account_class \<Rightarrow> string option \<Rightarrow> rat" where
  "invoice_credit invoice mapped c st =
     (\<Sum>(i, m)\<leftarrow>zip (pi_items invoice) mapped.
        if ml_account_class m = c \<and> Some (it_revenue_stream i) = st then recognized i else 0) +
     (\<Sum>i\<leftarrow>pi_items invoice. if c = ContractLiability \<and> Some (it_revenue_stream i) = st then mval (it_deferred i) else 0) +
     (if c = TaxPayable \<and> st = None then tax_total invoice else 0)"

lemma sum_zip_fst: "length xs = length ys \<Longrightarrow> (\<Sum>(x, y)\<leftarrow>zip xs ys. f x) = (\<Sum>x\<leftarrow>xs. f x)"
  by (induction xs ys rule: list_induct2) simp_all

lemma if_times: "(if b then 1 else 0) * (q :: rat) = (if b then q else 0)"
  by simp

lemma grouped_totals:
  assumes g: "grouped s (zip (pi_items invoice) mapped) (revs, deff)" and len: "length mapped = length (pi_items invoice)"
  shows "(\<Sum>(k, a)\<leftarrow>revs. exval (ra_amount a)) + (\<Sum>(k, a)\<leftarrow>deff. exval (da_amount a)) = items_total invoice"
    and "(\<Sum>(k, a)\<leftarrow>revs. (if account_class_as_str c = fst k \<and> Some (snd (snd (snd k))) = st then 1 else 0) * exval (ra_amount a)) +
      (\<Sum>(k, a)\<leftarrow>deff. (if c = ContractLiability \<and> Some k = st then 1 else 0) * exval (da_amount a)) +
      (if c = TaxPayable \<and> st = None then tax_total invoice else 0) = invoice_credit invoice mapped c st"
proof -
  let ?ims = "zip (pi_items invoice) mapped"
  have R: "(\<Sum>(k, a)\<leftarrow>revs. w k * exval (ra_amount a)) = revenue_weight ?ims w" for w
    using g by (simp add: grouped_def store_of_def)
  have C: "(\<Sum>(k, a)\<leftarrow>deff. w k * exval (da_amount a)) = deferred_weight ?ims w" for w
    using g by (simp add: grouped_def store_of_def)
  have "revenue_weight ?ims (\<lambda>_. 1) + deferred_weight ?ims (\<lambda>_. 1) = items_total invoice"
    using len by (simp add: revenue_weight_def deferred_weight_def sum_zip_fst items_total_def recognized_def
        sum_list_subtractf)
  then show "(\<Sum>(k, a)\<leftarrow>revs. exval (ra_amount a)) + (\<Sum>(k, a)\<leftarrow>deff. exval (da_amount a)) = items_total invoice"
    using R [of "\<lambda>_. 1"] C [of "\<lambda>_. 1"] by simp
  show "(\<Sum>(k, a)\<leftarrow>revs. (if account_class_as_str c = fst k \<and> Some (snd (snd (snd k))) = st then 1 else 0) * exval (ra_amount a)) +
      (\<Sum>(k, a)\<leftarrow>deff. (if c = ContractLiability \<and> Some k = st then 1 else 0) * exval (da_amount a)) +
      (if c = TaxPayable \<and> st = None then tax_total invoice else 0) = invoice_credit invoice mapped c st"
    unfolding R [of "\<lambda>k. if account_class_as_str c = fst k \<and> Some (snd (snd (snd k))) = st then 1 else 0"]
      C [of "\<lambda>k. if c = ContractLiability \<and> Some k = st then 1 else 0"]
    unfolding revenue_weight_def deferred_weight_def invoice_credit_def if_times
    using len by (simp add: sum_zip_fst revenue_key_of_def eq_commute [of c] cong: if_cong)
qed

definition ar_lines :: "posted_invoice \<Rightarrow> (nat \<Rightarrow> uuid) \<Rightarrow> posted_money \<Rightarrow> post_line list" where
  "ar_lines invoice fresh g =
     (if 0 < mval g then [invoice_line invoice (fresh 1) Ar None Debit g (pi_due_date invoice) None Resolved no_refs None]
      else [])"

lemma ar_lines_run:
  "decimal_contract D \<Longrightarrow>
   (if dec_lt D dec_zero (amount g)
    then [invoice_line invoice (fresh 1) Ar None Debit g (pi_due_date invoice) None Resolved no_refs None] else []) =
   ar_lines invoice fresh g"
  by (simp add: ar_lines_def decimal_rules)

lemma credit_lines_append [simp]:
  "credit_lines spec payer (ls @ ms) \<longleftrightarrow> credit_lines spec payer ls \<and> credit_lines spec payer ms"
  by (auto simp: credit_lines_def)

lemma invoice_groups:
  assumes D: "decimal_contract D" and ok: "invoice_ok invoice" and v: "invoice_valid invoice spec"
    and len: "length mapped = length (pi_items invoice)"
  obtains revs deff where "fold_result (group_item D) (zip (pi_items invoice) mapped) ([], []) = Inr (revs, deff)"
    "grouped (cur_scale spec) (zip (pi_items invoice) mapped) (revs, deff)"
proof -
  have "2 * length (zip (pi_items invoice) mapped) \<le> 2 ^ 64" using ok len by (simp add: invoice_ok_def)
  moreover have "item_valid spec i \<and> posted_ok (it_amount_ex_tax i) \<and> posted_ok (it_deferred i)"
    if "(i, m) \<in> set (zip (pi_items invoice) mapped)" for i m
    using set_zip_leftD [OF that] ok v by (auto simp: invoice_ok_def invoice_valid_def list_all_iff posting_ok_def)
  ultimately show thesis using group_items [OF D, of "zip (pi_items invoice) mapped" spec] that by fastforce
qed

lemma build_invoice_Inr:
  assumes D: "decimal_contract D" and ok: "invoice_ok invoice" and e: "build_invoice_entry D fresh invoice mapped = Inr e"
  obtains spec g rest where "invoice_valid invoice spec" "represents g spec (items_total invoice + tax_total invoice)"
    "length mapped = length (pi_items invoice)" "lines e = ar_lines invoice fresh g @ rest"
    "credit_lines spec (pi_payer_tenant_id invoice) rest" "lines_net rest = - (items_total invoice + tax_total invoice)"
    "\<And>c st. credited rest c st = invoice_credit invoice mapped c st"
    "length rest \<le> 2 * length (pi_items invoice) + length (pi_tax invoice)" "entry_currency e = code spec"
proof -
  have len: "length mapped = length (pi_items invoice)"
    using e by (auto simp: build_invoice_entry_def split: if_splits)
  with e obtain spec where v: "invoice_valid invoice spec"
    by (auto simp: build_invoice_entry_def validated_spec_Inr [OF D])
  obtain revs deff where f: "fold_result (group_item D) (zip (pi_items invoice) mapped) ([], []) = Inr (revs, deff)"
      and g: "grouped (cur_scale spec) (zip (pi_items invoice) mapped) (revs, deff)"
    using invoice_groups [OF D ok v len] .
  have spec: "validated_spec D invoice = Inr spec" using v by (simp add: validated_spec_Inr [OF D])
  from e len spec f obtain g' rls dls where g': "represents g' spec (items_total invoice + tax_total invoice)"
      and r: "revenue_lines D invoice spec fresh (1 + length (ar_lines invoice fresh g')) revs = Inr rls"
      and d: "deferred_lines D invoice spec fresh (1 + length (ar_lines invoice fresh g') + length rls) deff = Inr dls"
      and ls: "lines e = ar_lines invoice fresh g' @ rls @ dls @
        tax_lines D invoice fresh (1 + length (ar_lines invoice fresh g') + length rls + length dls) (pi_tax invoice)"
      and c: "entry_currency e = code spec"
    unfolding build_invoice_entry_def Let_def ar_lines_run [OF D]
    by (auto simp: gross_Inr [OF D ok v] split: if_splits)
  let ?t = "tax_lines D invoice fresh (1 + length (ar_lines invoice fresh g') + length rls + length dls) (pi_tax invoice)"
  let ?n = "2 * length (zip (pi_items invoice) mapped)"
  have n: "?n \<le> 2 ^ 64" using ok len by (simp add: invoice_ok_def)
  have R: "\<forall>(k, a)\<in>set revs. group_amount (cur_scale spec) ?n (ra_amount a) \<and> account_class_as_str (ra_account_class a) = fst k"
    and C: "\<forall>(k, a)\<in>set deff. group_amount (cur_scale spec) ?n (da_amount a) \<and> 0 < exval (da_amount a)"
    and sizes: "length revs \<le> length (pi_items invoice)" "length deff \<le> length (pi_items invoice)"
    using g len by (auto simp: grouped_def store_of_def)
  have T: "\<forall>t\<in>set (pi_tax invoice). currency (tx_amount t) = spec \<and> 0 \<le> mval (tx_amount t)"
    using v by (simp add: invoice_valid_def list_all_iff)
  note RL = revenue_lines_Inr [OF D valid_scale [OF ok v] n R r]
    and DL = deferred_lines_Inr [OF D valid_scale [OF ok v] n C d]
    and TL = tax_lines_facts [OF D T]
  show thesis
  proof (rule that [OF v g' len ls _ _ _ _ c])
    show "credit_lines spec (pi_payer_tenant_id invoice) (rls @ dls @ ?t)" using RL DL TL by simp
    show "lines_net (rls @ dls @ ?t) = - (items_total invoice + tax_total invoice)"
      using RL DL TL grouped_totals(1) [OF g len] by (simp add: tax_total_def)
    show "credited (rls @ dls @ ?t) c st = invoice_credit invoice mapped c st" for c st
      unfolding credited_simps(3) RL [of c st, THEN conjunct2, THEN conjunct2, THEN conjunct2]
        DL [of c st, THEN conjunct2, THEN conjunct2, THEN conjunct2] TL [THEN conjunct2, THEN conjunct2, THEN conjunct2]
        grouped_totals(2) [OF g len, symmetric] tax_total_def by (simp only: add.assoc)
    show "length (rls @ dls @ ?t) \<le> 2 * length (pi_items invoice) + length (pi_tax invoice)"
      using RL [THEN conjunct2, THEN conjunct1] DL [THEN conjunct2, THEN conjunct1] sizes
        TL [THEN conjunct2, THEN conjunct1, of invoice fresh "1 + length (ar_lines invoice fresh g') + length rls + length dls"]
      unfolding length_append by linarith
  qed
qed

definition invoice_postable :: "posted_invoice \<times> mapped_line list \<Rightarrow> bool" where
  "invoice_postable p \<longleftrightarrow> invoice_ok (fst p) \<and> 0 < items_total (fst p) + tax_total (fst p)"

interpretation invoice_entry: entry_builder "\<lambda>D fresh p. build_invoice_entry D fresh (fst p) (snd p)" invoice_postable
proof unfold_locales
  fix D :: decimal_ops and p fresh e
  assume D: "decimal_contract D" and p: "invoice_postable p" and e: "build_invoice_entry D fresh (fst p) (snd p) = Inr e"
  have ok: "invoice_ok (fst p)" and pos: "0 < items_total (fst p) + tax_total (fst p)"
    using p by (simp_all add: invoice_postable_def)
  obtain spec g rest where g: "represents g spec (items_total (fst p) + tax_total (fst p))"
      and ls: "lines e = ar_lines (fst p) fresh g @ rest" and rest: "credit_lines spec (pi_payer_tenant_id (fst p)) rest"
      and net: "lines_net rest = - (items_total (fst p) + tax_total (fst p))"
      and size: "length rest \<le> 2 * length (pi_items (fst p)) + length (pi_tax (fst p))"
      and cur: "entry_currency e = code spec"
    using build_invoice_Inr [OF D ok e] by metis
  have m: "mval g = items_total (fst p) + tax_total (fst p)" "currency g = spec" using g by (simp_all add: represents_def)
  show "length (lines e) \<le> 2 ^ 64" using size ok by (simp add: ls ar_lines_def invoice_ok_def)
  show "entry_balanced e"
    using cur
  proof (rule plain_entry_balanced)
    show "lines e \<noteq> []" using pos m by (simp add: ls ar_lines_def)
    show "\<forall>l\<in>set (lines e). plain_line spec (pi_payer_tenant_id (fst p)) l"
      using rest pos m by (auto simp: ls ar_lines_def credit_lines_def plain_invoice_line)
    show "lines_net (lines e) = 0" using net pos m by (simp add: ls ar_lines_def)
  qed
qed

text \<open>A gross of zero leaves no line at all.\<close>

lemma zero_gross_entry:
  assumes D: "decimal_contract D" and ok: "invoice_ok invoice" and e: "build_invoice_entry D fresh invoice mapped = Inr e"
    and z: "items_total invoice + tax_total invoice = 0"
  shows "lines e = []"
proof -
  obtain spec g rest where g: "represents g spec (items_total invoice + tax_total invoice)"
      and ls: "lines e = ar_lines invoice fresh g @ rest" and rest: "credit_lines spec (pi_payer_tenant_id invoice) rest"
      and net: "lines_net rest = - (items_total invoice + tax_total invoice)"
    using build_invoice_Inr [OF D ok e] by metis
  have "lines_net ls < 0" if "credit_lines spec (pi_payer_tenant_id invoice) ls" "ls \<noteq> []" for ls
    using that
  proof (induction ls)
    case (Cons l ls)
    then show ?case by (cases "ls = []") (auto simp: plain_line_def)
  qed simp
  then have "rest = []" using rest net z by force
  then show ?thesis using g z by (simp add: ls ar_lines_def represents_def)
qed

text \<open>Small totals always post: every group is on the grid and no larger than the gross.\<close>

lemma grid_value_represented:
  assumes "on_grid q (cur_scale spec)" "0 \<le> q" "q * 10 ^ cur_scale spec < 10 ^ 28" "cur_scale spec \<le> 28"
  shows "\<exists>m. represents m spec q"
proof -
  obtain h where h: "q * 10 ^ cur_scale spec = of_int h" using assms(1) by (auto simp: on_grid_def elim: Ints_cases)
  have "0 \<le> q * 10 ^ cur_scale spec" using assms(2) by simp
  then have "0 \<le> h" unfolding h by simp
  moreover have "of_int h < (of_int (10 ^ 28) :: rat)" using assms(3) h by simp
  then have "h < 10 ^ 28" by (simp only: of_int_less_iff)
  ultimately obtain m where "represents m spec (of_int h / 10 ^ cur_scale spec)"
    using grid_represented [of h spec] assms(4) by auto
  moreover have "of_int h / 10 ^ cur_scale spec = q" by (simp flip: h)
  ultimately show ?thesis by auto
qed

lemma grid_amount_posts:
  assumes D: "decimal_contract D" and s: "cur_scale spec \<le> 28" and e: "group_amount (cur_scale spec) n e" "n \<le> 2 ^ 64"
    and small: "exval e * 10 ^ cur_scale spec < 10 ^ 28"
  shows "\<exists>m. into_posted_exact D e spec = Inr m"
  using grid_value_represented [OF _ _ small s] e group_amount_posts [OF D s e] by (simp add: group_amount_def)

lemma on_grid_sum: "(\<And>x. x \<in> set xs \<Longrightarrow> on_grid (f x) s) \<Longrightarrow> on_grid (\<Sum>x\<leftarrow>xs. f x) s"
  by (induction xs) (simp_all add: on_grid_add, simp add: on_grid_def)

lemma totals_on_grid:
  assumes "invoice_ok invoice" "invoice_valid invoice spec"
  shows "on_grid (items_total invoice + tax_total invoice) (cur_scale spec)"
proof -
  have "on_grid (mval (it_amount_ex_tax i)) (cur_scale spec)" if "i \<in> set (pi_items invoice)" for i
    using that assms posted_on_grid [of "it_amount_ex_tax i"]
    by (auto simp: invoice_ok_def invoice_valid_def item_valid_def list_all_iff posting_ok_def)
  moreover have "on_grid (mval (tx_amount t)) (cur_scale spec)" if "t \<in> set (pi_tax invoice)" for t
    using that assms posted_on_grid [of "tx_amount t"]
    by (auto simp: invoice_ok_def invoice_valid_def list_all_iff posting_ok_def)
  ultimately show ?thesis unfolding items_total_def tax_total_def by (intro on_grid_add on_grid_sum)
qed

lemma revenue_lines_total:
  assumes D: "decimal_contract D" and s: "cur_scale spec \<le> 28" and n: "n \<le> 2 ^ 64"
    and "\<forall>(k, a)\<in>set m. group_amount (cur_scale spec) n (ra_amount a) \<and> exval (ra_amount a) * 10 ^ cur_scale spec < 10 ^ 28"
  shows "\<exists>ls. revenue_lines D invoice spec fresh j m = Inr ls"
  using assms(4)
proof (induction m arbitrary: j)
  case (Cons p m)
  obtain k a where p: "p = (k, a)" by fastforce
  obtain v where "into_posted_exact D (ra_amount a) spec = Inr v"
    using Cons.prems grid_amount_posts [OF D s _ n, of "ra_amount a"] by (auto simp: p)
  moreover have "\<exists>ls. revenue_lines D invoice spec fresh i m = Inr ls" for i using Cons by simp
  ultimately show ?case by (simp add: p)
qed simp

lemma deferred_lines_total:
  assumes D: "decimal_contract D" and s: "cur_scale spec \<le> 28" and n: "n \<le> 2 ^ 64"
    and "\<forall>(k, a)\<in>set m. group_amount (cur_scale spec) n (da_amount a) \<and> exval (da_amount a) * 10 ^ cur_scale spec < 10 ^ 28"
  shows "\<exists>ls. deferred_lines D invoice spec fresh j m = Inr ls"
  using assms(4)
proof (induction m arbitrary: j)
  case (Cons p m)
  obtain k a where p: "p = (k, a)" by fastforce
  obtain v where "into_posted_exact D (da_amount a) spec = Inr v"
    using Cons.prems grid_amount_posts [OF D s _ n, of "da_amount a"] by (auto simp: p)
  moreover have "\<exists>ls. deferred_lines D invoice spec fresh i m = Inr ls" for i using Cons by simp
  ultimately show ?case by (simp add: p)
qed simp

lemma group_le_total:
  assumes "\<forall>(k, a)\<in>set m. 0 \<le> exval (f a)" "(k, a) \<in> set m"
  shows "exval (f a) \<le> (\<Sum>(k, a)\<leftarrow>m. exval (f a))"
proof -
  have "exval (f a) \<in> set (map (\<lambda>(k, a). exval (f a)) m)" using assms(2) by force
  then show ?thesis using assms(1) by (intro member_le_sum_list) auto
qed

lemma build_invoice_total:
  assumes D: "decimal_contract D" and ok: "invoice_ok invoice" and v: "invoice_valid invoice spec"
    and len: "length mapped = length (pi_items invoice)"
    and small: "(items_total invoice + tax_total invoice) * 10 ^ cur_scale spec < 10 ^ 28"
  shows "\<exists>e. build_invoice_entry D fresh invoice mapped = Inr e"
proof -
  let ?n = "2 * length (zip (pi_items invoice) mapped)" and ?s = "cur_scale spec"
  let ?G = "items_total invoice + tax_total invoice"
  have s: "?s \<le> 28" and n: "?n \<le> 2 ^ 64" using valid_scale [OF ok v] ok len by (simp_all add: invoice_ok_def)
  obtain revs deff where f: "fold_result (group_item D) (zip (pi_items invoice) mapped) ([], []) = Inr (revs, deff)"
      and g: "grouped ?s (zip (pi_items invoice) mapped) (revs, deff)"
    using invoice_groups [OF D ok v len] .
  have R: "\<forall>(k, a)\<in>set revs. group_amount ?s ?n (ra_amount a)" and C: "\<forall>(k, a)\<in>set deff. group_amount ?s ?n (da_amount a)"
    using g by (auto simp: grouped_def store_of_def)
  then have nn: "\<forall>(k, a)\<in>set revs. 0 \<le> exval (ra_amount a)" "\<forall>(k, a)\<in>set deff. 0 \<le> exval (da_amount a)"
    by (auto simp: group_amount_def)
  have tax: "0 \<le> tax_total invoice"
    using v by (auto simp: tax_total_def invoice_valid_def list_all_iff intro!: sum_list_nonneg)
  have sums: "0 \<le> (\<Sum>(k, a)\<leftarrow>revs. exval (ra_amount a))" "0 \<le> (\<Sum>(k, a)\<leftarrow>deff. exval (da_amount a))"
    using nn by (auto intro!: sum_list_nonneg)
  have le: "exval (ra_amount a) \<le> ?G" if "(k, a) \<in> set revs" for k a
    using group_le_total [of revs ra_amount, OF nn(1) that] sums tax grouped_totals(1) [OF g len] by linarith
  have le': "exval (da_amount a) \<le> ?G" if "(k, a) \<in> set deff" for k a
    using group_le_total [of deff da_amount, OF nn(2) that] sums tax grouped_totals(1) [OF g len] by linarith
  have below: "q * 10 ^ ?s < 10 ^ 28" if "q \<le> ?G" for q
    by (rule le_less_trans [OF mult_right_mono [OF that] small]) simp
  have r: "\<exists>ls. revenue_lines D invoice spec fresh j revs = Inr ls" for j
    using R le below by (intro revenue_lines_total [OF D s n]) blast
  have d: "\<exists>ls. deferred_lines D invoice spec fresh j deff = Inr ls" for j
    using C le' below by (intro deferred_lines_total [OF D s n]) blast
  have "0 \<le> ?G" using sums tax grouped_totals(1) [OF g len] by linarith
  then have "\<exists>g. gross D invoice = Inr g"
    unfolding gross_Inr [OF D ok v] by (intro grid_value_represented totals_on_grid [OF ok v] small s)
  then obtain g' where g': "gross D invoice = Inr g'" ..
  let ?j = "1 + length (ar_lines invoice fresh g')"
  obtain rls where rls: "revenue_lines D invoice spec fresh ?j revs = Inr rls" using r by blast
  obtain dls where dls: "deferred_lines D invoice spec fresh (?j + length rls) deff = Inr dls" using d by blast
  have spec: "validated_spec D invoice = Inr spec" using v by (simp add: validated_spec_Inr [OF D])
  show ?thesis
    unfolding build_invoice_entry_def Let_def spec g' rbind_simps ar_lines_run [OF D] f map_err_simps prod.case rls dls
    using len by simp
qed

end
