(* ===== verification/Straight_Line.thy ===== *)
theory Straight_Line
  imports Recognition
begin

text \<open>
  When the straight-line layout of \<open>ledger/src/domain/recognition/builder.rs\<close> succeeds: an exact criterion
  on the deferred amount and the number of periods.
\<close>

text \<open>The last share takes the residual, which can be negative: the layout is then refused.\<close>

lemma unit_weight_valid:
  assumes "decimal_contract D"
  shows "\<exists>a. validate_amount D (Decimal 1 0) = Inr a"
  using posted_try_new_complete [OF assms, of "Decimal 1 0" "\<lparr>code = [], cur_scale = 28\<rparr>"]
  by (auto simp: posted_try_new_def dec_fits_numeric)

lemma half_even_nonneg: "0 \<le> q \<Longrightarrow> 0 \<le> half_even q"
  using half_even_nearest [of q] by linarith

lemma equal_share_nonneg: "0 \<le> mval m \<Longrightarrow> 0 \<le> equal_share m n"
  by (simp add: equal_share_def share_value_def half_even_nonneg)

lemma sum_list_but_last:
  fixes xs :: "rat list"
  assumes "xs \<noteq> []" "\<forall>j<length xs - 1. xs ! j = q"
  shows "sum_list xs = of_nat (length xs - 1) * q + last xs"
proof -
  have "butlast xs = replicate (length xs - 1) q" using assms(2) by (simp add: list_eq_iff_nth_eq nth_butlast)
  moreover have "sum_list xs = sum_list (butlast xs) + last xs"
    using assms(1) by (metis append_butlast_last_id sum_list.append sum_list.Cons sum_list.Nil add.right_neutral)
  ultimately show ?thesis by (simp add: sum_list_replicate)
qed

lemma plan_straight_line_outcome:
  assumes D: "decimal_contract D" and m: "posting_ok deferred" "0 \<le> mval deferred" and first: "month_index first = Some t"
    and n: "0 < n" "n < 2 ^ 31" "n \<le> mx" and room: "mval deferred * 10 ^ cur_scale (currency deferred) + of_nat n < 10 ^ 28"
  shows "if of_nat (n - 1) * equal_share deferred n \<le> mval deferred
    then \<exists>segs. plan_straight_line D mx deferred n first = Inr segs
    else plan_straight_line D mx deferred n first = Inl D_AmountOutOfRange"
proof -
  let ?ws = "replicate n (Decimal 1 0)"
  have s: "cur_scale (currency deferred) \<le> 28" "posted_ok deferred" using m(1) by (simp_all add: posting_ok_def)
  have "\<exists>out. allocate D deferred ?ws Last = Inr out"
    using s n m(2) room unit_weight_valid [OF D] by (intro allocate_total [OF D]) (auto simp: unit_weights dec_fits_numeric sum_list_replicate)
  then obtain ms where ms: "allocate D deferred ?ws Last = Inr ms" by blast
  obtain i where i: "residual_index D Last ?ws n = Some i"
      and A: "length ms = n" "\<And>m. m \<in> set ms \<Longrightarrow> posted_ok m \<and> currency m = currency deferred"
        "(\<Sum>m\<leftarrow>ms. mval m) = mval deferred"
        "\<And>j. j < n \<Longrightarrow> j \<noteq> i \<Longrightarrow> mval (ms ! j) = share_value deferred (of_nat n) (dval (?ws ! j))"
    using allocate_Inr [OF D s(1) ms] unfolding unit_weights length_replicate by metis
  have "i = n - 1" using i n(1) by (simp add: residual_index_def)
  then have shares: "mval (ms ! j) = equal_share deferred n" if "j < n - 1" for j
    using A(4) [of j] that by (simp add: equal_share_def dec_fits_numeric)
  have ne: "ms \<noteq> []" using A(1) n(1) by auto
  have total: "mval deferred = of_nat (n - 1) * equal_share deferred n + mval (last ms)"
    using sum_list_but_last [of "map mval ms" "equal_share deferred n"] shares A(1,3) ne by (simp add: last_map)
  have "list_ex (\<lambda>m. dec_negative (amount m)) ms \<longleftrightarrow> mval (last ms) < 0"
  proof -
    have "0 \<le> mval (ms ! j)" if "j < n - 1" for j
      using shares [OF that] equal_share_nonneg [OF m(2)] by simp
    then have "mval m < 0 \<longrightarrow> m = last ms" if "m \<in> set ms" for m
      using that A(1) ne by (metis One_nat_def Suc_pred in_set_conv_nth last_conv_nth length_greater_0_conv less_Suc_eq not_less)
    then show ?thesis using A(2) negative_posted last_in_set [OF ne] by (auto simp: list_ex_iff)
  qed
  then show ?thesis
    using total n lay_out_run [OF first, of 0 ms] A(1) by (simp add: plan_straight_line_def segment_count_def ms)
qed

end
