(* ===== verification/Aging.thy ===== *)
theory Aging
  imports Digits Scaled_Sum Ledger_Types
begin

text \<open>
  \<open>ledger/src/domain/invoice/policy.rs\<close> and \<open>aging.rs\<close>: the tenant's invoice policy and the
  days-past-due buckets of the open receivables.  Text is ASCII, so \<open>trim\<close> strips the ASCII white space.
  A panic (an \<open>i64\<close> overflow under overflow checks, an index out of range) is a value of its own.
\<close>

section \<open>Policy\<close>

datatype policy_error = UnknownMissingMappingMode string | InvalidAgingThresholds

datatype missing_mapping_mode = ModeSuspense | HardBlock

fun missing_mapping_as_str :: "missing_mapping_mode \<Rightarrow> string" where
  "missing_mapping_as_str ModeSuspense = ''SUSPENSE''"
| "missing_mapping_as_str HardBlock = ''HARD_BLOCK''"

definition missing_mapping_parse :: "string \<Rightarrow> policy_error + missing_mapping_mode" where
  "missing_mapping_parse s =
     (if s = ''SUSPENSE'' then Inr ModeSuspense
      else if s = ''HARD_BLOCK'' then Inr HardBlock
      else Inl (UnknownMissingMappingMode s))"

definition fits_i64 :: "int \<Rightarrow> bool" where
  "fits_i64 k \<longleftrightarrow> - (2 ^ 63) \<le> k \<and> k < 2 ^ 63"

record aging_thresholds =
  bounds :: "int list"

definition default_thresholds :: aging_thresholds where
  "default_thresholds = \<lparr>bounds = [30, 60, 90]\<rparr>"

definition MAX_BOUNDS :: nat where
  "MAX_BOUNDS = 12"

fun not_increasing :: "int list \<Rightarrow> bool" where
  "not_increasing (a # b # bs) \<longleftrightarrow> b \<le> a \<or> not_increasing (b # bs)"
| "not_increasing _ \<longleftrightarrow> False"

definition thresholds_new :: "int list \<Rightarrow> policy_error + aging_thresholds" where
  "thresholds_new bs =
     (if bs = [] then Inl InvalidAgingThresholds
      else if MAX_BOUNDS < length bs then Inl InvalidAgingThresholds
      else if bs ! 0 \<le> 0 then Inl InvalidAgingThresholds
      else if not_increasing bs then Inl InvalidAgingThresholds
      else Inr \<lparr>bounds = bs\<rparr>)"

definition is_space :: "char \<Rightarrow> bool" where
  "is_space c \<longleftrightarrow> c = CHR '' '' \<or> (9 \<le> (of_char c :: nat) \<and> (of_char c :: nat) \<le> 13)"

definition trim :: "string \<Rightarrow> string" where
  "trim s = rev (dropWhile is_space (rev (dropWhile is_space s)))"

fun split_comma :: "string \<Rightarrow> string list" where
  "split_comma [] = [[]]"
| "split_comma (c # s) =
     (if c = CHR '','' then [] # split_comma s
      else (case split_comma s of t # ts \<Rightarrow> (c # t) # ts | [] \<Rightarrow> [[c]]))"

definition parse_i64 :: "string \<Rightarrow> int option" where
  "parse_i64 s = (case parse_int s of Some k \<Rightarrow> if fits_i64 k then Some k else None | None \<Rightarrow> None)"

definition parse_csv :: "string \<Rightarrow> policy_error + aging_thresholds" where
  "parse_csv s =
     rbind (map_result (\<lambda>t. ok_or InvalidAgingThresholds (parse_i64 (trim t))) (split_comma s)) thresholds_new"

fun join_comma :: "string list \<Rightarrow> string" where
  "join_comma [] = []"
| "join_comma [t] = t"
| "join_comma (t # u # ts) = t @ '','' @ join_comma (u # ts)"

definition to_csv :: "aging_thresholds \<Rightarrow> string" where
  "to_csv t = join_comma (map show_int (bounds t))"

record posting_policy =
  pp_missing_mapping_mode :: missing_mapping_mode
  pp_aging_thresholds :: aging_thresholds

definition default_policy :: posting_policy where
  "default_policy = \<lparr>pp_missing_mapping_mode = ModeSuspense, pp_aging_thresholds = default_thresholds\<rparr>"

section \<open>Aging\<close>

record ar_invoice_balance =
  ab_payer_tenant_id :: uuid
  ab_account_id :: uuid
  ab_invoice_id :: string
  ab_balance :: posted_money
  ab_due_date :: "naive_date option"

record aging_bucket =
  bk_payer_tenant_id :: uuid
  bk_bucket :: string
  bk_amount :: posted_money

datatype aging_failure = AgingExact exact_error | AgingPanic

definition BUCKET_CURRENT :: string where
  "BUCKET_CURRENT = ''current''"

definition days_past_due :: "naive_date option \<Rightarrow> naive_date \<Rightarrow> int" where
  "days_past_due due today = (case due of Some d \<Rightarrow> today - d | None \<Rightarrow> 0)"

fun first_bound :: "int \<Rightarrow> nat \<Rightarrow> int list \<Rightarrow> nat option" where
  "first_bound days i [] = None"
| "first_bound days i (b # bs) = (if days \<le> b then Some (i + 1) else first_bound days (Suc i) bs)"

definition bucket_rank :: "int \<Rightarrow> int list \<Rightarrow> nat" where
  "bucket_rank days bs =
     (if days \<le> 0 then 0 else (case first_bound days 0 bs of Some r \<Rightarrow> r | None \<Rightarrow> length bs + 1))"

fun range_labels :: "int \<Rightarrow> int list \<Rightarrow> aging_failure + string list" where
  "range_labels lower [] = Inr []"
| "range_labels lower (b # bs) =
     rbind (ok_or AgingPanic (if fits_i64 (b + 1) then Some (b + 1) else None)) (\<lambda>lower'.
     rbind (range_labels lower' bs) (\<lambda>ls. Inr ((show_int lower @ ''-'' @ show_int b) # ls)))"

definition bucket_labels :: "int list \<Rightarrow> aging_failure + string list" where
  "bucket_labels bs =
     rbind (range_labels 1 bs) (\<lambda>ls.
       Inr (BUCKET_CURRENT # ls @ [show_int (if bs = [] then 0 else last bs) @ ''+'']))"

definition spec_row ::
  "ar_invoice_balance \<Rightarrow> ((uuid \<times> string) \<times> currency_spec) list \<Rightarrow> aging_failure + ((uuid \<times> string) \<times> currency_spec) list" where
  "spec_row row specs =
     (let spec = currency (ab_balance row); key = (ab_payer_tenant_id row, code spec)
      in case map_of specs key of
           Some stored \<Rightarrow> if cur_scale stored \<noteq> cur_scale spec then Inl (AgingExact (MoneyErr ScaleMismatch)) else Inr specs
         | None \<Rightarrow> Inr (btree_insert key spec specs))"

type_synonym age_key = "uuid \<times> string \<times> nat"

definition age_row ::
  "decimal_ops \<Rightarrow> naive_date \<Rightarrow> int list \<Rightarrow> ar_invoice_balance \<Rightarrow> (age_key \<times> scaled_sum) list
   \<Rightarrow> aging_failure + (age_key \<times> scaled_sum) list" where
  "age_row D today bs row acc =
     (if dec_le D (amount (ab_balance row)) dec_zero then Inr acc
      else let rank = bucket_rank (days_past_due (ab_due_date row) today) bs;
               spec = currency (ab_balance row);
               key = (ab_payer_tenant_id row, code spec, rank);
               sofar = (case map_of acc key of Some t \<Rightarrow> t | None \<Rightarrow> sum_zero (cur_scale spec))
           in rbind (map_err AgingExact (add_decimal D (amount (ab_balance row)) sofar)) (\<lambda>t.
                Inr (btree_insert key t acc)))"

definition emit_bucket ::
  "decimal_ops \<Rightarrow> ((uuid \<times> string) \<times> currency_spec) list \<Rightarrow> string list \<Rightarrow> age_key \<times> scaled_sum
   \<Rightarrow> aging_failure + aging_bucket" where
  "emit_bucket D specs labels e =
     (case e of ((payer, c, rank), t) \<Rightarrow>
       rbind (ok_or (AgingExact (MoneyErr CurrencyMismatch)) (map_of specs (payer, c))) (\<lambda>spec.
       rbind (ok_or AgingPanic (if rank < length labels then Some (labels ! rank) else None)) (\<lambda>label.
       rbind (map_err AgingExact (to_posted D t spec)) (\<lambda>m.
         Inr \<lparr>bk_payer_tenant_id = payer, bk_bucket = label, bk_amount = m\<rparr>))))"

definition ar_aging ::
  "decimal_ops \<Rightarrow> ar_invoice_balance list \<Rightarrow> naive_date \<Rightarrow> aging_thresholds \<Rightarrow> aging_failure + aging_bucket list" where
  "ar_aging D rows today thresholds =
     rbind (bucket_labels (bounds thresholds)) (\<lambda>labels.
     rbind (fold_result spec_row rows []) (\<lambda>specs.
     rbind (fold_result (age_row D today (bounds thresholds)) rows []) (\<lambda>acc.
       map_result (emit_bucket D specs labels) acc)))"

section \<open>Thresholds read back as written\<close>

definition thresholds_ok :: "aging_thresholds \<Rightarrow> bool" where
  "thresholds_ok t \<longleftrightarrow> bounds t \<noteq> [] \<and> length (bounds t) \<le> MAX_BOUNDS \<and> 0 < hd (bounds t) \<and>
     sorted_wrt (<) (bounds t) \<and> list_all fits_i64 (bounds t)"

lemma not_increasing_sorted: "not_increasing bs \<longleftrightarrow> \<not> sorted_wrt (<) bs"
proof (induction bs rule: not_increasing.induct)
  case (1 a b bs)
  then show ?case by (auto simp: sorted_wrt2 not_less simp del: sorted_wrt.simps)
qed simp_all

lemma thresholds_new_Inr: "thresholds_new bs = Inr t \<longleftrightarrow>
    bs \<noteq> [] \<and> length bs \<le> MAX_BOUNDS \<and> 0 < hd bs \<and> sorted_wrt (<) bs \<and> t = \<lparr>bounds = bs\<rparr>"
  by (auto simp: thresholds_new_def not_increasing_sorted not_less hd_conv_nth)

lemma parse_i64_fits: "parse_i64 s = Some k \<Longrightarrow> fits_i64 k"
  by (auto simp: parse_i64_def split: option.splits if_splits)

lemma parse_csv_ok:
  assumes "parse_csv s = Inr t"
  shows "thresholds_ok t"
proof -
  obtain bs where bs: "map_result (\<lambda>t. ok_or InvalidAgingThresholds (parse_i64 (trim t))) (split_comma s) = Inr bs"
      "thresholds_new bs = Inr t"
    using assms by (auto simp: parse_csv_def)
  have "fits_i64 b" if "b \<in> set bs" for b
    using that bs(1) parse_i64_fits by (auto simp: map_result_Inr_iff list_all2_conv_all_nth in_set_conv_nth)
  then show ?thesis using bs(2) by (auto simp: thresholds_ok_def thresholds_new_Inr list_all_iff)
qed

text \<open>The printed integers hold neither a comma nor white space.\<close>

lemma show_int_chars: "c \<in> set (show_int k) \<Longrightarrow> is_ascii_digit c \<or> c = CHR ''-''"
  using show_nat_digits by (auto simp: show_int_def list_all_iff split: if_splits)

lemma show_int_unspaced: "c \<in> set (show_int k) \<Longrightarrow> c \<noteq> CHR '','' \<and> \<not> is_space c"
  using show_int_chars by (force simp: is_ascii_digit_def is_space_def)

lemma trim_plain: "(\<And>c. c \<in> set s \<Longrightarrow> \<not> is_space c) \<Longrightarrow> trim s = s"
  by (simp add: trim_def dropWhile_eq_self_iff) (metis dropWhile_eq_self_iff hd_in_set list.set_sel(1) rev_rev_ident set_rev)

lemma parse_int_show_int: "parse_int (show_int k) = Some k"
proof (cases "k < 0")
  case True
  then show ?thesis
    using show_nat_digits [of "nat (- k)"] by (simp add: parse_int_def show_int_def parse_digits_nat_def)
next
  case False
  then show ?thesis using show_nat_digits [of "nat k"] by (simp add: show_int_def parse_int_digits)
qed

lemma split_comma_plain: "CHR '','' \<notin> set t \<Longrightarrow> split_comma t = [t]"
  by (induction t) auto

lemma split_comma_append: "CHR '','' \<notin> set t \<Longrightarrow> split_comma (t @ CHR '','' # s) = t # split_comma s"
  by (induction t) auto

lemma split_join_comma:
  assumes "ts \<noteq> []" "\<And>t. t \<in> set ts \<Longrightarrow> CHR '','' \<notin> set t"
  shows "split_comma (join_comma ts) = ts"
  using assms by (induction ts rule: join_comma.induct) (simp_all add: split_comma_plain split_comma_append)

lemma parse_to_csv:
  assumes "thresholds_ok t"
  shows "parse_csv (to_csv t) = Inr t"
proof -
  have "split_comma (to_csv t) = map show_int (bounds t)"
    using assms show_int_unspaced unfolding to_csv_def thresholds_ok_def by (intro split_join_comma) force+
  moreover have "map_result (\<lambda>u. ok_or InvalidAgingThresholds (parse_i64 (trim u))) (map show_int bs) = Inr bs"
    if "list_all fits_i64 bs" for bs
    using that
  proof (induction bs)
    case (Cons b bs)
    have "trim (show_int b) = show_int b" using show_int_unspaced by (intro trim_plain) blast
    then show ?case using Cons by (simp add: parse_i64_def parse_int_show_int)
  qed simp
  ultimately show ?thesis using assms by (simp add: parse_csv_def thresholds_new_Inr thresholds_ok_def)
qed

section \<open>Ranks and labels\<close>

lemma first_bound_Some:
  "first_bound days i bs = Some r \<longleftrightarrow> (\<exists>j<length bs. r = i + j + 1 \<and> days \<le> bs ! j \<and> (\<forall>k<j. bs ! k < days))"
proof (induction bs arbitrary: i)
  case (Cons b bs)
  show ?case
  proof (cases "days \<le> b")
    case True
    then show ?thesis by (auto intro!: exI [of _ 0]) (metis gr0I not_less nth_Cons_0)
  next
    case False
    then have "(\<exists>j<length (b # bs). r = i + j + 1 \<and> days \<le> (b # bs) ! j \<and> (\<forall>k<j. (b # bs) ! k < days)) \<longleftrightarrow>
        (\<exists>j<length bs. r = Suc i + j + 1 \<and> days \<le> bs ! j \<and> (\<forall>k<j. bs ! k < days))"
      by (auto simp: Ex_less_Suc2 All_less_Suc2)
    with False Cons show ?thesis by simp
  qed
qed simp

lemma first_bound_None: "first_bound days i bs = None \<longleftrightarrow> (\<forall>b\<in>set bs. b < days)"
  by (induction bs arbitrary: i) auto

text \<open>The rank of a day count: the bucket whose range \<open>(lower, upper]\<close> holds it.\<close>

definition rank_holds :: "int list \<Rightarrow> int \<Rightarrow> nat \<Rightarrow> bool" where
  "rank_holds bs days r \<longleftrightarrow>
     (if r = 0 then days \<le> 0
      else r \<le> length bs + 1 \<and> (if r = 1 then 0 else bs ! (r - 2)) < days \<and> (r \<le> length bs \<longrightarrow> days \<le> bs ! (r - 1)))"

lemma bucket_rank_holds:
  assumes "thresholds_ok t"
  shows "rank_holds (bounds t) days (bucket_rank days (bounds t))"
proof (cases "first_bound days 0 (bounds t)")
  case None
  then have "\<forall>b\<in>set (bounds t). b < days" by (simp add: first_bound_None)
  then have "(bounds t) ! (length (bounds t) - 1) < days" using assms by (simp add: thresholds_ok_def)
  then show ?thesis
    using None assms by (auto simp: rank_holds_def bucket_rank_def thresholds_ok_def)
next
  case (Some r)
  then obtain j where "j < length (bounds t)" "r = j + 1" "days \<le> bounds t ! j" "\<forall>k<j. bounds t ! k < days"
    by (auto simp: first_bound_Some)
  then show ?thesis using Some by (cases j) (auto simp: rank_holds_def bucket_rank_def)
qed

lemma bucket_rank_le: "bucket_rank days bs \<le> length bs + 1"
  by (auto simp: bucket_rank_def first_bound_Some split: option.splits)

lemma range_labels_Cons:
  "range_labels lower (b # bs) =
     (if fits_i64 (b + 1) then rbind (range_labels (b + 1) bs) (\<lambda>ls. Inr ((show_int lower @ ''-'' @ show_int b) # ls))
      else Inl AgingPanic)"
  by simp

declare range_labels.simps(2) [simp del]

lemma range_labels_cases:
  "if \<forall>b\<in>set bs. fits_i64 (b + 1) then \<exists>ls. range_labels lower bs = Inr ls \<and> length ls = length bs
   else range_labels lower bs = Inl AgingPanic"
proof (induction bs arbitrary: lower)
  case (Cons b bs)
  show ?case
    using Cons [of "b + 1"] by (cases "range_labels (b + 1) bs") (auto simp: range_labels_Cons split: if_splits)
qed simp

lemma sorted_last: "sorted_wrt (<) (bs :: int list) \<Longrightarrow> b \<in> set bs \<Longrightarrow> b \<le> last bs"
proof (induction bs)
  case (Cons a bs)
  then show ?case using last_in_set [of bs] by (cases "bs = []") (auto simp: less_imp_le)
qed simp

text \<open>The only bound the labels cannot step past is the largest \<open>i64\<close>.\<close>

lemma bounds_step:
  assumes t: "thresholds_ok t"
  shows "(\<forall>b\<in>set (bounds t). fits_i64 (b + 1)) \<longleftrightarrow> last (bounds t) \<noteq> 2 ^ 63 - 1"
proof -
  have last: "last (bounds t) \<in> set (bounds t)" using t by (simp add: thresholds_ok_def)
  have fits: "fits_i64 b" "b \<le> last (bounds t)" if "b \<in> set (bounds t)" for b
    using that t sorted_last by (auto simp: thresholds_ok_def list_all_iff)
  have "fits_i64 (last (bounds t))" using fits [OF last] by simp
  show ?thesis
  proof
    assume "\<forall>b\<in>set (bounds t). fits_i64 (b + 1)"
    with last have "fits_i64 (last (bounds t) + 1)" by blast
    then show "last (bounds t) \<noteq> 2 ^ 63 - 1" by (auto simp: fits_i64_def)
  next
    assume "last (bounds t) \<noteq> 2 ^ 63 - 1"
    with \<open>fits_i64 (last (bounds t))\<close> have "last (bounds t) < 2 ^ 63 - 1" by (simp add: fits_i64_def)
    then have "fits_i64 (b + 1)" if "b \<in> set (bounds t)" for b
      using fits [OF that] by (simp add: fits_i64_def)
    then show "\<forall>b\<in>set (bounds t). fits_i64 (b + 1)" by blast
  qed
qed

lemma bucket_labels_cases:
  assumes "thresholds_ok t"
  shows "if last (bounds t) = 2 ^ 63 - 1 then bucket_labels (bounds t) = Inl AgingPanic
    else \<exists>labels. bucket_labels (bounds t) = Inr labels \<and> length labels = length (bounds t) + 2"
  using range_labels_cases [of "bounds t" 1] bounds_step [OF assms] by (auto simp: bucket_labels_def)

section \<open>The buckets hold the open receivables\<close>

definition row_key :: "naive_date \<Rightarrow> int list \<Rightarrow> ar_invoice_balance \<Rightarrow> age_key" where
  "row_key today bs r =
     (ab_payer_tenant_id r, code (currency (ab_balance r)), bucket_rank (days_past_due (ab_due_date r) today) bs)"

definition open_rows :: "ar_invoice_balance list \<Rightarrow> ar_invoice_balance list" where
  "open_rows rows = filter (\<lambda>r. 0 < mval (ab_balance r)) rows"

definition age_total :: "naive_date \<Rightarrow> int list \<Rightarrow> ar_invoice_balance list \<Rightarrow> age_key \<Rightarrow> rat" where
  "age_total today bs rows k = (\<Sum>r\<leftarrow>open_rows rows. if row_key today bs r = k then mval (ab_balance r) else 0)"

definition age_keys :: "naive_date \<Rightarrow> int list \<Rightarrow> ar_invoice_balance list \<Rightarrow> age_key list" where
  "age_keys today bs rows = sorted_list_of_set (row_key today bs ` set (open_rows rows))"

definition row_grain :: "ar_invoice_balance \<Rightarrow> uuid \<times> string" where
  "row_grain r = (ab_payer_tenant_id r, code (currency (ab_balance r)))"

definition scales_consistent :: "ar_invoice_balance list \<Rightarrow> bool" where
  "scales_consistent rows \<longleftrightarrow>
     (\<forall>r\<in>set rows. \<forall>r'\<in>set rows. row_grain r = row_grain r' \<longrightarrow> currency (ab_balance r) = currency (ab_balance r'))"

definition specs_of :: "ar_invoice_balance list \<Rightarrow> ((uuid \<times> string) \<times> currency_spec) list \<Rightarrow> bool" where
  "specs_of rows specs \<longleftrightarrow> sorted_keys specs \<and>
     (\<forall>r\<in>set rows. map_of specs (row_grain r) = Some (currency (ab_balance r))) \<and>
     (\<forall>k v. map_of specs k = Some v \<longrightarrow> (\<exists>r\<in>set rows. k = row_grain r \<and> v = currency (ab_balance r)))"

lemma specs_of_rules:
  assumes "specs_of rows specs"
  shows "sorted_keys specs" "r \<in> set rows \<Longrightarrow> map_of specs (row_grain r) = Some (currency (ab_balance r))"
    and "map_of specs k = Some v \<Longrightarrow> \<exists>r\<in>set rows. k = row_grain r \<and> v = currency (ab_balance r)"
  using assms unfolding specs_of_def by blast+

lemma spec_row_run:
  "spec_row r specs =
     (case map_of specs (row_grain r) of
        Some stored \<Rightarrow> if cur_scale stored \<noteq> cur_scale (currency (ab_balance r)) then Inl (AgingExact (MoneyErr ScaleMismatch)) else Inr specs
      | None \<Rightarrow> Inr (btree_insert (row_grain r) (currency (ab_balance r)) specs))"
  unfolding spec_row_def Let_def row_grain_def ..

lemma spec_row_step:
  assumes S: "specs_of rows specs" and step: "spec_row r specs = Inr specs'"
  shows "specs_of (rows @ [r]) specs'"
proof (cases "map_of specs (row_grain r)")
  case None
  then have e: "specs' = btree_insert (row_grain r) (currency (ab_balance r)) specs"
    using step by (simp add: spec_row_run)
  note m = map_of_btree_insert [OF specs_of_rules(1) [OF S], of "row_grain r" "currency (ab_balance r)"]
  have "row_grain r' \<noteq> row_grain r" if "r' \<in> set rows" for r' using specs_of_rules(2) [OF S that] None by auto
  then show ?thesis
    unfolding specs_of_def e m
    using btree_insert_sorted [OF specs_of_rules(1) [OF S]] specs_of_rules(2,3) [OF S] by auto
next
  case (Some v)
  then have e: "specs' = specs" "cur_scale v = cur_scale (currency (ab_balance r))"
    using step by (auto simp: spec_row_run split: if_splits)
  obtain r' where r': "r' \<in> set rows" "row_grain r = row_grain r'" "v = currency (ab_balance r')"
    using specs_of_rules(3) [OF S Some] by blast
  then have "v = currency (ab_balance r)" using e(2) by (simp add: row_grain_def)
  then show ?thesis
    unfolding specs_of_def e(1) using Some specs_of_rules [OF S] by auto
qed

lemma spec_rows_Inr:
  assumes "fold_result spec_row rows [] = Inr specs"
  shows "specs_of rows specs" "scales_consistent rows"
proof -
  have "specs_of [] []" by (simp add: specs_of_def)
  then show s: "specs_of rows specs"
    by (rule fold_result_invariant [where P = specs_of, OF assms]) (rule spec_row_step)
  have "currency (ab_balance r) = currency (ab_balance r')"
    if "r \<in> set rows" "r' \<in> set rows" "row_grain r = row_grain r'" for r r'
    using specs_of_rules(2) [OF s that(1)] specs_of_rules(2) [OF s that(2)] that(3) by simp
  then show "scales_consistent rows" unfolding scales_consistent_def by blast
qed

lemma spec_rows_total:
  assumes "scales_consistent rows"
  shows "\<exists>specs. fold_result spec_row rows [] = Inr specs"
  using assms
proof (induction rows rule: rev_induct)
  case (snoc r rows)
  have "scales_consistent rows" using snoc.prems unfolding scales_consistent_def set_append by blast
  then obtain specs where f: "fold_result spec_row rows [] = Inr specs" using snoc.IH by blast
  have "v = currency (ab_balance r)" if m: "map_of specs (row_grain r) = Some v" for v
  proof -
    obtain r' where "r' \<in> set rows" "row_grain r = row_grain r'" "v = currency (ab_balance r')"
      using specs_of_rules(3) [OF spec_rows_Inr(1) [OF f] m] by blast
    moreover have "r \<in> set (rows @ [r])" "r' \<in> set (rows @ [r])" using calculation by simp_all
    ultimately show ?thesis using snoc.prems unfolding scales_consistent_def by metis
  qed
  then have "\<exists>specs'. spec_row r specs = Inr specs'" by (auto simp: spec_row_run split: option.splits)
  then show ?case using f by (simp add: fold_result_append)
qed simp

text \<open>The running sums after some rows.\<close>

definition aged :: "naive_date \<Rightarrow> int list \<Rightarrow> ar_invoice_balance list \<Rightarrow> (age_key \<times> scaled_sum) list \<Rightarrow> bool" where
  "aged today bs rows acc \<longleftrightarrow> sorted_keys acc \<and> fst ` set acc = row_key today bs ` set (open_rows rows) \<and>
     (\<forall>k t. map_of acc k = Some t \<longrightarrow> sum_ok t \<and> sum_value t = age_total today bs rows k)"

lemma age_total_snoc:
  "age_total today bs (rows @ [r]) k =
     age_total today bs rows k + (if 0 < mval (ab_balance r) \<and> row_key today bs r = k then mval (ab_balance r) else 0)"
  by (simp add: age_total_def open_rows_def)

lemma open_rows_snoc: "open_rows (rows @ [r]) = open_rows rows @ (if 0 < mval (ab_balance r) then [r] else [])"
  by (simp add: open_rows_def)

lemma dec_grid_age_total: "dec_grid (length rows) (age_total today bs rows k)"
proof (induction rows rule: rev_induct)
  case (snoc r rows)
  have "dec_grid 1 (if 0 < mval (ab_balance r) \<and> row_key today bs r = k then mval (ab_balance r) else 0)"
    using dec_grid_dval by simp
  from dec_grid_add [OF snoc this] show ?case by (simp add: age_total_snoc)
qed (simp add: age_total_def open_rows_def)

lemma age_total_absent: "k \<notin> row_key today bs ` set (open_rows rows) \<Longrightarrow> age_total today bs rows k = 0"
proof -
  assume "k \<notin> row_key today bs ` set (open_rows rows)"
  then have "map (\<lambda>r. if row_key today bs r = k then mval (ab_balance r) else 0) (open_rows rows) = map (\<lambda>_. 0) (open_rows rows)"
    by auto
  then show ?thesis unfolding age_total_def by (metis sum_list_0)
qed

lemma age_row_step:
  assumes D: "decimal_contract D" and A: "aged today bs rows acc" and n: "Suc (length rows) \<le> 2 ^ 64"
    and s: "cur_scale (currency (ab_balance r)) \<le> 28"
  shows "\<exists>acc'. age_row D today bs r acc = Inr acc' \<and> aged today bs (rows @ [r]) acc'"
proof (cases "0 < mval (ab_balance r)")
  case False
  then have "age_row D today bs r acc = Inr acc" using D by (simp add: age_row_def decimal_rules not_less)
  then show ?thesis using A False by (simp add: aged_def open_rows_snoc age_total_snoc)
next
  case True
  let ?k = "row_key today bs r"
  define t where "t = (case map_of acc ?k of Some t \<Rightarrow> t | None \<Rightarrow> sum_zero (cur_scale (currency (ab_balance r))))"
  have sorted: "sorted_keys acc" and dom: "fst ` set acc = row_key today bs ` set (open_rows rows)"
    and vals: "\<And>k u. map_of acc k = Some u \<Longrightarrow> sum_ok u \<and> sum_value u = age_total today bs rows k"
    using A unfolding aged_def by blast+
  have t: "sum_ok t \<and> sum_value t = age_total today bs rows ?k"
  proof (cases "map_of acc ?k")
    case None
    then have "?k \<notin> row_key today bs ` set (open_rows rows)" by (simp add: map_of_eq_None_iff dom)
    then show ?thesis using None s age_total_absent by (simp add: t_def)
  qed (use vals t_def in auto)
  have sum: "sum_value t + mval (ab_balance r) = age_total today bs (rows @ [r]) ?k"
    using True t by (simp add: age_total_snoc)
  have "in_budget (amount_of (age_total today bs (rows @ [r]) ?k))"
    using dec_grid_narrow [OF dec_grid_age_total, of "rows @ [r]" today bs ?k] n by (simp add: narrow_def split: if_splits)
  then obtain t' where t': "add_decimal D (amount (ab_balance r)) t = Inr t'" "sum_ok t'"
      "sum_value t' = age_total today bs (rows @ [r]) ?k"
    using add_decimal_adds [OF D, of t "amount (ab_balance r)"] t sum by (auto simp: sum_adds_def split: sum.splits)
  have "\<not> dec_le D (amount (ab_balance r)) dec_zero" using D True by (simp add: decimal_rules)
  then have run: "age_row D today bs r acc = Inr (btree_insert ?k t' acc)"
    using t'(1) by (simp add: age_row_def Let_def flip: row_key_def t_def)
  have "sum_ok u \<and> sum_value u = age_total today bs (rows @ [r]) k"
    if "map_of (btree_insert ?k t' acc) k = Some u" for k u
    using that vals t' by (auto simp: map_of_btree_insert [OF sorted] age_total_snoc split: if_splits)
  then have "aged today bs (rows @ [r]) (btree_insert ?k t' acc)"
    using True dom btree_insert_sorted [OF sorted] by (simp add: aged_def open_rows_snoc)
  with run show ?thesis by blast
qed

lemma age_rows:
  assumes D: "decimal_contract D" and "length rows \<le> 2 ^ 64" "\<forall>r\<in>set rows. cur_scale (currency (ab_balance r)) \<le> 28"
  shows "\<exists>acc. fold_result (age_row D today bs) rows [] = Inr acc \<and> aged today bs rows acc"
  using assms(2-)
proof (induction rows rule: rev_induct)
  case Nil
  then show ?case by (simp add: aged_def open_rows_def)
next
  case (snoc r rows)
  then obtain acc where "fold_result (age_row D today bs) rows [] = Inr acc" "aged today bs rows acc" by auto
  with age_row_step [OF D this(2), of r] snoc.prems show ?case by (auto simp: fold_result_append)
qed

lemma aged_keys: "aged today bs rows acc \<Longrightarrow> map fst acc = age_keys today bs rows"
proof -
  assume A: "aged today bs rows acc"
  have "sorted (map fst acc)" "distinct (map fst acc)"
    using A unfolding aged_def strict_sorted_iff by blast+
  then have "sorted_list_of_set (set (map fst acc)) = map fst acc" by (rule sorted_list_of_set.idem_if_sorted_distinct)
  moreover have "set (map fst acc) = row_key today bs ` set (open_rows rows)" using A by (simp add: aged_def)
  ultimately show ?thesis by (simp add: age_keys_def)
qed

text \<open>What one bucket of the result holds.\<close>

definition bucket_holds ::
  "ar_invoice_balance list \<Rightarrow> naive_date \<Rightarrow> int list \<Rightarrow> string list \<Rightarrow> age_key \<Rightarrow> aging_bucket \<Rightarrow> bool" where
  "bucket_holds rows today bs labels k b \<longleftrightarrow>
     bk_payer_tenant_id b = fst k \<and> bk_bucket b = labels ! snd (snd k) \<and>
     (\<exists>r\<in>set rows. row_grain r = (fst k, fst (snd k)) \<and>
        represents (bk_amount b) (currency (ab_balance r)) (age_total today bs rows k))"

lemma emit_bucket_Inr:
  assumes D: "decimal_contract D" and S: "specs_of rows specs" and labels: "length labels = length bs + 2"
    and scales: "\<forall>r\<in>set rows. cur_scale (currency (ab_balance r)) \<le> 28"
    and k: "k \<in> row_key today bs ` set (open_rows rows)" and t: "sum_ok t" "sum_value t = age_total today bs rows k"
  shows "emit_bucket D specs labels (k, t) = Inr b \<longleftrightarrow> bucket_holds rows today bs labels k b"
proof -
  obtain r where r: "r \<in> set rows" "k = row_key today bs r" using k by (auto simp: open_rows_def)
  let ?spec = "currency (ab_balance r)"
  have g: "(fst k, fst (snd k)) = row_grain r" by (simp add: r row_key_def row_grain_def)
  have m: "map_of specs (row_grain r) = Some ?spec" by (rule specs_of_rules(2) [OF S r(1)])
  have rank: "snd (snd k) < length labels"
    using bucket_rank_le [of "days_past_due (ab_due_date r) today" bs] by (simp add: r row_key_def labels)
  have post: "to_posted D t ?spec = Inr m \<longleftrightarrow> represents m ?spec (age_total today bs rows k)" for m
    using to_posted_Inr [OF D t(1), of ?spec] scales r(1) t(2) by simp
  have same: "currency (ab_balance r') = ?spec" if "r' \<in> set rows" "row_grain r' = row_grain r" for r'
    using specs_of_rules(2) [OF S that(1)] m that(2) by simp
  have "emit_bucket D specs labels (k, t) = Inr b \<longleftrightarrow>
      (\<exists>m. represents m ?spec (age_total today bs rows k) \<and>
         b = \<lparr>bk_payer_tenant_id = fst k, bk_bucket = labels ! snd (snd k), bk_amount = m\<rparr>)"
    using rank m post g by (cases k) (auto simp: emit_bucket_def)
  also have "\<dots> \<longleftrightarrow> bk_payer_tenant_id b = fst k \<and> bk_bucket b = labels ! snd (snd k) \<and>
      represents (bk_amount b) ?spec (age_total today bs rows k)"
    by (cases b) auto
  also have "represents (bk_amount b) ?spec (age_total today bs rows k) \<longleftrightarrow>
      (\<exists>r'\<in>set rows. row_grain r' = row_grain r \<and> represents (bk_amount b) (currency (ab_balance r')) (age_total today bs rows k))"
    using same r(1) by metis
  finally show ?thesis by (simp add: bucket_holds_def g)
qed

lemma ar_aging_Inr:
  assumes D: "decimal_contract D" and t: "thresholds_ok t" and n: "length rows \<le> 2 ^ 64"
    and scales: "\<forall>r\<in>set rows. cur_scale (currency (ab_balance r)) \<le> 28"
  shows "ar_aging D rows today t = Inr out \<longleftrightarrow> scales_consistent rows \<and>
    (\<exists>labels. bucket_labels (bounds t) = Inr labels \<and>
       list_all2 (bucket_holds rows today (bounds t) labels) (age_keys today (bounds t) rows) out)"
proof -
  obtain acc where acc: "fold_result (age_row D today (bounds t)) rows [] = Inr acc" and A: "aged today (bounds t) rows acc"
    using age_rows [OF D n scales] by blast
  have emit: "emit_bucket D specs labels p = Inr b \<longleftrightarrow> bucket_holds rows today (bounds t) labels (fst p) b"
    if S: "specs_of rows specs" and l: "bucket_labels (bounds t) = Inr labels" and p: "p \<in> set acc" for specs labels p b
  proof -
    have "length labels = length (bounds t) + 2" using bucket_labels_cases [OF t] l by (auto split: if_splits)
    moreover have "fst p \<in> row_key today (bounds t) ` set (open_rows rows)" using A p by (auto simp: aged_def)
    moreover have "map_of acc (fst p) = Some (snd p)"
      using A p by (simp add: aged_def btree.inv_distinct)
    then have "sum_ok (snd p)" "sum_value (snd p) = age_total today (bounds t) rows (fst p)"
      using A unfolding aged_def by blast+
    ultimately show ?thesis using emit_bucket_Inr [OF D S _ scales, of labels "bounds t" "fst p" today "snd p" b] by simp
  qed
  have all: "list_all2 (\<lambda>p b. emit_bucket D specs labels p = Inr b) acc out \<longleftrightarrow>
      list_all2 (bucket_holds rows today (bounds t) labels) (age_keys today (bounds t) rows) out"
    if "specs_of rows specs" "bucket_labels (bounds t) = Inr labels" for specs labels
    unfolding aged_keys [OF A, symmetric] list_all2_map1
    using emit [OF that] by (auto simp: list_all2_conv_all_nth)
  show ?thesis
    unfolding ar_aging_def
    using acc all spec_rows_Inr spec_rows_total by (auto simp: map_result_Inr_iff) blast+
qed

end
