(* ===== verification/Aging_Totals.thy ===== *)
theory Aging_Totals
  imports Aging
begin

text \<open>
  Two consequences for the aging report of \<open>ledger/src/domain/invoice/aging.rs\<close>: the buckets of a payer and
  currency add up to the open receivables, and the one configuration on which the label loop overflows.
\<close>

section \<open>Conservation\<close>

definition open_total :: "ar_invoice_balance list \<Rightarrow> uuid \<Rightarrow> string \<Rightarrow> rat" where
  "open_total rows p c =
     (\<Sum>r\<leftarrow>rows. if row_grain r = (p, c) \<and> 0 < mval (ab_balance r) then mval (ab_balance r) else 0)"

definition bucket_total :: "aging_bucket list \<Rightarrow> uuid \<Rightarrow> string \<Rightarrow> rat" where
  "bucket_total out p c =
     (\<Sum>b\<leftarrow>out. if bk_payer_tenant_id b = p \<and> code (currency (bk_amount b)) = c then mval (bk_amount b) else 0)"

lemma sum_by_key:
  fixes val :: "'a \<Rightarrow> rat"
  assumes "finite K" "\<forall>r\<in>set rows. key r \<in> K"
  shows "(\<Sum>k\<in>K. if P k then (\<Sum>r\<leftarrow>rows. if key r = k then val r else 0) else 0) =
    (\<Sum>r\<leftarrow>rows. if P (key r) then val r else 0)"
  using assms(2)
proof (induction rows)
  case Nil
  show ?case by (simp add: sum.neutral)
next
  case (Cons r rows)
  have "(\<Sum>k\<in>K. if P k then (\<Sum>s\<leftarrow>r # rows. if key s = k then val s else 0) else 0) =
      (\<Sum>k\<in>K. (if k = key r then if P (key r) then val r else 0 else 0) +
        (if P k then (\<Sum>s\<leftarrow>rows. if key s = k then val s else 0) else 0))"
    by (intro sum.cong) auto
  also have "\<dots> = (if P (key r) then val r else 0) + (\<Sum>s\<leftarrow>rows. if P (key s) then val s else 0)"
    using Cons assms(1) by (simp add: sum.distrib)
  finally show ?case by simp
qed

lemma sum_list_all2:
  fixes f :: "'a \<Rightarrow> rat"
  shows "list_all2 R xs ys \<Longrightarrow> (\<And>x y. R x y \<Longrightarrow> f x = g y) \<Longrightarrow> (\<Sum>x\<leftarrow>xs. f x) = (\<Sum>y\<leftarrow>ys. g y)"
  by (induction rule: list_all2_induct) auto

lemma aging_conserves:
  assumes "list_all2 (bucket_holds rows today bs labels) (age_keys today bs rows) out"
  shows "bucket_total out p c = open_total rows p c"
proof -
  let ?K = "row_key today bs ` set (open_rows rows)"
  let ?P = "\<lambda>k :: age_key. (fst k, fst (snd k)) = (p, c)"
  have step: "(if ?P k then age_total today bs rows k else 0) =
      (if bk_payer_tenant_id b = p \<and> code (currency (bk_amount b)) = c then mval (bk_amount b) else 0)"
    if "bucket_holds rows today bs labels k b" for k b
    using that by (auto simp: bucket_holds_def row_grain_def represents_def)
  have "bucket_total out p c = (\<Sum>k\<leftarrow>age_keys today bs rows. if ?P k then age_total today bs rows k else 0)"
    unfolding bucket_total_def by (rule sum_list_all2 [OF assms step, symmetric])
  also have "\<dots> = (\<Sum>k\<in>?K. if ?P k then age_total today bs rows k else 0)"
    by (simp add: age_keys_def sum_list_distinct_conv_sum_set)
  also have "\<dots> = (\<Sum>r\<leftarrow>open_rows rows. if ?P (row_key today bs r) then mval (ab_balance r) else 0)"
    unfolding age_total_def by (rule sum_by_key) simp_all
  also have "\<dots> = open_total rows p c"
    unfolding open_total_def open_rows_def row_key_def row_grain_def by (induction rows) auto
  finally show ?thesis .
qed

text \<open>The ranges of days are disjoint, so a row has one rank.\<close>

lemma rank_holds_lower:
  assumes t: "thresholds_ok t" and i: "rank_holds (bounds t) days i" and j: "rank_holds (bounds t) days j" and "i < j"
  shows False
proof -
  let ?bs = "bounds t"
  have ne: "?bs \<noteq> []" and hd: "0 < hd ?bs" and srt: "sorted_wrt (<) ?bs"
    using t unfolding thresholds_ok_def by blast+
  have sorted: "?bs ! a \<le> ?bs ! b" if "a \<le> b" "b < length ?bs" for a b
    using sorted_wrt_nth_less [OF srt, of a b] that by (cases "a = b") simp_all
  have pos: "0 < ?bs ! a" if "a < length ?bs" for a
    using sorted [of 0 a] that hd by (simp add: hd_conv_nth [OF ne])
  have len: "j \<le> length ?bs + 1" using j \<open>i < j\<close> by (simp add: rank_holds_def)
  show False
  proof (cases "i = 0 \<or> j = 1")
    case True
    then have "i = 0" using \<open>i < j\<close> by linarith
    then have "days \<le> 0" "(if j = 1 then 0 else ?bs ! (j - 2)) < days" using i j \<open>i < j\<close> by (simp_all add: rank_holds_def)
    moreover have "j = 1 \<or> j - 2 < length ?bs" using len \<open>i < j\<close> by linarith
    ultimately show False using pos [of "j - 2"] by (auto split: if_splits)
  next
    case False
    then have "days \<le> ?bs ! (i - 1)" "?bs ! (j - 2) < days" using i j len \<open>i < j\<close> by (simp_all add: rank_holds_def)
    moreover have "i - 1 \<le> j - 2" "j - 2 < length ?bs" using len \<open>i < j\<close> False by linarith+
    ultimately show False using sorted [of "i - 1" "j - 2"] by linarith
  qed
qed

lemma rank_holds_unique:
  "thresholds_ok t \<Longrightarrow> rank_holds (bounds t) days i \<Longrightarrow> rank_holds (bounds t) days j \<Longrightarrow> i = j"
  using rank_holds_lower [of t days i j] rank_holds_lower [of t days j i] by (cases i j rule: linorder_cases) blast+

section \<open>The label of the last bucket\<close>

lemma spec_row_no_panic: "spec_row r specs \<noteq> Inl AgingPanic"
  by (auto simp: spec_row_run split: option.splits)

lemma fold_result_Inl: "fold_result f xs a = Inl e \<Longrightarrow> \<exists>x b. x \<in> set xs \<and> f x b = Inl e"
proof (induction xs arbitrary: a)
  case (Cons x xs)
  then consider "f x a = Inl e" | b where "f x a = Inr b" "fold_result f xs b = Inl e" by (auto simp: rbind_eq_Inl)
  then show ?case
  proof cases
    case 1
    then show ?thesis by auto
  next
    case 2
    then show ?thesis using Cons.IH [OF 2(2)] by auto
  qed
qed simp

lemma map_result_Inl: "map_result f xs = Inl e \<Longrightarrow> \<exists>x\<in>set xs. f x = Inl e"
  by (induction xs) (auto simp: rbind_eq_Inl)

lemma emit_no_panic:
  assumes "snd (snd (fst p)) < length labels"
  shows "emit_bucket D specs labels p \<noteq> Inl AgingPanic"
proof -
  obtain payer c rank v where p: "p = ((payer, c, rank), v)" by (cases p) auto
  have e: "map_err AgingExact r \<noteq> Inl AgingPanic" for r :: "exact_error + posted_money" by (cases r) simp_all
  show ?thesis
    using assms e [of "to_posted D v (the (map_of specs (payer, c)))"]
    by (cases "map_of specs (payer, c)") (auto simp: p emit_bucket_def rbind_eq_Inl)
qed

lemma ar_aging_panic:
  assumes D: "decimal_contract D" and t: "thresholds_ok t" and n: "length rows \<le> 2 ^ 64"
    and scales: "\<forall>r\<in>set rows. cur_scale (currency (ab_balance r)) \<le> 28"
  shows "ar_aging D rows today t = Inl AgingPanic \<longleftrightarrow> last (bounds t) = 2 ^ 63 - 1"
proof (cases "last (bounds t) = 2 ^ 63 - 1")
  case True
  have "bucket_labels (bounds t) = Inl AgingPanic" using bucket_labels_cases [OF t] unfolding if_P [OF True] .
  then show ?thesis using True by (simp only: ar_aging_def rbind_simps simp_thms)
next
  case False
  obtain labels where l: "bucket_labels (bounds t) = Inr labels" "length labels = length (bounds t) + 2"
    using bucket_labels_cases [OF t] unfolding if_not_P [OF False] by blast
  obtain acc where acc: "fold_result (age_row D today (bounds t)) rows [] = Inr acc" and A: "aged today (bounds t) rows acc"
    using age_rows [OF D n scales] by blast
  have "map_result (emit_bucket D specs labels) acc \<noteq> Inl AgingPanic" for specs
  proof
    assume "map_result (emit_bucket D specs labels) acc = Inl AgingPanic"
    from map_result_Inl [OF this] obtain p where p: "p \<in> set acc" "emit_bucket D specs labels p = Inl AgingPanic" by blast
    have "fst ` set acc = row_key today (bounds t) ` set (open_rows rows)" using A unfolding aged_def by blast
    then obtain r where "fst p = row_key today (bounds t) r" using p(1) by blast
    then have "snd (snd (fst p)) = bucket_rank (days_past_due (ab_due_date r) today) (bounds t)" by (simp add: row_key_def)
    then have "snd (snd (fst p)) < length labels"
      using l(2) bucket_rank_le [of "days_past_due (ab_due_date r) today" "bounds t"] by linarith
    from emit_no_panic [OF this] p(2) show False by simp
  qed
  moreover have "fold_result spec_row rows [] \<noteq> Inl AgingPanic"
  proof
    assume "fold_result spec_row rows [] = Inl AgingPanic"
    from fold_result_Inl [OF this] spec_row_no_panic show False by simp
  qed
  ultimately have "ar_aging D rows today t \<noteq> Inl AgingPanic"
    unfolding ar_aging_def l(1) acc rbind_simps rbind_eq_Inl by simp
  then show ?thesis using False by blast
qed

end
