(* ===== verification/Billing_Properties.thy ===== *)
theory Billing_Properties
  imports Payment_Properties Dispute_Properties Invoice_Entry Straight_Line Reversal Aging_Totals
begin

text \<open>
  The properties of invoicing, recognition schedules, reversals and receivables aging, each with a
  concrete run of the model.
\<close>

section \<open>Invoices\<close>

definition debited :: "post_line list \<Rightarrow> rat" where
  "debited ls = (\<Sum>l\<leftarrow>ls. if side l = Debit then mval (money l) else 0)"

lemma debited_credit_lines: "credit_lines spec payer ls \<Longrightarrow> debited ls = 0"
  by (induction ls) (simp_all add: debited_def)

lemma debited_simps [simp]:
  "debited [] = 0" "debited (l # ls) = (if side l = Debit then mval (money l) else 0) + debited ls"
  "debited (ls @ ms) = debited ls + debited ms"
  by (simp_all add: debited_def)

lemma invoice_ar_lines:
  assumes "represents g spec q" "0 \<le> q"
  shows "debited (ar_lines invoice fresh g) = q" "credited (ar_lines invoice fresh g) c st = 0"
    and "\<forall>l\<in>set (ar_lines invoice fresh g). account_class l = Ar \<and> due_date l = pi_due_date invoice"
  using assms by (auto simp: ar_lines_def represents_def)

lemma invoice_totals_nonneg: "invoice_valid invoice spec \<Longrightarrow> 0 \<le> items_total invoice + tax_total invoice"
  unfolding invoice_valid_def item_valid_def items_total_def tax_total_def list_all_iff
  by (intro add_nonneg_nonneg sum_list_nonneg) force+

text \<open>C27: an invoice entry debits the receivable with the gross amount, on a line that carries the due date,
  and credits every account class and revenue stream with exactly what the items mapped there recognise,
  what is deferred on the stream, and the tax.  The balance check accepts the entry when the gross is
  positive; a zero gross builds an entry without lines, which the check refuses as empty.\<close>

theorem invoice_entry_effect:
  assumes D: "decimal_contract D" and ok: "invoice_ok invoice"
    and e: "build_invoice_entry D fresh invoice mapped = Inr e"
  shows "debited (lines e) = items_total invoice + tax_total invoice \<and>
    (\<forall>l\<in>set (lines e). side l = Debit \<longrightarrow> account_class l = Ar \<and> due_date l = pi_due_date invoice) \<and>
    (\<forall>c st. credited (lines e) c st = invoice_credit invoice mapped c st) \<and>
    validate_balanced_entry D (entry_currency e) (map line_facts_of (lines e)) =
      (if 0 < items_total invoice + tax_total invoice then Inr () else Inl PV_Empty)"
proof -
  let ?G = "items_total invoice + tax_total invoice"
  obtain spec g rest where v: "invoice_valid invoice spec" and g: "represents g spec ?G"
      and ls: "lines e = ar_lines invoice fresh g @ rest" and rest: "credit_lines spec (pi_payer_tenant_id invoice) rest"
      and credits: "\<And>c st. credited rest c st = invoice_credit invoice mapped c st"
    using build_invoice_Inr [OF D ok e] by metis
  have nn: "0 \<le> ?G" by (rule invoice_totals_nonneg [OF v])
  have "validate_balanced_entry D (entry_currency e) (map line_facts_of (lines e)) =
      (if 0 < ?G then Inr () else Inl PV_Empty)"
  proof (cases "0 < ?G")
    case True
    then have "invoice_postable (invoice, mapped)" using ok by (simp add: invoice_postable_def)
    then show ?thesis using invoice_entry.engine_accepts [OF D, of "(invoice, mapped)" fresh e] e True by simp
  next
    case False
    then have "lines e = []" using zero_gross_entry [OF D ok e] nn by simp
    then show ?thesis using False by (simp add: validate_balanced_entry_def)
  qed
  moreover have "\<forall>l\<in>set (lines e). side l = Debit \<longrightarrow> account_class l = Ar \<and> due_date l = pi_due_date invoice"
    using invoice_ar_lines(3) [OF g nn] rest by (auto simp: ls credit_lines_def)
  ultimately show ?thesis
    using invoice_ar_lines(1,2) [OF g nn] debited_credit_lines [OF rest] credits by (simp add: ls)
qed

definition usd_item :: invoice_item where
  "usd_item =
     \<lparr>it_amount_ex_tax = usd_amount 12001, it_deferred = usd_amount 2001, it_revenue_stream = ''plan'',
      it_catalog_class = Some Revenue, it_contract_class = None, it_gl_code = None, it_recognition = None,
      it_invoice_item_ref = Some ''item-1'', it_sku_or_plan_ref = None, it_price_id = None,
      it_pricing_snapshot_ref = None\<rparr>"

definition usd_tax :: tax_breakdown where
  "usd_tax = \<lparr>tx_amount = usd_amount 1901, tx_tax_jurisdiction = ''DE'', tx_tax_filing_period = ''202601'',
     tx_tax_rate_ref = None\<rparr>"

definition usd_invoice :: posted_invoice where
  "usd_invoice =
     \<lparr>pi_invoice_id = ''inv-1'', pi_payer_tenant_id = 7, pi_resource_tenant_id = None, pi_seller_tenant_id = 1,
      pi_effective_at = 0, pi_due_date = Some 30, pi_period_id = ''202601'', pi_items = [usd_item], pi_tax = [usd_tax],
      pi_posted_by_actor_id = 2, pi_correlation_id = 3\<rparr>"

lemma usd_invoice_facts:
  "invoice_ok usd_invoice" "invoice_valid usd_invoice usd" "items_total usd_invoice + tax_total usd_invoice = 13902 / 100"
  "length [resolve usd_item] = length (pi_items usd_invoice)"
proof -
  show "invoice_ok usd_invoice"
    by (simp add: invoice_ok_def usd_invoice_def usd_item_def usd_tax_def usd_posting_ok)
  show "invoice_valid usd_invoice usd"
    by (simp add: invoice_valid_def usd_invoice_def item_valid_def usd_item_def usd_tax_def invoice_spec_def dec_fits_numeric)
  show "items_total usd_invoice + tax_total usd_invoice = 13902 / 100"
    by (simp add: items_total_def tax_total_def usd_invoice_def usd_item_def usd_tax_def dec_fits_numeric)
qed (simp add: usd_invoice_def)

text \<open>A valid invoice whose mapping covers every item always builds, as long as the gross has at most
  28 digits at the scale of its currency.\<close>

theorem invoice_entry_builds:
  assumes "decimal_contract D" "invoice_ok invoice" "invoice_valid invoice spec"
    and "length mapped = length (pi_items invoice)"
    and "(items_total invoice + tax_total invoice) * 10 ^ cur_scale spec < 10 ^ 28"
  shows "\<exists>e. build_invoice_entry D fresh invoice mapped = Inr e"
  by (rule build_invoice_total [OF assms])

theorem invoice_entry_builds_witness:
  "\<exists>e. build_invoice_entry reference_decimal id usd_invoice [resolve usd_item] = Inr e"
  using invoice_entry_builds [OF reference_decimal_contract usd_invoice_facts(1,2,4), of id] usd_invoice_facts(3) by simp

theorem invoice_entry_effect_witness:
  "\<exists>e. build_invoice_entry reference_decimal id usd_invoice [resolve usd_item] = Inr e \<and>
     debited (lines e) = 13902 / 100 \<and> credited (lines e) ContractLiability (Some ''plan'') = 2001 / 100"
proof -
  have "\<exists>e. build_invoice_entry reference_decimal id usd_invoice [resolve usd_item] = Inr e"
    using usd_invoice_facts(3) by (intro build_invoice_total [OF reference_decimal_contract usd_invoice_facts(1,2,4)]) simp
  then obtain e where e: "build_invoice_entry reference_decimal id usd_invoice [resolve usd_item] = Inr e" by blast
  have "invoice_credit usd_invoice [resolve usd_item] ContractLiability (Some ''plan'') = 2001 / 100"
    by (simp add: invoice_credit_def usd_invoice_def usd_item_def resolve_def dec_fits_numeric)
  then show ?thesis
    using invoice_entry_effect [OF reference_decimal_contract usd_invoice_facts(1) e] usd_invoice_facts(3) e by auto
qed

section \<open>Periods and recognition schedules\<close>

text \<open>Period arithmetic is arithmetic on a line of months.  From any id that parses, \<open>period_id_plus\<close> moves by the
  months asked for, \<open>next_period_id\<close> by one and \<open>previous_period_id\<close> back by one; moving forward and back returns
  the canonical id, the result parses to the month it stands for, and the string order that the recognition
  and close code compare ids with is the order in time.\<close>

theorem period_arithmetic:
  assumes p: "month_index p = Some t" and k: "0 \<le> t" "calendar (t + int k + 1)"
  shows "\<exists>q. period_id_plus p k = Some q \<and> month_index q = Some (t + int k) \<and>
    next_period_id p = period_id_plus p 1 \<and> Option.bind (next_period_id q) previous_period_id = Some q \<and>
    (\<forall>j\<le>k. \<exists>r. period_id_plus p j = Some r \<and> (r < q \<longleftrightarrow> j < k))"
proof -
  let ?q = "month_text (t + int k)"
  have cal: "calendar (t + int j)" if "j \<le> k" for j using that k by (simp add: calendar_def)
  have q: "month_index ?q = Some (t + int k)" using cal by (simp add: month_index_text)
  have "previous_period_id (month_text (t + int k + 1)) = Some ?q"
    using previous_period_text [OF month_index_text [OF k(2)]] by simp
  moreover have "\<exists>r. period_id_plus p j = Some r \<and> (r < ?q \<longleftrightarrow> j < k)" if "j \<le> k" for j
    using month_text_less [OF cal [OF that] cal [OF order_refl]] by (simp add: period_id_plus_text [OF p])
  ultimately show ?thesis
    using q by (simp add: period_id_plus_text [OF p] next_period_text [OF p] next_period_text [OF q])
qed

lemma november_index: "month_index ''202611'' = Some 24322"
  by code_simp

theorem period_arithmetic_witness:
  "\<exists>q. period_id_plus ''202611'' 3 = Some q \<and> month_index q = Some 24325 \<and>
     Option.bind (next_period_id q) previous_period_id = Some q"
  using period_arithmetic [OF november_index, of 3] by (auto simp: calendar_def)

text \<open>C29: a schedule the default resolvers derive splits the whole amount excluding tax over consecutive months
  from the first period of the item (or the period of the invoice): all shares but the last are the equal
  share rounded half to even, none is negative, and together they are the deferred amount; a multi-obligation
  item carries its price snapshot.  The validation that posting and schedule changes run on a plan accepts
  it while its months stay in the calendar.\<close>

theorem derived_schedule:
  assumes D: "decimal_contract D" and m: "posting_ok (rc_item_amount_ex_tax ctx)"
    and run: "derive D default_policy_resolve default_ssp_resolve default_vc_resolve mx ctx = Inr (Schedule b)"
  shows "\<exists>n p t. ri_timing (rc_input ctx) = StraightLine n p \<and>
    month_index (case p of Some q \<Rightarrow> q | None \<Rightarrow> rc_invoice_period_id ctx) = Some t \<and>
    length (bs_segments b) = n \<and> 0 < n \<and> n \<le> mx \<and>
    (\<Sum>s\<leftarrow>bs_segments b. mval (ps_amount s)) = mval (rc_item_amount_ex_tax ctx) \<and>
    (\<forall>j<n. ps_period_id (bs_segments b ! j) = month_text (t + int j) \<and> 0 \<le> mval (ps_amount (bs_segments b ! j)) \<and>
       (j < n - 1 \<longrightarrow> mval (ps_amount (bs_segments b ! j)) = equal_share (rc_item_amount_ex_tax ctx) n)) \<and>
    (ri_multi_po (rc_input ctx) \<longrightarrow> bs_ssp_snapshot_ref b \<noteq> None) \<and>
    (0 \<le> t \<and> calendar (t + int n - 1) \<longrightarrow> validate_plan b mx = Inr ())"
proof -
  obtain t n r ms first where r: "default_policy_resolve ctx = Inr r" "rp_timing r = StraightLine n (Some first)"
      and t: "month_index first = Some t" and segs: "bs_segments b = segments_from t 0 ms" "length ms = n" "0 < n" "n < 2 ^ 31" "n \<le> mx"
      and ms: "\<forall>m\<in>set ms. posted_ok m \<and> currency m = currency (bs_deferred b) \<and> 0 \<le> mval m"
      and sums: "(\<Sum>m\<leftarrow>ms. mval m) = mval (bs_deferred b)" "\<forall>j<n - 1. mval (ms ! j) = equal_share (bs_deferred b) n"
      and b: "bs_deferred b = rc_item_amount_ex_tax ctx" "0 \<le> mval (bs_deferred b)"
      and po: "ri_multi_po (rc_input ctx) \<longrightarrow> bs_ssp_snapshot_ref b \<noteq> None \<and> bs_ssp_snapshot_ref b \<noteq> Some []"
    using default_ports.derive_Schedule [OF D m run] by metis
  obtain p where p: "ri_timing (rc_input ctx) = StraightLine n p" "first = (case p of Some q \<Rightarrow> q | None \<Rightarrow> rc_invoice_period_id ctx)"
    using r by (cases "ri_timing (rc_input ctx)") (auto simp: default_policy_resolve_def Let_def split: if_splits)
  have "(\<Sum>s\<leftarrow>bs_segments b. mval (ps_amount s)) = (\<Sum>m\<leftarrow>map ps_amount (bs_segments b). mval m)" by (simp add: o_def)
  then have total: "(\<Sum>s\<leftarrow>bs_segments b. mval (ps_amount s)) = mval (rc_item_amount_ex_tax ctx)"
    using sums(1) by (simp add: segs b)
  have "validate_plan b mx = Inr ()" if "0 \<le> t" "calendar (t + int n - 1)"
    using validate_plan_of_layout [OF segs(1), of mx] segs(2-) ms sums b that m by (simp add: posting_ok_def)
  moreover have "\<forall>j<n. ps_period_id (bs_segments b ! j) = month_text (t + int j) \<and> 0 \<le> mval (ps_amount (bs_segments b ! j)) \<and>
       (j < n - 1 \<longrightarrow> mval (ps_amount (bs_segments b ! j)) = equal_share (rc_item_amount_ex_tax ctx) n)"
    using segs(2) ms sums(2) by (simp add: segs(1) segments_from_nth b)
  ultimately show ?thesis
    using p t segs total po by (intro exI [of _ n] exI [of _ p] exI [of _ t]) simp
qed

definition usd_deferral :: recognition_context where
  "usd_deferral =
     \<lparr>rc_input = \<lparr>ri_policy_ref = ''policy'', ri_timing = StraightLine 3 None, ri_po_allocation_group = None,
        ri_multi_po = False, ri_ssp_snapshot_ref = None, ri_subscription_ref = None, ri_vc_estimate_ref = None,
        ri_vc_method_ref = None, ri_immaterial_one_shot_sku = False\<rparr>,
      rc_invoice_period_id = ''202611'', rc_item_amount_ex_tax = usd_amount 1001, rc_invoice_total = usd_amount 1001,
      rc_revenue_stream = ''plan''\<rparr>"

lemma usd_shares: "equal_share (usd_amount 1001) 3 = 334 / 100" "equal_share (usd_amount 3) 5 = 1 / 100"
proof -
  have "\<lfloor>1001 / 3 :: rat\<rfloor> = 333" "\<lfloor>3 / 5 :: rat\<rfloor> = 0" by (simp_all add: floor_eq_iff)
  then show "equal_share (usd_amount 1001) 3 = 334 / 100" "equal_share (usd_amount 3) 5 = 1 / 100"
    by (simp_all add: equal_share_def share_value_def half_even_def dec_fits_numeric Let_def)
qed

lemma usd_deferral_derived:
  "\<exists>b. derive reference_decimal default_policy_resolve default_ssp_resolve default_vc_resolve 120 usd_deferral = Inr (Schedule b)"
proof -
  have "\<exists>segs. plan_straight_line reference_decimal 120 (usd_amount 1001) 3 ''202611'' = Inr segs"
    using plan_straight_line_outcome [OF reference_decimal_contract usd_posting_ok _ november_index, of 1001 3 120]
    by (simp add: usd_shares dec_fits_numeric)
  moreover have "period_id_plus ''202611'' 0 \<noteq> None" by (simp add: period_id_plus_None november_index)
  ultimately show ?thesis
    by (auto simp: derive_def usd_deferral_def validate_context_def default_policy_resolve_def default_ssp_resolve_def
        default_vc_resolve_def ssp_snapshot_missing_def Let_def negative_posted usd_amount_ok dec_fits_numeric
        matching_spec_def)
qed

theorem derived_schedule_witness:
  "\<exists>b. derive reference_decimal default_policy_resolve default_ssp_resolve default_vc_resolve 120 usd_deferral = Inr (Schedule b) \<and>
     (\<Sum>s\<leftarrow>bs_segments b. mval (ps_amount s)) = 1001 / 100 \<and> length (bs_segments b) = 3 \<and> validate_plan b 120 = Inr ()"
proof -
  obtain b where b: "derive reference_decimal default_policy_resolve default_ssp_resolve default_vc_resolve 120 usd_deferral =
      Inr (Schedule b)" using usd_deferral_derived by blast
  have "posting_ok (rc_item_amount_ex_tax usd_deferral)" by (simp add: usd_deferral_def usd_posting_ok)
  from derived_schedule [OF reference_decimal_contract this b] b show ?thesis
    by (auto simp: usd_deferral_def november_index calendar_def dec_fits_numeric)
qed

text \<open>The straight-line layout succeeds exactly when the last share, which takes the residual of the rounding, is
  not negative; otherwise it is refused as out of range.\<close>

theorem straight_line_accepts:
  assumes "decimal_contract D" "posting_ok deferred" "0 \<le> mval deferred" "month_index first = Some t"
    and "0 < n" "n < 2 ^ 31" "n \<le> mx" "mval deferred * 10 ^ cur_scale (currency deferred) + of_nat n < 10 ^ 28"
  shows "if of_nat (n - 1) * equal_share deferred n \<le> mval deferred
    then \<exists>segs. plan_straight_line D mx deferred n first = Inr segs
    else plan_straight_line D mx deferred n first = Inl D_AmountOutOfRange"
  by (rule plan_straight_line_outcome [OF assms])

theorem straight_line_accepts_witness:
  "plan_straight_line reference_decimal 120 (usd_amount 3) 5 ''202611'' = Inl D_AmountOutOfRange"
  using straight_line_accepts [OF reference_decimal_contract usd_posting_ok _ november_index, of 3 5 120]
  by (simp add: usd_shares dec_fits_numeric)

section \<open>Reversals\<close>

text \<open>C28: a posted entry that is not itself a reversal and touches no reusable credit can always be reversed, and
  the reversal cancels it: in every grain and currency, and in the functional currency, the two entries move
  opposite amounts.  The balance check accepts the reversal, its business id is a function of the
  original (so a second reversal is a duplicate), and the reversal cannot be reversed.\<close>

theorem reversal_undoes:
  assumes D: "decimal_contract D" and r: "reversible original" and n: "length (ev_lines original) \<le> 2 ^ 64"
  shows "\<exists>e. build_reversal D U fresh original into on actor corr = Inr e \<and>
    validate_balanced_entry D (entry_currency e) (map line_facts_of (lines e)) = Inr () \<and>
    (\<forall>g c. lines_move (lines e) g c + views_move (ev_lines original) g c = 0) \<and>
    (\<forall>g. lines_functional (lines e) g + views_functional (ev_lines original) g = 0) \<and>
    source_doc_type e = Reversal \<and> reverses_entry_id e = Some (ev_entry_id original) \<and>
    source_business_id e = ''reverses='' @ U (ev_entry_id original) \<and>
    (\<forall>v. ev_source_doc_type v = source_doc_type e \<longrightarrow> build_reversal D U fresh v into on actor corr = Inl CannotReverseReversal)"
proof -
  obtain e where e: "build_reversal D U fresh original into on actor corr = Inr e"
      "lines e = flip_lines fresh 1 (ev_lines original)" "source_doc_type e = Reversal"
      "reverses_entry_id e = Some (ev_entry_id original)" "source_business_id e = reversal_business_id U (ev_entry_id original)"
    using build_reversal_run [OF D r, of U fresh into on actor corr] by blast
  have "reversal_ok (original, into, on, actor, corr)" using r n by (simp add: reversal_ok_def)
  from reversing.engine_accepts [OF D this, of U fresh e] e(1)
  have "validate_balanced_entry D (entry_currency e) (map line_facts_of (lines e)) = Inr ()" by simp
  then show ?thesis
    using e by (auto simp: flip_lines_move reversal_business_id_def build_reversal_def)
qed

definition usd_view :: "uuid \<Rightarrow> account_class \<Rightarrow> side \<Rightarrow> int \<Rightarrow> line_view" where
  "usd_view i c s k =
     \<lparr>lv_line_id = i, lv_entry_id = 40, lv_payer_tenant_id = 7, lv_account_id = 100 + i, lv_account_class = c,
      lv_gl_code = None, lv_side = s, lv_money = usd_amount k, lv_invoice_id = Some ''inv-1'', lv_due_date = None,
      lv_revenue_stream = None, lv_mapping_status = Resolved, lv_functional_money = None,
      lv_tax_jurisdiction = None, lv_tax_filing_period = None, lv_ar_status = None\<rparr>"

definition usd_posted :: entry_view where
  "usd_posted =
     \<lparr>ev_entry_id = 40, ev_tenant_id = 1, ev_period_id = ''202611'', ev_entry_currency = ''USD'',
      ev_source_doc_type = InvoicePost, ev_source_business_id = ''inv-1'', ev_reverses_entry_id = None,
      ev_reverses_period_id = None, ev_posted_at_utc = 0, ev_effective_at = 0, ev_posted_by_actor_id = 2,
      ev_origin = ''SYSTEM'', ev_correlation_id = 3, ev_created_seq = 1,
      ev_lines = [usd_view 1 Ar Debit 125, usd_view 2 Revenue Credit 125]\<rparr>"

lemma usd_posted_reversible: "reversible usd_posted"
  by (auto simp: reversible_def usd_posted_def usd_view_def balanced_lines_def scales_agree_def functional_balanced_def
      code_net_def line_net_def view_facts_def dec_fits_numeric)

theorem reversal_undoes_witness:
  "\<exists>e. build_reversal reference_decimal (\<lambda>u. show_int (int u)) id usd_posted ''202612'' 31 2 3 = Inr e \<and>
     validate_balanced_entry reference_decimal (entry_currency e) (map line_facts_of (lines e)) = Inr () \<and>
     source_business_id e = ''reverses='' @ show_int 40"
  using reversal_undoes [OF reference_decimal_contract usd_posted_reversible, of "\<lambda>u. show_int (int u)" id "''202612''" 31 2 3]
  by (auto simp: usd_posted_def)

section \<open>Aging\<close>

text \<open>Thresholds round-trip through their stored text.  Whatever text is accepted gives a nonempty, strictly
  increasing list of at most twelve positive 64-bit bounds, and printing it and reading it again gives
  the same thresholds.\<close>

theorem thresholds_roundtrip:
  assumes "parse_csv s = Inr t"
  shows "thresholds_ok t \<and> parse_csv (to_csv t) = Inr t"
  using parse_csv_ok [OF assms] parse_to_csv by blast

theorem thresholds_roundtrip_witness:
  "parse_csv '' 30, 60,90'' = Inr \<lparr>bounds = [30, 60, 90]\<rparr> \<and> to_csv \<lparr>bounds = [30, 60, 90]\<rparr> = ''30,60,90'' \<and>
   parse_csv (to_csv \<lparr>bounds = [30, 60, 90]\<rparr>) = Inr \<lparr>bounds = [30, 60, 90]\<rparr>"
proof -
  have "parse_csv '' 30, 60,90'' = Inr \<lparr>bounds = [30, 60, 90]\<rparr>" by code_simp
  moreover have "to_csv \<lparr>bounds = [30, 60, 90]\<rparr> = ''30,60,90''" by code_simp
  ultimately show ?thesis using thresholds_roundtrip by blast
qed

text \<open>C30: the aging report puts every open receivable in exactly one bucket: the rank of a row is zero when it is not
  past due and otherwise the one range of days its age lies in; the report lists one bucket per payer,
  currency and rank in use, in their order, each with the sum of its rows and the label of its range,
  and the buckets of a payer and currency add up to the open receivables.\<close>

theorem aging_buckets:
  assumes D: "decimal_contract D" and t: "thresholds_ok t" and n: "length rows \<le> 2 ^ 64"
    and scales: "\<forall>r\<in>set rows. cur_scale (currency (ab_balance r)) \<le> 28"
    and run: "ar_aging D rows today t = Inr out"
  shows "(\<exists>labels. bucket_labels (bounds t) = Inr labels \<and>
      list_all2 (bucket_holds rows today (bounds t) labels) (age_keys today (bounds t) rows) out) \<and>
    (\<forall>r\<in>set rows. let days = days_past_due (ab_due_date r) today
       in \<forall>k. rank_holds (bounds t) days k \<longleftrightarrow> k = bucket_rank days (bounds t)) \<and>
    (\<forall>p c. bucket_total out p c = open_total rows p c)"
proof -
  obtain labels where l: "bucket_labels (bounds t) = Inr labels"
      and out: "list_all2 (bucket_holds rows today (bounds t) labels) (age_keys today (bounds t) rows) out"
    using run ar_aging_Inr [OF D t n scales] by blast
  have "rank_holds (bounds t) days k \<longleftrightarrow> k = bucket_rank days (bounds t)" for days k
    using rank_holds_unique [OF t] bucket_rank_holds [OF t] by blast
  then show ?thesis using l out aging_conserves [OF out] unfolding Let_def by blast
qed

definition usd_row :: "string \<Rightarrow> int \<Rightarrow> int \<Rightarrow> ar_invoice_balance" where
  "usd_row i k due = \<lparr>ab_payer_tenant_id = 7, ab_account_id = 101, ab_invoice_id = i, ab_balance = usd_amount k,
     ab_due_date = Some due\<rparr>"

lemma usd_row_simps [simp]:
  "ab_payer_tenant_id (usd_row i k d) = 7" "ab_balance (usd_row i k d) = usd_amount k" "ab_due_date (usd_row i k d) = Some d"
  by (simp_all add: usd_row_def)

abbreviation usd_rows :: "ar_invoice_balance list" where
  "usd_rows \<equiv> [usd_row ''a'' 125 70, usd_row ''b'' 7 100]"

lemma two_bounds: "thresholds_ok \<lparr>bounds = [30, 60]\<rparr>"
  by (simp add: thresholds_ok_def MAX_BOUNDS_def fits_i64_def)

lemma usd_aging_run:
  "ar_aging reference_decimal usd_rows 100 \<lparr>bounds = [30, 60]\<rparr> =
     Inr [\<lparr>bk_payer_tenant_id = 7, bk_bucket = ''current'', bk_amount = usd_amount 7\<rparr>,
       \<lparr>bk_payer_tenant_id = 7, bk_bucket = ''1-30'', bk_amount = usd_amount 125\<rparr>]"
proof -
  have labels: "bucket_labels [30, 60] = Inr [''current'', ''1-30'', ''31-60'', ''60+'']" by code_simp
  have rows: "row_key 100 [30, 60] (usd_row ''a'' 125 70) = (7, ''USD'', 1)" "row_key 100 [30, 60] (usd_row ''b'' 7 100) = (7, ''USD'', 0)"
    by (simp_all add: row_key_def days_past_due_def bucket_rank_def)
  have opn: "open_rows usd_rows = usd_rows" by (simp add: open_rows_def dec_fits_numeric)
  have keys: "age_keys 100 [30, 60] usd_rows = [(7, ''USD'', 0), (7, ''USD'', 1)]"
    by (simp add: age_keys_def opn rows)
  show ?thesis
    by (subst ar_aging_Inr [OF reference_decimal_contract two_bounds])
      (auto simp: labels keys scales_consistent_def bucket_holds_def row_grain_def age_total_def opn rows
        dec_fits_numeric intro!: usd_represents)
qed

theorem aging_buckets_witness:
  "\<exists>out. ar_aging reference_decimal usd_rows 100 \<lparr>bounds = [30, 60]\<rparr> = Inr out \<and> bucket_total out 7 ''USD'' = 132 / 100"
proof -
  have "open_total usd_rows 7 ''USD'' = 132 / 100"
    by (simp add: open_total_def row_grain_def dec_fits_numeric)
  then show ?thesis
    using aging_buckets [OF reference_decimal_contract two_bounds _ _ usd_aging_run] usd_aging_run
    by auto
qed

text \<open>C40: accepted thresholds whose last bound is the largest 64-bit integer make the report overflow while it labels
  its buckets; no other accepted thresholds do.\<close>

theorem aging_label_overflow:
  assumes "decimal_contract D" "thresholds_ok t" "length rows \<le> 2 ^ 64"
    and "\<forall>r\<in>set rows. cur_scale (currency (ab_balance r)) \<le> 28"
  shows "ar_aging D rows today t = Inl AgingPanic \<longleftrightarrow> last (bounds t) = 2 ^ 63 - 1"
  by (rule ar_aging_panic [OF assms])

theorem aging_label_overflow_witness:
  "parse_csv (to_csv \<lparr>bounds = [30, 2 ^ 63 - 1]\<rparr>) = Inr \<lparr>bounds = [30, 2 ^ 63 - 1]\<rparr> \<and>
   ar_aging reference_decimal [] 0 \<lparr>bounds = [30, 2 ^ 63 - 1]\<rparr> = Inl AgingPanic"
proof -
  have ok: "thresholds_ok \<lparr>bounds = [30, 2 ^ 63 - 1]\<rparr>" by (simp add: thresholds_ok_def MAX_BOUNDS_def fits_i64_def)
  from aging_label_overflow [OF reference_decimal_contract this, of "[]" 0]
  have "ar_aging reference_decimal [] 0 \<lparr>bounds = [30, 2 ^ 63 - 1]\<rparr> = Inl AgingPanic" by simp
  with parse_to_csv [OF ok] show ?thesis by blast
qed

end
