(* ===== verification/Ledger_Example.thy ===== *)
theory Ledger_Example
  imports Tie_Out Billing_Properties
begin

text \<open>One posted invoice over the reference decimal: the state the witnesses of the ledger properties start from.\<close>

lemmas reference_contracts = reference_decimal_contract reference_text_contract

definition usd_new_line :: "uuid \<Rightarrow> account_class \<Rightarrow> side \<Rightarrow> string option \<Rightarrow> string option \<Rightarrow> new_line" where
  "usd_new_line i c s doc stream =
     \<lparr>line_id = i, payer_tenant_id = 7, seller_tenant_id = None, resource_tenant_id = None, account_id = 100 + i,
      account_class = c, gl_code = None, side = s, money = usd_amount 125, invoice_id = doc, due_date = None,
      revenue_stream = stream, mapping_status = Resolved, functional_money = None, tax_jurisdiction = None,
      tax_filing_period = None, tax_rate_ref = None, invoice_item_ref = None, sku_or_plan_ref = None, price_id = None,
      pricing_snapshot_ref = None, po_allocation_group = None, credit_grant_event_type = None, ar_status = None,
      line_legal_entity_id = None\<rparr>"

definition usd_lines :: "new_line list" where
  "usd_lines = [usd_new_line 1 Ar Debit (Some ''inv-1'') None, usd_new_line 2 Revenue Credit None (Some ''saas'')]"

definition usd_entry :: new_entry where
  "usd_entry =
     \<lparr>ne_entry_id = 40, ne_tenant_id = 1, ne_legal_entity_id = 9, ne_period_id = ''202611'', ne_entry_currency = ''USD'',
      ne_source_doc_type = InvoicePost, ne_source_business_id = ''inv-1'', ne_reverses_entry_id = None,
      ne_reverses_period_id = None, ne_posted_at_utc = 0, ne_effective_at = 0, ne_origin = ''SYSTEM'',
      ne_posted_by_actor_id = 2, ne_correlation_id = 3, ne_rate_snapshot_ref = None\<rparr>"

definition usd_env :: "(bytes \<Rightarrow> bytes) \<Rightarrow> engine_env" where
  "usd_env H = \<lparr>ee_digest = H, ee_date_text = (\<lambda>_. ''1970-01-01''), ee_now = 0, ee_seq = 1, ee_fresh = id\<rparr>"

definition usd_db :: "unit ledger_db" where
  "usd_db =
     \<lparr>db_locks = Map.empty,
      db_accounts = [101 \<mapsto> \<lparr>ar_normal_side = ''DR'', ar_lifecycle_state = LIFECYCLE_OPEN\<rparr>,
        102 \<mapsto> \<lparr>ar_normal_side = ''CR'', ar_lifecycle_state = LIFECYCLE_OPEN\<rparr>],
      db_registry = Map.empty, db_dedup = Map.empty, db_freezes = [],
      db_periods = [(1, 9, ''202611'') \<mapsto> PERIOD_STATUS_OPEN], db_journal = \<lparr>j_entries = [], j_lines = []\<rparr>,
      db_caches = empty_caches, db_tips = Map.empty, db_counters = ()\<rparr>"

abbreviation fresh_claim :: claim_spec where
  "fresh_claim \<equiv> \<lparr>cs_mode = Fresh, cs_payload_hash_override = None\<rparr>"

lemma usd_line_simps [simp]:
  "account_id (usd_new_line i c s doc stream) = 100 + i" "money (usd_new_line i c s doc stream) = usd_amount 125"
  "functional_money (usd_new_line i c s doc stream) = None" "account_class (usd_new_line i c s doc stream) = c"
  "side (usd_new_line i c s doc stream) = s" "invoice_id (usd_new_line i c s doc stream) = doc"
  "payer_tenant_id (usd_new_line i c s doc stream) = 7" "line_id (usd_new_line i c s doc stream) = i"
  "ar_status (usd_new_line i c s doc stream) = None" "due_date (usd_new_line i c s doc stream) = None"
  "revenue_stream (usd_new_line i c s doc stream) = stream" "credit_grant_event_type (usd_new_line i c s doc stream) = None"
  by (simp_all add: usd_new_line_def)

lemma usd_lines_balanced: "balanced_lines ''USD'' (map line_facts_of usd_lines)"
  by (auto simp: usd_lines_def balanced_lines_def scales_agree_def functional_balanced_def code_net_def line_net_def
      line_facts_of_def usd_value dec_fits_numeric)

lemma ready_narrow: "exact_ready x \<Longrightarrow> narrow (exval x) = Inr x"
  by (simp add: narrow_Inr exact_ready_def amount_of_exval)

lemma first_amount:
  assumes D: "decimal_contract D" and m: "represents m cur (dval d)" and c: "cur_scale cur \<le> 28"
  shows "final_amount D (from_decimal d) None cur = Inr m"
proof -
  have "checked_add (from_decimal d) (from_decimal dec_zero) = Inr (from_decimal d)"
    using ready_narrow [of "from_decimal d"] by (simp add: checked_add_narrow)
  then show ?thesis using into_posted_exact_Inr [OF D _ c, of "from_decimal d" m] m by (simp add: final_amount_def)
qed

definition usd_zero :: posted_money where
  "usd_zero = \<lparr>amount = dec_zero, currency = usd\<rparr>"

lemma usd_final:
  "final_amount reference_decimal (from_decimal (Decimal 125 2)) None usd = Inr (usd_amount 125)"
  "final_amount reference_decimal (from_decimal dec_zero) None usd = Inr usd_zero"
  subgoal by (rule first_amount [OF reference_decimal_contract]) (auto simp: usd_represents dec_fits_numeric)
  subgoal by (rule first_amount [OF reference_decimal_contract]) (auto simp: represents_def posted_ok_def usd_zero_def dec_canonical_def)
  done

text \<open>What the two lines move, in cents: the receivable in three tables and the revenue account.\<close>

definition usd_movement :: "grain_table \<Rightarrow> uuid \<Rightarrow> account_class \<Rightarrow> side \<Rightarrow> string \<Rightarrow> int \<Rightarrow> grain_delta" where
  "usd_movement table account class normal doc cents =
     \<lparr>gd_table = table, gd_tenant_id = 1, gd_account_id = account, gd_currency = ''USD'', gd_payer_tenant_id = 7,
      gd_invoice_id = doc, gd_tax_jurisdiction = [], gd_tax_filing_period = [], gd_account_class = class,
      gd_normal_side = normal, gd_delta = from_decimal (Decimal cents 2), gd_currency_spec = usd,
      gd_functional_delta = from_decimal dec_zero, gd_functional_currency = None, gd_disputed_delta = from_decimal dec_zero,
      gd_posted_at = 0, gd_due_date = None, gd_credit_grant_event_type = [], gd_first_granted_at = None\<rparr>"

abbreviation usd_deltas :: "int \<Rightarrow> grain_delta list" where
  "usd_deltas cents \<equiv>
     [usd_movement AccountGrain 101 Ar Debit [] cents, usd_movement AccountGrain 102 Revenue Credit [] cents,
      usd_movement ArPayerGrain 101 Ar Debit [] cents, usd_movement ArInvoiceGrain 101 Ar Debit ''inv-1'' cents]"

lemma usd_grains: "derive_grains reference_decimal usd_entry usd_lines [(101, Debit), (102, Credit)] = Inr (usd_deltas 125)"
  by (simp add: derive_grains_def usd_lines_def line_grains_def base_grain_def usd_entry_def grain_sort_key_def Let_def signed_amount_def
      less_eq_prod_def less_eq_grain_table_def less_prod_def less_grain_table_def usd_movement_def)

lemma usd_order [simp]:
  "dec_lt reference_decimal (Decimal 125 2) dec_zero = False" "dec_lt reference_decimal dec_zero dec_zero = False"
  "dec_lt reference_decimal (Decimal 125 2) (amount usd_zero) = False" "amount usd_zero = dec_zero"
  by (simp_all add: reference_decimal_def reference_cmp_def usd_zero_def dec_fits_numeric)

lemma usd_first_balances:
  "t \<noteq> TaxGrain \<Longrightarrow> final_balances reference_decimal (usd_movement t i c n doc 125) None None = Inr (usd_amount 125, None)"
  by (simp add: final_balances_def usd_movement_def usd_final)

text \<open>The rows of the first posting.\<close>

abbreviation usd_cache :: "int \<Rightarrow> grain_delta \<Rightarrow> cache_row" where
  "usd_cache seq g \<equiv> fresh_cache reference_decimal g seq (usd_amount 125) None"

abbreviation usd_account_row :: "int \<Rightarrow> grain_delta \<Rightarrow> account_row" where
  "usd_account_row seq g \<equiv> cache_row.extend (usd_cache seq g)
     (account_row.fields (account_class_as_str (gd_account_class g)) (side_as_str (gd_normal_side g)))"

abbreviation usd_invoice_row :: "int \<Rightarrow> grain_delta \<Rightarrow> ar_invoice_row" where
  "usd_invoice_row seq g \<equiv> cache_row.extend (usd_cache seq g)
     (ar_invoice_row.fields (encode_amount reference_decimal usd_zero) (Some (gd_posted_at g)) (gd_due_date g))"

lemmas upsert_unfold = upsert_grain_def Let_def read_cache_def on_existing_def account_differs_def guarded_write_def
  upsert_account_balance_def account_attempt_def upsert_ar_payer_def plain_attempt_def upsert_ar_invoice_def ar_invoice_attempt_def

lemma usd_upserts:
  shows "g = usd_movement AccountGrain i c n doc 125 \<Longrightarrow> account_balance s (account_key g) = None \<Longrightarrow>
      upsert_grain reference_decimal seq g s = Inr (s\<lparr>account_balance := (account_balance s)(account_key g \<mapsto> usd_account_row seq g)\<rparr>)"
    and "g = usd_movement ArPayerGrain i c n doc 125 \<Longrightarrow> ar_payer_balance s (ar_payer_key g) = None \<Longrightarrow>
      upsert_grain reference_decimal seq g s = Inr (s\<lparr>ar_payer_balance := (ar_payer_balance s)(ar_payer_key g \<mapsto> usd_cache seq g)\<rparr>)"
    and "g = usd_movement ArInvoiceGrain i c n doc 125 \<Longrightarrow> ar_invoice_balance s (ar_invoice_key g) = None \<Longrightarrow>
      upsert_grain reference_decimal seq g s = Inr (s\<lparr>ar_invoice_balance := (ar_invoice_balance s)(ar_invoice_key g \<mapsto> usd_invoice_row seq g)\<rparr>)"
proof -
  have f [simp]: "gd_table (usd_movement t i c n doc k) = t" "gd_disputed_delta (usd_movement t i c n doc k) = from_decimal dec_zero"
    "gd_currency_spec (usd_movement t i c n doc k) = usd" for t i c n doc k by (simp_all add: usd_movement_def)
  show "upsert_grain reference_decimal seq g s = Inr (s\<lparr>account_balance := (account_balance s)(account_key g \<mapsto> usd_account_row seq g)\<rparr>)"
    if "g = usd_movement AccountGrain i c n doc 125" "account_balance s (account_key g) = None"
    using that by (simp add: upsert_unfold usd_first_balances)
  show "upsert_grain reference_decimal seq g s = Inr (s\<lparr>ar_payer_balance := (ar_payer_balance s)(ar_payer_key g \<mapsto> usd_cache seq g)\<rparr>)"
    if "g = usd_movement ArPayerGrain i c n doc 125" "ar_payer_balance s (ar_payer_key g) = None"
    using that by (simp add: upsert_unfold usd_first_balances)
  show "upsert_grain reference_decimal seq g s = Inr (s\<lparr>ar_invoice_balance := (ar_invoice_balance s)(ar_invoice_key g \<mapsto> usd_invoice_row seq g)\<rparr>)"
    if "g = usd_movement ArInvoiceGrain i c n doc 125" "ar_invoice_balance s (ar_invoice_key g) = None"
    using that by (simp add: upsert_unfold usd_first_balances usd_final)
qed

definition usd_caches :: balance_caches where
  "usd_caches = (let g = (!) (usd_deltas 125) in
     empty_caches\<lparr>account_balance := [(1, 101, ''USD'') \<mapsto> usd_account_row 1 (g 0), (1, 102, ''USD'') \<mapsto> usd_account_row 1 (g 1)],
       ar_payer_balance := [(1, 7, 101, ''USD'') \<mapsto> usd_cache 1 (g 2)],
       ar_invoice_balance := [(1, 7, 101, ''inv-1'') \<mapsto> usd_invoice_row 1 (g 3)]\<rparr>)"

lemma usd_keys:
  "account_key (usd_movement t i c n doc k) = (1, i, ''USD'')" "ar_payer_key (usd_movement t i c n doc k) = (1, 7, i, ''USD'')"
  "ar_invoice_key (usd_movement t i c n doc k) = (1, 7, i, doc)"
  by (simp_all add: usd_movement_def account_key_def ar_payer_key_def ar_invoice_key_def)

lemma usd_projected: "project reference_decimal usd_entry usd_lines [(101, Debit), (102, Credit)] 1 empty_caches = Inr usd_caches"
  by (simp add: project_def usd_grains usd_upserts [OF refl] usd_keys empty_caches_def usd_caches_def Let_def)

lemma usd_sides: "load_normal_sides (db_accounts usd_db) usd_lines [] = Inr [(101, Debit), (102, Credit)]"
  by (simp add: usd_db_def usd_lines_def load_normal_side_def)

lemma usd_prepared:
  "prepare_attempt reference_decimal (is_tenant_posting_locked usd_db 1) 0 0 ''USD'' usd_lines = Inr ()"
proof -
  have "length usd_lines = 2" by (simp add: usd_lines_def)
  with usd_lines_balanced show ?thesis
    by (simp add: prepare_attempt_Inr [OF reference_decimal_contract] is_tenant_posting_locked_def usd_db_def)
qed

lemma iso_usd: "iso_scale ''USD'' = Some 2"
  by (simp add: iso_scale_lookup ISO_4217_def)

lemma usd_gates: "db_registry db = Map.empty \<Longrightarrow> db_freezes db = [] \<Longrightarrow> db_periods db = db_periods usd_db \<Longrightarrow>
    posting_gates Current None usd_entry usd_lines db = Inr ()"
  by (simp add: iso_usd posting_gates_def check_scales_def check_scale_def resolve_scale_def line_moneys_def freeze_check_def active_freeze_def
      pin_open_def policy_check_def check_sidecar_state_def usd_entry_def usd_db_def usd_lines_def)

lemma usd_inserted:
  "insert_entry_with_lines reference_decimal 1 usd_entry usd_lines \<lparr>j_entries = [], j_lines = []\<rparr> =
     Inr \<lparr>j_entries = [entry_row_of 1 usd_entry], j_lines = map (line_row_of reference_decimal usd_entry) usd_lines\<rparr>"
  by (simp add: insert_entry_with_lines_def entry_admitted_def insert_line_def line_admitted_def line_key_def usd_lines_def
      entry_row_of_def usd_entry_def) (simp add: line_row_of_def)

lemma usd_posted_once:
  "\<exists>db. post_once reference_decimal (usd_env H) None fresh_claim usd_entry usd_lines usd_db =
     Inr (\<lparr>pr_entry_id = 40, pr_created_seq = 1, pr_replayed = False\<rparr>, db) \<and> db_caches db = usd_caches \<and>
     (\<forall>k. k \<noteq> dedup_key_of usd_entry \<longrightarrow> db_dedup db k = None)"
proof -
  have "ne_source_doc_type usd_entry \<noteq> Reversal" "ne_tenant_id usd_entry = 1" "ne_posted_at_utc usd_entry = 0"
    "ne_entry_currency usd_entry = ''USD''" "ne_entry_id usd_entry = 40" by (simp_all add: usd_entry_def)
  moreover have "ee_now (usd_env H) = 0" "ee_seq (usd_env H) = 1" by (simp_all add: usd_env_def)
  moreover have "db_dedup usd_db = Map.empty" "db_registry usd_db = Map.empty" "db_freezes usd_db = []"
    "db_journal usd_db = \<lparr>j_entries = [], j_lines = []\<rparr>" "db_caches usd_db = empty_caches" "db_tips usd_db = Map.empty"
    by (simp_all add: usd_db_def)
  ultimately show ?thesis
    by (simp add: post_once_def attempt_post_def usd_prepared [simplified] usd_sides usd_projected post_in_txn_def idempotency_gate_def claim_def
        claim_with_status_def posting_writes_def Let_def usd_gates usd_inserted [simplified] run_sidecar_def seal_def finalize_def)
      (simp add: entry_key_def entry_row_of_def)
qed

text \<open>The state after the posting, under any digest of 32 bytes.\<close>

definition usd_posted_db :: "(bytes \<Rightarrow> bytes) \<Rightarrow> unit ledger_db" where
  "usd_posted_db H =
     (case post_once reference_decimal (usd_env H) None fresh_claim usd_entry usd_lines usd_db of Inr (_, db) \<Rightarrow> db | Inl _ \<Rightarrow> usd_db)"

lemma usd_posting:
  "post_once reference_decimal (usd_env H) None fresh_claim usd_entry usd_lines usd_db =
     Inr (\<lparr>pr_entry_id = 40, pr_created_seq = 1, pr_replayed = False\<rparr>, usd_posted_db H)"
  using usd_posted_once [of H] by (auto simp: usd_posted_db_def)

lemma usd_posted_caches: "db_caches (usd_posted_db H) = usd_caches"
  using usd_posted_once [of H] by (auto simp: usd_posted_db_def)

lemma usd_posted_claims: "k \<noteq> dedup_key_of usd_entry \<Longrightarrow> db_dedup (usd_posted_db H) k = None"
  using usd_posted_once [of H] by (cases k) (auto simp: usd_posted_db_def)

lemma usd_lines_storable: "\<forall>l\<in>set usd_lines. line_storable l"
  by (auto simp: usd_lines_def line_storable_def usd_amount_ok usd_spec_ok)

lemma usd_blank: "blank usd_db"
  by (simp add: blank_def usd_db_def)

lemma usd_step: "ledger_step reference_decimal H usd_db (usd_posted_db H)"
proof (rule ledger_step.posting [OF _ _ usd_lines_storable usd_posting])
  show "ee_digest (usd_env H) = H" "fresh_seq (usd_env H) usd_db" by (simp_all add: usd_env_def fresh_seq_def usd_db_def)
qed

lemma usd_reachable: "reachable reference_decimal H (usd_posted_db H)"
  using usd_blank usd_step unfolding reachable_def by blast

lemma usd_posting_step: "posting_step reference_decimal H 1 usd_entry usd_lines usd_db (usd_posted_db H)"
proof -
  have "attempt_post reference_decimal (usd_env H) None fresh_claim Current usd_entry usd_lines usd_db =
      Inr (\<lparr>pr_entry_id = 40, pr_created_seq = 1, pr_replayed = False\<rparr>, usd_posted_db H)"
    using usd_posting [of H] by (simp add: post_once_def usd_entry_def)
  from attempt_post_Inr [OF reference_decimal_contract this] show ?thesis by (auto simp: usd_env_def)
qed

lemma usd_implements: "implements reference_decimal H (usd_posted_db H) [(1, usd_entry, usd_lines)]"
  using implements_step [OF reference_decimal_contract reference_text_contract blank_implements [OF usd_blank] usd_posting_step usd_lines_storable]
  by (simp add: usd_db_def)

lemma usd_accounts: "db_accounts (usd_posted_db H) = db_accounts usd_db" "db_locks (usd_posted_db H) = db_locks usd_db"
  using usd_posting_step [of H] by (simp_all only: posting_step_def same_reference_def)

definition flat_digest :: "bytes \<Rightarrow> bytes" where
  "flat_digest b = replicate 32 CHR 0x41"

lemma flat_digest_contract: "digest_contract flat_digest"
  by (simp add: digest_contract_def flat_digest_def)

interpretation usd_books: posted_ledger reference_decimal flat_digest "usd_posted_db flat_digest" "[(1, usd_entry, usd_lines)]"
  by unfold_locales (simp_all add: reference_decimal_contract reference_text_contract usd_implements flat_digest_contract)

end
