(* ===== verification/Reversal_Example.thy ===== *)
theory Reversal_Example
  imports Ledger_Example
begin

text \<open>The reversal of the posted invoice, on the rows its posting left.\<close>

definition usd_reversal :: new_entry where
  "usd_reversal = usd_entry\<lparr>ne_entry_id := 41, ne_source_doc_type := Reversal, ne_source_business_id := ''rev-1'',
     ne_reverses_entry_id := Some 40, ne_reverses_period_id := Some ''202611''\<rparr>"

definition usd_reversal_env :: "(bytes \<Rightarrow> bytes) \<Rightarrow> engine_env" where
  "usd_reversal_env H = (usd_env H)\<lparr>ee_seq := 2, ee_fresh := (\<lambda>n. 50 + n)\<rparr>"

abbreviation usd_flipped :: "new_line list" where
  "usd_flipped \<equiv> flip_journal_lines (\<lambda>n. 50 + n) 0 usd_lines"

section \<open>The caches\<close>

lemma usd_flipped_grains:
  "derive_grains reference_decimal usd_reversal usd_flipped [(101, Debit), (102, Credit)] = Inr (usd_deltas (- 125))"
  by (simp add: derive_grains_def usd_lines_def line_grains_def base_grain_def usd_reversal_def usd_entry_def grain_sort_key_def Let_def
      signed_amount_def less_eq_prod_def less_eq_grain_table_def less_prod_def less_grain_table_def usd_movement_def usd_new_line_def
      reference_decimal_def dec_fits_numeric)

lemma usd_read_back:
  "decode_money reference_decimal (encode_amount reference_decimal (usd_amount 125)) ''USD'' 2 = Inr (usd_amount 125)"
  "decode_money reference_decimal (encode_amount reference_decimal usd_zero) ''USD'' 2 = Inr usd_zero"
  by (simp_all add: decode_money_Inr [OF reference_contracts] usd_amount_ok usd_spec_ok)
    (simp_all add: usd_zero_def posted_ok_def dec_canonical_def usd_spec_ok)

lemma usd_second:
  "final_amount reference_decimal (from_decimal (Decimal (- 125) 2)) (Some (usd_amount 125)) usd = Inr usd_zero"
  "final_amount reference_decimal (from_decimal dec_zero) (Some usd_zero) usd = Inr usd_zero"
proof -
  have zero: "represents usd_zero usd 0" by (auto simp: represents_def posted_ok_def usd_zero_def dec_canonical_def)
  have narrow_zero: "narrow 0 = Inr (from_decimal dec_zero)" using ready_narrow [of "from_decimal dec_zero"] by simp
  have placed: "into_posted_exact reference_decimal (from_decimal dec_zero) usd = Inr usd_zero"
    using into_posted_exact_Inr [OF reference_decimal_contract, of "from_decimal dec_zero" usd usd_zero] zero by simp
  show "final_amount reference_decimal (from_decimal (Decimal (- 125) 2)) (Some (usd_amount 125)) usd = Inr usd_zero"
    by (simp add: final_amount_def match_currency_def ensure_same_def checked_add_narrow narrow_zero placed dec_fits_numeric)
  show "final_amount reference_decimal (from_decimal dec_zero) (Some usd_zero) usd = Inr usd_zero"
    by (simp add: final_amount_def match_currency_def ensure_same_def checked_add_narrow narrow_zero placed) (simp add: usd_zero_def)
qed

lemma usd_second_balances:
  "t \<noteq> TaxGrain \<Longrightarrow> final_balances reference_decimal (usd_movement t i c n doc (- 125)) (Some (usd_amount 125)) None = Inr (usd_zero, None)"
  by (simp add: final_balances_def usd_movement_def usd_second match_currency_def ensure_same_def)

lemma usd_upserts_again:
  shows "account_balance s (1, i, ''USD'') = Some (usd_account_row 1 (usd_movement AccountGrain i c n doc 125)) \<Longrightarrow>
      \<exists>r. upsert_grain reference_decimal seq (usd_movement AccountGrain i c n doc (- 125)) s =
        Inr (s\<lparr>account_balance := (account_balance s)((1, i, ''USD'') \<mapsto> r)\<rparr>)"
    and "ar_payer_balance s (1, 7, i, ''USD'') = Some (usd_cache 1 (usd_movement ArPayerGrain i c n doc 125)) \<Longrightarrow>
      \<exists>r. upsert_grain reference_decimal seq (usd_movement ArPayerGrain i c n doc (- 125)) s =
        Inr (s\<lparr>ar_payer_balance := (ar_payer_balance s)((1, 7, i, ''USD'') \<mapsto> r)\<rparr>)"
    and "ar_invoice_balance s (1, 7, i, doc) = Some (usd_invoice_row 1 (usd_movement ArInvoiceGrain i c n doc 125)) \<Longrightarrow>
      \<exists>r. upsert_grain reference_decimal seq (usd_movement ArInvoiceGrain i c n doc (- 125)) s =
        Inr (s\<lparr>ar_invoice_balance := (ar_invoice_balance s)((1, 7, i, doc) \<mapsto> r)\<rparr>)"
proof -
  have f [simp]: "gd_table (usd_movement t i c n doc k) = t" "gd_disputed_delta (usd_movement t i c n doc k) = from_decimal dec_zero"
    "gd_currency_spec (usd_movement t i c n doc k) = usd" "gd_account_id (usd_movement t i c n doc k) = i"
    "gd_account_class (usd_movement t i c n doc k) = c" "gd_normal_side (usd_movement t i c n doc k) = n"
    "gd_currency (usd_movement t i c n doc k) = ''USD''" "gd_functional_currency (usd_movement t i c n doc k) = None"
    for t i c n doc k by (simp_all add: usd_movement_def)
  note rows = row_balance_def row_functional_def fresh_cache_def fresh_balance_def balance_row.defs cache_row.defs account_row.defs
    ar_invoice_row.defs usd_read_back next_version_def require_one_def usd_second_balances usd_second usd_keys
  show "\<exists>r. upsert_grain reference_decimal seq (usd_movement AccountGrain i c n doc (- 125)) s =
        Inr (s\<lparr>account_balance := (account_balance s)((1, i, ''USD'') \<mapsto> r)\<rparr>)"
    if "account_balance s (1, i, ''USD'') = Some (usd_account_row 1 (usd_movement AccountGrain i c n doc 125))"
    using that by (simp add: upsert_unfold rows) blast
  show "\<exists>r. upsert_grain reference_decimal seq (usd_movement ArPayerGrain i c n doc (- 125)) s =
        Inr (s\<lparr>ar_payer_balance := (ar_payer_balance s)((1, 7, i, ''USD'') \<mapsto> r)\<rparr>)"
    if "ar_payer_balance s (1, 7, i, ''USD'') = Some (usd_cache 1 (usd_movement ArPayerGrain i c n doc 125))"
    using that by (simp add: upsert_unfold rows) blast
  show "\<exists>r. upsert_grain reference_decimal seq (usd_movement ArInvoiceGrain i c n doc (- 125)) s =
        Inr (s\<lparr>ar_invoice_balance := (ar_invoice_balance s)((1, 7, i, doc) \<mapsto> r)\<rparr>)"
    if "ar_invoice_balance s (1, 7, i, doc) = Some (usd_invoice_row 1 (usd_movement ArInvoiceGrain i c n doc 125))"
    using that by (simp add: upsert_unfold rows) blast
qed

lemma usd_reversal_projected: "\<exists>s. project reference_decimal usd_reversal usd_flipped [(101, Debit), (102, Credit)] 2 usd_caches = Inr s"
proof -
  note caches = usd_caches_def [unfolded Let_def, simplified]
  let ?s = usd_caches
  obtain x where x: "upsert_grain reference_decimal 2 (usd_movement AccountGrain 101 Ar Debit [] (- 125)) ?s =
      Inr (?s\<lparr>account_balance := (account_balance ?s)((1, 101, ''USD'') \<mapsto> x)\<rparr>)" (is "_ = Inr ?s1")
    using usd_upserts_again(1) [of ?s 101 Ar Debit "[]" 2] by (auto simp: caches)
  obtain y where y: "upsert_grain reference_decimal 2 (usd_movement AccountGrain 102 Revenue Credit [] (- 125)) ?s1 =
      Inr (?s1\<lparr>account_balance := (account_balance ?s1)((1, 102, ''USD'') \<mapsto> y)\<rparr>)" (is "_ = Inr ?s2")
    using usd_upserts_again(1) [of ?s1 102 Revenue Credit "[]" 2] by (auto simp: caches)
  obtain z where z: "upsert_grain reference_decimal 2 (usd_movement ArPayerGrain 101 Ar Debit [] (- 125)) ?s2 =
      Inr (?s2\<lparr>ar_payer_balance := (ar_payer_balance ?s2)((1, 7, 101, ''USD'') \<mapsto> z)\<rparr>)" (is "_ = Inr ?s3")
    using usd_upserts_again(2) [of ?s2 101 Ar Debit "[]" 2] by (auto simp: caches)
  obtain w where w: "upsert_grain reference_decimal 2 (usd_movement ArInvoiceGrain 101 Ar Debit ''inv-1'' (- 125)) ?s3 =
      Inr (?s3\<lparr>ar_invoice_balance := (ar_invoice_balance ?s3)((1, 7, 101, ''inv-1'') \<mapsto> w)\<rparr>)"
    using usd_upserts_again(3) [of ?s3 101 "''inv-1''" Ar Debit 2] by (auto simp: caches)
  show ?thesis by (simp add: project_def usd_flipped_grains x y [simplified] z [simplified] w [simplified])
qed

section \<open>The posting\<close>

lemma usd_flipped_balanced: "balanced_lines ''USD'' (map line_facts_of usd_flipped)"
  by (auto simp: usd_lines_def balanced_lines_def scales_agree_def functional_balanced_def code_net_def line_net_def
      line_facts_of_def usd_value dec_fits_numeric)

lemma usd_flipped_prepared: "prepare_attempt reference_decimal (is_tenant_posting_locked (usd_posted_db H) 1) 0 0 ''USD'' usd_flipped = Inr ()"
proof -
  have "length usd_flipped = 2" by (simp add: usd_lines_def)
  with usd_flipped_balanced show ?thesis
    by (simp add: prepare_attempt_Inr [OF reference_decimal_contract] is_tenant_posting_locked_def usd_accounts) (simp add: usd_db_def)
qed

lemma usd_flipped_sides: "load_normal_sides (db_accounts (usd_posted_db H)) usd_flipped [] = Inr [(101, Debit), (102, Credit)]"
  by (simp add: usd_accounts usd_db_def usd_lines_def load_normal_side_def)

lemma usd_posted_rows:
  "db_journal (usd_posted_db H) = \<lparr>j_entries = [sealed_row reference_decimal H 1 usd_entry usd_lines None],
     j_lines = map (line_row_of reference_decimal usd_entry) usd_lines\<rparr>"
  "db_tips (usd_posted_db H) = [1 \<mapsto> tip_of reference_decimal H 1 usd_entry usd_lines None]"
  using usd_posting_step [of H] by (simp_all only: posting_step_def) (simp_all add: usd_db_def usd_entry_def)

lemma usd_posted_reference:
  "db_freezes (usd_posted_db H) = []" "db_periods (usd_posted_db H) = db_periods usd_db"
  "db_dedup (usd_posted_db H) (1, source_doc_type_as_str Reversal, ''rev-1'') = None"
proof -
  have "same_reference usd_db (usd_posted_db H)" using usd_posting_step [of H] by (simp only: posting_step_def)
  then show "db_freezes (usd_posted_db H) = []" "db_periods (usd_posted_db H) = db_periods usd_db"
    by (simp_all add: same_reference_def usd_db_def)
  show "db_dedup (usd_posted_db H) (1, source_doc_type_as_str Reversal, ''rev-1'') = None"
    by (rule usd_posted_claims) (simp add: usd_entry_def dedup_key_of_def)
qed

lemma usd_read_reversed:
  "read_lines_to_reverse reference_decimal (db_journal (usd_posted_db H)) 1 40 ''202611'' = Inr (None, usd_lines)"
proof -
  have lines: "entry_lines (db_journal (usd_posted_db H)) 1 ''202611'' 40 = map (line_row_of reference_decimal usd_entry) usd_lines"
    by (simp add: usd_posted_rows entry_lines_def usd_lines_def) (simp add: line_row_of_def usd_entry_def)
  have "list_ex (\<lambda>r. jl_rate_snapshot_ref r \<noteq> None) (map (line_row_of reference_decimal usd_entry) usd_lines) = False"
    "(case map (line_row_of reference_decimal usd_entry) usd_lines of [] \<Rightarrow> None | r # _ \<Rightarrow> jl_rate_snapshot_ref r) = None"
    by (simp_all add: usd_lines_def line_row_of_def usd_entry_def)
  then show ?thesis
    unfolding read_lines_to_reverse_def lines by (simp add: Let_def decode_rows [OF reference_contracts usd_lines_storable])
qed

lemma usd_reversal_gates: "posting_gates StoredReversal None usd_reversal usd_flipped (usd_posted_db H) = Inr ()"
  by (simp add: posting_gates_def freeze_check_def active_freeze_def pin_open_def check_sidecar_state_def usd_posted_reference)
    (simp add: policy_check_def usd_posted_rows usd_reversal_def usd_entry_def usd_db_def usd_lines_def line_row_of_def
      first_unreused_tuple_def row_tuple_def line_tuple_def usd_new_line_def)

lemma usd_reversal_inserted:
  "insert_entry_with_lines reference_decimal 2 usd_reversal usd_flipped (db_journal (usd_posted_db H)) =
     Inr \<lparr>j_entries = [sealed_row reference_decimal H 1 usd_entry usd_lines None, entry_row_of 2 usd_reversal],
       j_lines = map (line_row_of reference_decimal usd_entry) usd_lines @ map (line_row_of reference_decimal usd_reversal) usd_flipped\<rparr>"
  by (simp add: usd_posted_rows insert_entry_with_lines_def entry_admitted_def insert_line_def line_admitted_def line_key_def usd_lines_def
      entry_row_of_def usd_entry_def usd_reversal_def entry_key_def) (simp add: line_row_of_def)

lemma usd_reversed_once:
  assumes H: "digest_contract H"
  shows "\<exists>db. post_reversal_once reference_decimal (usd_reversal_env H) None fresh_claim usd_reversal (usd_posted_db H) =
     Inr (\<lparr>pr_entry_id = 41, pr_created_seq = 2, pr_replayed = False\<rparr>, db)"
proof -
  obtain s where s: "project reference_decimal usd_reversal usd_flipped [(101, Debit), (102, Credit)] 2 usd_caches = Inr s"
    using usd_reversal_projected by blast
  have e: "ne_tenant_id usd_reversal = 1" "ne_posted_at_utc usd_reversal = 0" "ne_entry_currency usd_reversal = ''USD''"
    "ne_entry_id usd_reversal = 41" "ne_reverses_entry_id usd_reversal = Some 40" "ne_reverses_period_id usd_reversal = Some ''202611''"
    "dedup_key_of usd_reversal = (1, source_doc_type_as_str Reversal, ''rev-1'')" "usd_reversal\<lparr>ne_rate_snapshot_ref := None\<rparr> = usd_reversal"
    "ne_period_id usd_reversal = ''202611''"
    by (simp_all add: usd_reversal_def usd_entry_def dedup_key_of_def)
  have v: "ee_now (usd_reversal_env H) = 0" "ee_seq (usd_reversal_env H) = 2" "ee_fresh (usd_reversal_env H) = (\<lambda>n. 50 + n)"
    "ee_digest (usd_reversal_env H) = H" by (simp_all add: usd_reversal_env_def usd_env_def)
  have tip: "length (last_row_hash (tip_of reference_decimal H 1 usd_entry usd_lines None)) = 32"
    using H by (simp add: tip_of_def chain_row_hash_def digest_contract_def)
  obtain d where gate: "idempotency_gate reference_decimal (usd_reversal_env H) fresh_claim usd_reversal usd_flipped
      (db_dedup (usd_posted_db H)) = Inr (None, d)" and d: "\<exists>row. d (dedup_key_of usd_reversal) = Some row"
    using usd_posted_reference(3) [of H, folded e(7)] by (simp add: idempotency_gate_def claim_def claim_with_status_def Let_def)
  have gates: "posting_gates StoredReversal None usd_reversal usd_flipped ((usd_posted_db H)\<lparr>db_dedup := d\<rparr>) = Inr ()"
    using usd_reversal_gates [of H] by (simp add: posting_gates_def)
  have sealed: "\<exists>x. seal reference_decimal H usd_reversal usd_flipped 2
      \<lparr>j_entries = [sealed_row reference_decimal H 1 usd_entry usd_lines None, entry_row_of 2 usd_reversal], j_lines = rows\<rparr>
      (db_tips (usd_posted_db H)) = Inr x" for rows
    using tip by (simp add: seal_def usd_posted_rows e Let_def) (simp add: entry_key_def entry_row_of_def usd_entry_def usd_reversal_def)
  obtain db where writes: "posting_writes reference_decimal (usd_reversal_env H) [(101, Debit), (102, Credit)] None usd_reversal usd_flipped
      ((usd_posted_db H)\<lparr>db_dedup := d\<rparr>) = Inr db"
  proof -
    obtain row j' tips where "d (dedup_key_of usd_reversal) = Some row"
      "seal reference_decimal H usd_reversal usd_flipped 2
        \<lparr>j_entries = [sealed_row reference_decimal H 1 usd_entry usd_lines None, entry_row_of 2 usd_reversal],
         j_lines = map (line_row_of reference_decimal usd_entry) usd_lines @ map (line_row_of reference_decimal usd_reversal) usd_flipped\<rparr>
        (db_tips (usd_posted_db H)) = Inr (j', tips)" using d sealed by fast
    with s usd_reversal_inserted [of H] usd_posted_caches [of H] show thesis
      by (intro that) (simp add: posting_writes_def v run_sidecar_def finalize_def)
  qed
  have "usd_lines \<noteq> []" by (simp add: usd_lines_def)
  then show ?thesis
    using usd_flipped_prepared [of H] usd_flipped_sides [of H] usd_read_reversed [of H] gates writes gate
    by (simp add: post_reversal_once_def attempt_post_def post_in_txn_def e v del: One_nat_def)
qed

end
