(* ===== verification/Trial_Balance.thy ===== *)
theory Trial_Balance
  imports Ledger_State
begin

text \<open>
  The books of a reachable ledger balance: summed over the accounts of a tenant, with every account counted on its
  normal side, the cached balances of a currency cancel.
\<close>

abbreviation account_grain :: "uuid \<Rightarrow> uuid \<Rightarrow> string \<Rightarrow> grain_key" where
  "account_grain t a c \<equiv> (AccountGrain, t, a, c, 0, [], [], [], [])"

definition debit_side :: "side option \<Rightarrow> rat \<Rightarrow> rat" where
  "debit_side n q = (case n of Some sd \<Rightarrow> signed sd q | None \<Rightarrow> 0)"

definition used_accounts :: "journal \<Rightarrow> uuid list" where
  "used_accounts j = remdups (map jl_account_id (j_lines j))"

definition trial_balance :: "decimal_ops \<Rightarrow> 'x ledger_db \<Rightarrow> uuid \<Rightarrow> string \<Rightarrow> rat" where
  "trial_balance D db t c =
     (\<Sum>a\<leftarrow>used_accounts (db_journal db).
        debit_side (account_side (db_accounts db) a) (cached (view_balance D) (db_caches db) (account_grain t a c)))"

lemma account_grain_touched:
  "account_grain t a c \<in> set (line_keys t' l) \<longleftrightarrow> t' = t \<and> account_id l = a \<and> code (currency (money l)) = c"
  by (cases "account_class l") (auto simp: line_keys_def Let_def split: option.splits)

lemma debit_side_add [simp]: "debit_side n (x + y) = debit_side n x + debit_side n y" "debit_side n 0 = 0"
  by (auto simp: debit_side_def split: option.splits side.splits) (metis (full_types) add.inverse_distrib_swap add.commute signed.simps side.exhaust)+

lemma debit_side_value:
  "n (account_id l) = Some sd \<Longrightarrow> debit_side (n (account_id l)) (line_value n l) = signed (side l) (mval (money l))"
  by (cases sd; cases "side l") (simp_all add: debit_side_def line_value_def)

lemma entry_debits:
  assumes A: "finite A" "\<forall>l\<in>set ls. account_id l \<in> A \<and> n (account_id l) \<noteq> None"
  shows "(\<Sum>a\<in>A. debit_side (n a) (entry_moves t' (line_value n) ls (account_grain t a c))) =
    (if t' = t then code_net (map line_facts_of ls) c else 0)"
  using A(2)
proof (induction ls)
  case (Cons l ls)
  let ?v = "\<lambda>a. if account_grain t a c \<in> set (line_keys t' l) then line_value n l else 0"
  have "(\<Sum>a\<in>A. debit_side (n a) (?v a)) =
      (\<Sum>a\<in>A. if account_id l = a then (if t' = t \<and> code (currency (money l)) = c then debit_side (n a) (line_value n l) else 0) else 0)"
    by (intro sum.cong refl) (simp add: account_grain_touched)
  also have "\<dots> = (if t' = t \<and> code (currency (money l)) = c then signed (side l) (mval (money l)) else 0)"
    using Cons.prems A(1) debit_side_value [of n l] by auto
  finally have line: "(\<Sum>a\<in>A. debit_side (n a) (?v a)) = \<dots>" .
  have "entry_moves t' (line_value n) (l # ls) k = (if k \<in> set (line_keys t' l) then line_value n l else 0) + entry_moves t' (line_value n) ls k" for k
    by (simp add: entry_moves_def)
  then have "(\<Sum>a\<in>A. debit_side (n a) (entry_moves t' (line_value n) (l # ls) (account_grain t a c))) =
      (\<Sum>a\<in>A. debit_side (n a) (?v a)) + (\<Sum>a\<in>A. debit_side (n a) (entry_moves t' (line_value n) ls (account_grain t a c)))"
    by (simp add: sum.distrib)
  with line Cons show ?case by (simp add: code_net_def line_net_def)
qed (simp add: entry_moves_def code_net_def)

lemma history_debits:
  assumes "finite A" "\<forall>p\<in>set h. sound_posting accounts p" "\<forall>p\<in>set h. \<forall>l\<in>set (snd (snd p)). account_id l \<in> A"
  shows "(\<Sum>a\<in>A. debit_side (account_side accounts a) (history_moves (line_value (account_side accounts)) h (account_grain t a c))) = 0"
  using assms(2,3)
proof (induction h)
  case (Cons p h)
  let ?n = "account_side accounts"
  have "history_moves (line_value ?n) (p # h) k = entry_moves (ne_tenant_id (fst (snd p))) (line_value ?n) (snd (snd p)) k + history_moves (line_value ?n) h k" for k
    by (simp add: history_moves_def)
  then have "(\<Sum>a\<in>A. debit_side (?n a) (history_moves (line_value ?n) (p # h) (account_grain t a c))) =
      (\<Sum>a\<in>A. debit_side (?n a) (entry_moves (ne_tenant_id (fst (snd p))) (line_value ?n) (snd (snd p)) (account_grain t a c)))"
    using Cons by (simp add: sum.distrib)
  also have "\<dots> = 0"
    using Cons.prems entry_debits [OF assms(1), of "snd (snd p)" ?n] by (auto simp: sound_posting_def balanced_lines_def)
  finally show ?case .
qed (simp add: history_moves_def)

lemma trial_balance_zero:
  assumes "implements D H db h"
  shows "trial_balance D db t c = 0"
proof -
  let ?A = "set (used_accounts (db_journal db))"
  have acc: "\<forall>p\<in>set h. sound_posting (db_accounts db) p" "\<forall>p\<in>set h. \<forall>l\<in>set (snd (snd p)). account_id l \<in> ?A"
    using assms by (auto simp: implements_def used_accounts_def posted_line_rows_def line_row_of_def image_iff)
  have "trial_balance D db t c =
      (\<Sum>a\<in>?A. debit_side (account_side (db_accounts db) a) (cached (view_balance D) (db_caches db) (account_grain t a c)))"
    by (simp add: trial_balance_def used_accounts_def sum_list_distinct_conv_sum_set)
  also have "\<dots> = (\<Sum>a\<in>?A. debit_side (account_side (db_accounts db) a)
      (history_moves (line_value (account_side (db_accounts db))) h (account_grain t a c)))"
    using assms by (simp add: implements_def caches_tie_def)
  also have "\<dots> = 0" by (rule history_debits [OF _ acc]) simp
  finally show ?thesis .
qed

end
