(* ===== verification/Ledger_Properties.thy ===== *)
theory Ledger_Properties
  imports Reversal_Example Trial_Balance
begin

text \<open>
  The properties of the posting engine and the balance caches, over every state the engine reaches from an
  empty ledger.
\<close>

section \<open>Books\<close>

text \<open>C1: the database of the ledger implements a list of postings.  In every reachable state the journal, the chain tips,
  the claims and the caches are those of one list of balanced postings, and whatever the engine does next
  (posting, reversing, queueing, upkeep) only appends to that list.\<close>

theorem ledger_refines_postings:
  assumes "decimal_contract D" "text_contract D" "reachable D H db" "ledger_run D H db db'"
  shows "\<exists>h new. implements D H db h \<and> implements D H db' (h @ new)"
proof -
  obtain h where h: "implements D H db h" by (rule reachable_implements [OF assms(1-3)])
  from ledger_run_extends [OF assms(1,2) h assms(4)] h show ?thesis unfolding extends_def by blast
qed

theorem ledger_refines_postings_witness:
  "\<exists>h new. implements reference_decimal flat_digest (usd_posted_db flat_digest) h \<and>
     implements reference_decimal flat_digest (usd_posted_db flat_digest) (h @ new) \<and> j_entries (db_journal (usd_posted_db flat_digest)) \<noteq> []"
  using ledger_refines_postings [OF reference_contracts usd_reachable rtranclp.rtrancl_refl] usd_books.journal(1) by simp

text \<open>C2: the caches tie out to the journal.  In every reachable state the cached balance of every grain, and the
  disputed part of every invoice, is the sum over the stored journal rows of what each row moves, decoded
  and signed by the normal side of its account; the cached functional balance likewise, except in the tax table,
  which has none.\<close>

theorem caches_tie_out:
  assumes "decimal_contract D" "text_contract D" "reachable D H db"
  shows "cached (view_balance D) (db_caches db) k =
      row_moves D (line_value (account_side (db_accounts db))) (j_lines (db_journal db)) k \<and>
    cached (view_disputed D) (db_caches db) k =
      row_moves D (line_disputed (account_side (db_accounts db)) k) (j_lines (db_journal db)) k \<and>
    (fst k = TaxGrain \<or> cached (view_functional D) (db_caches db) k =
      row_moves D (line_functional (account_side (db_accounts db))) (j_lines (db_journal db)) k)"
proof -
  obtain h where "implements D H db h" by (rule reachable_implements [OF assms])
  note tie = posted_books.tie_out [OF posted_booksI(1) [OF assms(1,2) this], of k]
  show ?thesis using tie by blast
qed

theorem caches_tie_out_witness:
  "cached (view_balance reference_decimal) (db_caches (usd_posted_db flat_digest)) (account_grain 1 101 ''USD'') = 5 / 4"
proof -
  let ?db = "usd_posted_db flat_digest"
  have "cached (view_balance reference_decimal) (db_caches ?db) (account_grain 1 101 ''USD'') =
      row_moves reference_decimal (line_value (account_side (db_accounts ?db))) (j_lines (db_journal ?db)) (account_grain 1 101 ''USD'')"
    using caches_tie_out [OF reference_contracts usd_reachable, where k = "account_grain 1 101 ''USD''"] by blast
  also have "\<dots> = entry_moves 1 (line_value (account_side (db_accounts ?db))) usd_lines (account_grain 1 101 ''USD'')"
    using usd_books.journal(2) row_moves_stored [OF reference_contracts usd_lines_storable, of _ usd_entry]
    by (simp add: posted_line_rows_def usd_entry_def)
  also have "\<dots> = 5 / 4"
    by (simp add: usd_accounts entry_moves_def account_grain_touched usd_lines_def line_value_def usd_value account_side_def usd_db_def dec_fits_numeric)
  finally show ?thesis .
qed

text \<open>C4: the books balance.  In every reachable state, for every tenant and currency, the cached balances of the accounts
  cancel when each is counted on its normal side.\<close>

theorem books_balance:
  assumes "decimal_contract D" "text_contract D" "reachable D H db"
  shows "trial_balance D db t c = 0"
proof -
  obtain h where "implements D H db h" by (rule reachable_implements [OF assms])
  then show ?thesis by (rule trial_balance_zero)
qed

theorem books_balance_witness:
  "trial_balance reference_decimal (usd_posted_db flat_digest) 1 ''USD'' = 0 \<and> used_accounts (db_journal (usd_posted_db flat_digest)) = [101, 102]"
  using books_balance [OF reference_contracts usd_reachable, of flat_digest 1 "''USD''"] usd_books.journal(2)
  by (simp add: used_accounts_def posted_line_rows_def usd_lines_def line_row_of_def)

text \<open>C9: no guarded balance goes negative.  In every reachable state every cached row decodes, the balances of receivables,
  wallets and guarded account classes are not negative, and the disputed part of an invoice is between zero
  and its balance.\<close>

theorem guarded_balances:
  assumes "decimal_contract D" "text_contract D" "reachable D H db" "view (db_caches db) k = Some v"
  shows "(\<exists>m. row_balance D v = Inr m) \<and> (\<exists>f. row_functional D v = Inr f) \<and>
    (\<not> guarded_view (fst k) v \<or> 0 \<le> view_balance D v) \<and>
    (fst k \<noteq> ArInvoiceGrain \<or> 0 \<le> view_disputed D v \<and> view_disputed D v \<le> view_balance D v)"
proof -
  obtain h where "implements D H db h" by (rule reachable_implements [OF assms(1-3)])
  then have "caches_ok D (db_caches db)" by (simp add: implements_def)
  with assms(4) have "view_ok D (fst k) v" unfolding caches_ok_def by blast
  then show ?thesis unfolding view_ok_def by blast
qed

theorem guarded_balances_witness:
  "\<exists>v. view (db_caches (usd_posted_db flat_digest)) (ArInvoiceGrain, 1, 101, [], 7, ''inv-1'', [], [], []) = Some v \<and>
     0 \<le> view_disputed reference_decimal v \<and> view_disputed reference_decimal v \<le> view_balance reference_decimal v"
proof -
  let ?db = "usd_posted_db flat_digest" and ?k = "(ArInvoiceGrain, 1, 101, [], 7, ''inv-1'', [], [], []) :: grain_key"
  have "cached (view_balance reference_decimal) (db_caches ?db) ?k = entry_moves 1 (line_value (account_side (db_accounts ?db))) usd_lines ?k"
    using usd_books.tie_out(1) [of ?k] usd_books.journal(2) row_moves_stored [OF reference_contracts usd_lines_storable, of _ usd_entry]
    by (simp add: posted_line_rows_def usd_entry_def)
  also have "\<dots> = 5 / 4"
    by (simp add: usd_accounts entry_moves_def line_keys_def Let_def usd_lines_def line_value_def usd_value account_side_def usd_db_def dec_fits_numeric)
  finally obtain v where v: "view (db_caches ?db) ?k = Some v" by (cases "view (db_caches ?db) ?k") (auto simp: cached_def)
  with guarded_balances [OF reference_contracts usd_reachable v] show ?thesis by auto
qed

section \<open>Idempotency\<close>

text \<open>The columns of the journal that carry keys.\<close>

definition row_claim :: "entry_row \<Rightarrow> dedup_key" where
  "row_claim r = (je_tenant_id r, je_source_doc_type r, je_source_business_id r)"

definition row_reverses :: "entry_row \<Rightarrow> (uuid \<times> string \<times> uuid) option" where
  "row_reverses r =
     (case (je_reverses_entry_id r, je_reverses_period_id r) of
        (Some original, Some period) \<Rightarrow> Some (je_tenant_id r, period, original) | _ \<Rightarrow> None)"

lemma sealed_rows_map:
  assumes "\<And>seq e ls tip. f (sealed_row D H seq e ls tip) = g (seq, e, ls)"
  shows "map f (sealed_rows D H h tips) = map g h"
  using assms by (induction h arbitrary: tips) auto

lemma row_key_columns:
  "map row_claim (sealed_rows D H h tips) = map (dedup_key_of \<circ> fst \<circ> snd) h"
  "map row_reverses (sealed_rows D H h tips) = map reversed_by h"
  subgoal by (rule sealed_rows_map) (simp add: row_claim_def dedup_key_of_def sealed_row_def entry_row_of_def Let_def)
  subgoal by (rule sealed_rows_map) (simp add: row_reverses_def reversed_by_def split: option.split)
  done

text \<open>C7: every business event posts at most once.  In a reachable journal no two entries have the same idempotency
  key, no two have the same primary key, no entry is reversed twice, and every entry is the recorded result of
  its claim.\<close>

theorem posts_at_most_once:
  assumes "decimal_contract D" "text_contract D" "reachable D H db"
  shows "distinct (map row_claim (j_entries (db_journal db))) \<and> distinct (map entry_key (j_entries (db_journal db))) \<and>
    distinct (filter (\<lambda>x. x \<noteq> None) (map row_reverses (j_entries (db_journal db)))) \<and>
    list_all (\<lambda>r. \<exists>row. db_dedup db (row_claim r) = Some row \<and> dr_status row = STATUS_POSTED \<and>
      dr_result_entry_id row = Some (je_entry_id r)) (j_entries (db_journal db))"
proof -
  obtain h where h: "implements D H db h" by (rule reachable_implements [OF assms])
  then have rows: "j_entries (db_journal db) = sealed_rows D H h Map.empty" and keys: "keys_ok h" and dedup: "dedup_ok h (db_dedup db)"
    by (simp_all add: implements_def)
  have "\<exists>row. db_dedup db (row_claim r) = Some row \<and> dr_status row = STATUS_POSTED \<and> dr_result_entry_id row = Some (je_entry_id r)"
    if r: "r \<in> set (sealed_rows D H h Map.empty)" for r
  proof -
    obtain seq e ls tip where p: "(seq, e, ls) \<in> set h" and row: "r = sealed_row D H seq e ls tip" using sealed_rows_set [OF r] by blast
    have "row_claim r = dedup_key_of e" "je_entry_id r = ne_entry_id e"
      by (simp_all add: row row_claim_def dedup_key_of_def sealed_row_def entry_row_of_def Let_def)
    with dedup p show ?thesis unfolding dedup_ok_def by force
  qed
  then show ?thesis
    using keys unfolding rows row_key_columns sealed_rows_keys keys_ok_def list_all_iff by blast
qed

theorem posts_at_most_once_witness:
  "distinct (map row_claim (j_entries (db_journal (usd_posted_db flat_digest)))) \<and>
     map je_entry_id (j_entries (db_journal (usd_posted_db flat_digest))) = [40]"
  using posts_at_most_once [OF reference_contracts usd_reachable, of flat_digest] usd_books.journal(1)
  by (simp add: usd_entry_def)

text \<open>C5: a posting is idempotent.  Once an event is posted, whatever happens to the ledger afterwards, posting under the
  same key again returns the same entry and changes nothing if the content is the same, and is refused as a conflict
  if it is not.  The replay comes before the freeze, period and currency checks.\<close>

theorem posting_is_idempotent:
  assumes "decimal_contract D" "text_contract D" "reachable D H db" "ee_digest env = H" "fresh_seq env db" "\<forall>l\<in>set ls. line_storable l"
    and first: "post_once D env sc spec e ls db = Inr (r, db1)" "cs_mode spec = Fresh" and later: "ledger_run D H db1 db2"
    and again: "dedup_key_of e2 = dedup_key_of e" "cs_mode spec2 = Fresh"
      "prepare_attempt D (is_tenant_posting_locked db2 (ne_tenant_id e2)) (ee_now env2) (ne_posted_at_utc e2) (ne_entry_currency e2) ls2 = Inr ()"
      "load_normal_sides (db_accounts db2) ls2 [] = Inr sides"
  shows "post_once D env2 sc2 spec2 e2 ls2 db2 =
    (if spec_hash D env2 spec2 e2 ls2 = spec_hash D env spec e ls
     then Inr (\<lparr>pr_entry_id = pr_entry_id r, pr_created_seq = 0, pr_replayed = True\<rparr>, db2)
     else Inl (Business D_IdempotencyConflict))"
proof -
  have doc: "ne_source_doc_type e \<noteq> Reversal" and run: "attempt_post D env sc spec Current e ls db = Inr (r, db1)"
    using first(1) by (simp_all add: post_once_def split: if_splits)
  have "ne_source_doc_type e2 = ne_source_doc_type e" using again(1) by (simp add: dedup_key_of_def)
  with doc have doc2: "ne_source_doc_type e2 \<noteq> Reversal" by simp
  have "\<exists>row. db_dedup db1 (dedup_key_of e) = Some row \<and> dr_status row = STATUS_POSTED \<and> dr_result_entry_id row = Some (pr_entry_id r) \<and>
      dr_payload_hash row = spec_hash D env spec e ls"
    using attempt_post_Inr [OF assms(1) run]
  proof
    assume "r = \<lparr>pr_entry_id = ne_entry_id e, pr_created_seq = ee_seq env, pr_replayed = False\<rparr> \<and> posted_gates Current e ls db \<and>
     posting_step D (ee_digest env) (ee_seq env) e ls db db1 \<and>
     (cs_mode spec = Fresh \<longrightarrow> map_option dr_payload_hash (db_dedup db1 (dedup_key_of e)) = Some (spec_hash D env spec e ls))"
    then have step: "posting_step D (ee_digest env) (ee_seq env) e ls db db1" and r: "pr_entry_id r = ne_entry_id e"
      and hash: "map_option dr_payload_hash (db_dedup db1 (dedup_key_of e)) = Some (spec_hash D env spec e ls)"
      using first(2) by simp_all
    obtain row where "db_dedup db1 (dedup_key_of e) = Some row" "dr_status row = STATUS_POSTED"
      "dr_result_entry_id row = Some (ne_entry_id e)" using step [unfolded posting_step_def] by blast
    with r hash show ?thesis by simp
  qed (use first(2) in blast)
  then obtain row where row: "db_dedup db1 (dedup_key_of e) = Some row" "dr_status row = STATUS_POSTED"
    "dr_result_entry_id row = Some (pr_entry_id r)" "dr_payload_hash row = spec_hash D env spec e ls" by blast
  obtain h where h: "implements D H db h" by (rule reachable_implements [OF assms(1-3)])
  from extends_attempt [OF assms(1,2) h assms(4-6) run] obtain h1 where "implements D H db1 h1" by (auto simp: extends_def)
  from ledger_run_extends [OF assms(1,2) this later] row(1,2) have "db_dedup db2 (dedup_key_of e2) = Some row"
    unfolding extends_def again(1) by blast
  from idempotency_gate_posted [where D = D and env = env2 and ls = ls2 and t = "db_dedup db2" and e = e2, OF this row(2,3) again(2)] row(4)
  have gate: "idempotency_gate D env2 spec2 e2 ls2 (db_dedup db2) =
      (if spec_hash D env2 spec2 e2 ls2 = spec_hash D env spec e ls then Inr (Some (pr_entry_id r), db_dedup db2)
       else Inl (Business D_IdempotencyConflict))" by auto
  show ?thesis
    using doc2 again(3,4) by (simp add: post_once_def attempt_post_def post_in_txn_def gate)
qed

theorem posting_is_idempotent_witness:
  "post_once reference_decimal (usd_env flat_digest) None fresh_claim usd_entry usd_lines (usd_posted_db flat_digest) =
     Inr (\<lparr>pr_entry_id = 40, pr_created_seq = 0, pr_replayed = True\<rparr>, usd_posted_db flat_digest)"
proof -
  have "prepare_attempt reference_decimal (is_tenant_posting_locked (usd_posted_db flat_digest) (ne_tenant_id usd_entry))
      (ee_now (usd_env flat_digest)) (ne_posted_at_utc usd_entry) (ne_entry_currency usd_entry) usd_lines = Inr ()"
    using usd_prepared by (simp add: usd_accounts is_tenant_posting_locked_def usd_env_def usd_entry_def)
  moreover have "load_normal_sides (db_accounts (usd_posted_db flat_digest)) usd_lines [] = Inr [(101, Debit), (102, Credit)]"
    by (simp add: usd_accounts usd_sides)
  moreover have "reachable reference_decimal flat_digest usd_db" using usd_blank unfolding reachable_def by blast
  moreover have "ee_digest (usd_env flat_digest) = flat_digest" "fresh_seq (usd_env flat_digest) usd_db"
    by (simp_all add: usd_env_def fresh_seq_def usd_db_def)
  ultimately show ?thesis
    using posting_is_idempotent [OF reference_contracts, of flat_digest usd_db "usd_env flat_digest" usd_lines None fresh_claim usd_entry _
        "usd_posted_db flat_digest" "usd_posted_db flat_digest" usd_entry fresh_claim "usd_env flat_digest" usd_lines "[(101, Debit), (102, Credit)]" None]
      usd_posting usd_lines_storable by simp
qed

section \<open>Gates\<close>

text \<open>C13: a closed gate posts nothing.  While a tenant is locked, its period is not open or a tamper freeze covers it, an
  attempt is refused or replays an entry that was posted before; the database stays as it is.\<close>

theorem closed_gate_posts_nothing:
  assumes "decimal_contract D"
    and "db_locks db (ne_tenant_id e) = Some True \<or> active_freeze (db_freezes db) (ne_tenant_id e) (ne_period_id e) \<or>
      db_periods db (ne_tenant_id e, ne_legal_entity_id e, ne_period_id e) \<noteq> Some PERIOD_STATUS_OPEN"
  shows "(\<exists>err. post_once D env sc spec e ls db = Inl err) \<or> (\<exists>r. post_once D env sc spec e ls db = Inr (r, db) \<and> pr_replayed r)"
proof (cases "post_once D env sc spec e ls db")
  case (Inr y)
  obtain r db' where y: "y = (r, db')" by (cases y)
  then have "attempt_post D env sc spec Current e ls db = Inr (r, db')" using Inr by (simp add: post_once_def split: if_splits)
  from attempt_post_Inr [OF assms(1) this] assms(2) Inr y show ?thesis by (auto simp: posted_gates_def)
qed simp

theorem closed_gate_posts_nothing_witness:
  "\<exists>err. post_once reference_decimal (usd_env flat_digest) None fresh_claim usd_entry usd_lines (usd_db\<lparr>db_periods := Map.empty\<rparr>) = Inl err"
proof -
  let ?db = "usd_db\<lparr>db_periods := Map.empty\<rparr>"
  have "\<not> pr_replayed r" if "post_once reference_decimal (usd_env flat_digest) None fresh_claim usd_entry usd_lines ?db = Inr (r, ?db)" for r
    using that attempt_post_Inr [OF reference_decimal_contract, of "usd_env flat_digest" None fresh_claim Current usd_entry usd_lines ?db r ?db]
    by (auto simp: post_once_def usd_db_def split: if_splits)
  with closed_gate_posts_nothing [OF reference_decimal_contract, of ?db usd_entry "usd_env flat_digest" None fresh_claim usd_lines]
  show ?thesis by auto
qed

section \<open>Reversals\<close>

text \<open>C8: a reversal takes back exactly what the original moved.  When the engine posts a reversal, the cached balance of
  every grain changes by the opposite of what the stored rows of the original entry move.\<close>

theorem reversal_restores_balances:
  assumes D: "decimal_contract D" and T: "text_contract D" and db: "reachable D H db" and env: "ee_digest env = H" "fresh_seq env db"
    and e: "ne_reverses_entry_id e = Some original" "ne_reverses_period_id e = Some period"
    and run: "post_reversal_once D env sc spec e db = Inr (r, db')" "\<not> pr_replayed r"
  shows "cached (view_balance D) (db_caches db') k = cached (view_balance D) (db_caches db) k -
    row_moves D (line_value (account_side (db_accounts db))) (entry_lines (db_journal db) (ne_tenant_id e) period original) k"
proof -
  obtain h where h: "implements D H db h" by (rule reachable_implements [OF D T db])
  obtain snapshot ls where ls: "read_lines_to_reverse D (db_journal db) (ne_tenant_id e) original period = Inr (snapshot, ls)" "ls \<noteq> []"
    and post: "attempt_post D env sc spec StoredReversal (e\<lparr>ne_rate_snapshot_ref := snapshot\<rparr>) (flip_journal_lines (ee_fresh env) 0 ls) db = Inr (r, db')"
    using run(1) e by (auto simp: post_reversal_once_def split: if_splits)
  let ?flip = "flip_journal_lines (ee_fresh env) 0 ls" and ?e = "e\<lparr>ne_rate_snapshot_ref := snapshot\<rparr>" and ?n = "account_side (db_accounts db)"
  note storable = read_lines_storable [OF D T h ls(1)]
  have step: "posting_step D H (ee_seq env) ?e ?flip db db'" using attempt_post_Inr [OF D post] run(2) env(1) by blast
  note h' = implements_step [OF D T h step flip_storable [OF storable] env(2) [unfolded fresh_seq_def]]
  have acc: "db_accounts db' = db_accounts db" using step by (simp only: posting_step_def same_reference_def)
  have decoded: "map_result (decode_line D) (entry_lines (db_journal db) (ne_tenant_id e) period original) = Inr ls"
    using ls(1) by (auto simp: read_lines_to_reverse_def Let_def split: if_splits)
  from posted_books.lines_of_key [OF posted_booksI(1) [OF D T h] decoded ls(2)] obtain seq f where
    f: "(seq, f, ls) \<in> set h" "ne_tenant_id f = ne_tenant_id e"
      "entry_lines (db_journal db) (ne_tenant_id e) period original = map (line_row_of D f) ls" by blast
  have known: "\<forall>l\<in>set ls. ?n (account_id l) \<noteq> None" using h f(1) by (auto simp: implements_def sound_posting_def)
  have "cached (view_balance D) (db_caches db') k = history_moves (line_value ?n) (h @ [(ee_seq env, ?e, ?flip)]) k"
    using implements_balance [OF h', of k] unfolding acc .
  also have "\<dots> = cached (view_balance D) (db_caches db) k - entry_moves (ne_tenant_id e) (line_value ?n) ls k"
    using implements_balance [OF h, of k] entry_moves_flip [OF known] by (simp add: history_moves_snoc)
  also have "entry_moves (ne_tenant_id e) (line_value ?n) ls k =
      row_moves D (line_value ?n) (entry_lines (db_journal db) (ne_tenant_id e) period original) k"
    unfolding f(3) using row_moves_stored [OF D T storable] f(2) by simp
  finally show ?thesis .
qed

theorem reversal_restores_balances_witness:
  "\<exists>r db'. post_reversal_once reference_decimal (usd_reversal_env flat_digest) None fresh_claim usd_reversal (usd_posted_db flat_digest) = Inr (r, db') \<and>
     cached (view_balance reference_decimal) (db_caches db') (account_grain 1 101 ''USD'') = 0"
proof -
  let ?db = "usd_posted_db flat_digest" and ?r = "\<lparr>pr_entry_id = 41, pr_created_seq = 2, pr_replayed = False\<rparr>"
  let ?k = "account_grain 1 101 ''USD''" and ?v = "line_value (account_side (db_accounts (usd_posted_db flat_digest)))"
  obtain db' where run: "post_reversal_once reference_decimal (usd_reversal_env flat_digest) None fresh_claim usd_reversal ?db = Inr (?r, db')"
    using usd_reversed_once [OF flat_digest_contract] by blast
  have e: "ne_reverses_entry_id usd_reversal = Some 40" "ne_reverses_period_id usd_reversal = Some ''202611''" "ne_tenant_id usd_reversal = 1"
    by (simp_all add: usd_reversal_def usd_entry_def)
  have env: "ee_digest (usd_reversal_env flat_digest) = flat_digest" "fresh_seq (usd_reversal_env flat_digest) ?db"
    by (simp_all add: usd_reversal_env_def usd_env_def fresh_seq_def usd_posted_rows)
  have rows: "entry_lines (db_journal ?db) 1 ''202611'' 40 = j_lines (db_journal ?db)"
    using usd_books.lines_found [of "[]" 1 usd_entry usd_lines "[]"] by (simp add: usd_posted_rows usd_entry_def)
  have "cached (view_balance reference_decimal) (db_caches db') ?k =
      cached (view_balance reference_decimal) (db_caches ?db) ?k - row_moves reference_decimal ?v (j_lines (db_journal ?db)) ?k"
    using reversal_restores_balances [OF reference_contracts usd_reachable env e(1,2) run, of ?k] unfolding e(3) rows by simp
  also have "\<dots> = 0" using usd_books.tie_out(1) [of ?k] by simp
  finally show ?thesis using run by blast
qed

section \<open>What the journal stores\<close>

text \<open>C15: every stored entry reads back.  In a reachable state the rows of every entry decode, without an error, to lines
  that are well formed and balance in the currency of the entry, so every entry can be reversed.\<close>

theorem entries_read_back:
  assumes "decimal_contract D" "text_contract D" "reachable D H db" "r \<in> set (j_entries (db_journal db))"
  shows "\<exists>snapshot ls. read_lines_to_reverse D (db_journal db) (je_tenant_id r) (je_entry_id r) (je_period_id r) = Inr (snapshot, ls) \<and>
    balanced_lines (je_entry_currency r) (map line_facts_of ls) \<and> list_all line_storable ls"
proof -
  obtain h where h: "implements D H db h" by (rule reachable_implements [OF assms(1-3)])
  then have "r \<in> set (sealed_rows D H h Map.empty)" using assms(4) by (simp add: implements_def)
  then obtain seq e ls tip where p: "(seq, e, ls) \<in> set h" and r: "r = sealed_row D H seq e ls tip" using sealed_rows_set by blast
  then obtain h1 h2 where "h = h1 @ (seq, e, ls) # h2" by (meson split_list)
  note rows = posted_books.lines_found [OF posted_booksI(1) [OF assms(1,2) h] this]
  have sound: "balanced_lines (ne_entry_currency e) (map line_facts_of ls)" "\<forall>l\<in>set ls. line_storable l"
    using h p by (auto simp: implements_def sound_posting_def)
  have stamped: "jl_rate_snapshot_ref (line_row_of D e l) = ne_rate_snapshot_ref e" for l by (simp add: line_row_of_def)
  have "ls \<noteq> []" using sound(1) by (auto simp: balanced_lines_def)
  then have "read_lines_to_reverse D (db_journal db) (ne_tenant_id e) (ne_entry_id e) (ne_period_id e) = Inr (ne_rate_snapshot_ref e, ls)"
    using decode_rows [OF assms(1,2) sound(2), of e] unfolding read_lines_to_reverse_def rows
    by (auto simp: Let_def list_ex_iff neq_Nil_conv stamped)
  with sound r show ?thesis by (auto simp: sealed_row_def entry_row_of_def Let_def list_all_iff)
qed

theorem entries_read_back_witness:
  "\<exists>snapshot ls. read_lines_to_reverse reference_decimal (db_journal (usd_posted_db flat_digest)) 1 40 ''202611'' = Inr (snapshot, ls) \<and>
     balanced_lines ''USD'' (map line_facts_of ls) \<and> list_all line_storable ls"
  using entries_read_back [OF reference_contracts usd_reachable, where r = "sealed_row reference_decimal flat_digest 1 usd_entry usd_lines None"]
  by (simp add: usd_posted_rows) (simp add: sealed_row_def entry_row_of_def Let_def usd_entry_def)

end
