(* ===== verification/Tamper_Evidence.thy ===== *)
theory Tamper_Evidence
  imports Verified_Chain
begin

text \<open>
  What a clean walk proves.  With a digest that does not collide on the buffers at hand, two journals whose
  walks are clean and whose newest entries carry the same hash hold the same chain: the same entries in the
  same order, with the same covered content and the same links.
\<close>

section \<open>What a walk reads\<close>

definition stored_entry :: "decimal_ops \<Rightarrow> journal \<Rightarrow> uuid \<Rightarrow> walk_key \<Rightarrow> (new_entry \<times> new_line list) option" where
  "stored_entry D j t k = Option.bind (find_header j t k) (\<lambda>header. reconstruct D header (entry_lines j t (snd k) (fst k)))"

definition stored_content :: "decimal_ops \<Rightarrow> journal \<Rightarrow> uuid \<Rightarrow> walk_key \<Rightarrow> (new_entry \<times> new_line list) option" where
  "stored_content D j t k = map_option (\<lambda>(e, ls). (covered_entry e, map covered_line (sort_key line_id ls))) (stored_entry D j t k)"

definition stored_links :: "journal \<Rightarrow> uuid \<Rightarrow> walk_key \<Rightarrow> (bytes option \<times> uuid option \<times> string option) option" where
  "stored_links j t k = map_option (\<lambda>r. (je_prev_hash r, je_prev_entry_id r, je_prev_period_id r)) (find_header j t k)"

definition stored_hash :: "journal \<Rightarrow> uuid \<Rightarrow> walk_key \<Rightarrow> bytes option" where
  "stored_hash j t k = Option.bind (find_header j t k) je_row_hash"

definition genesis_buffer :: "uuid \<Rightarrow> bytes" where
  "genesis_buffer t = CHAIN_DOMAIN_SEP @ put_uuid t @ put_str ''GENESIS''"

definition chain_inputs :: "decimal_ops \<Rightarrow> journal \<Rightarrow> uuid \<Rightarrow> bytes set" where
  "chain_inputs D j t = insert (genesis_buffer t)
     {b. \<exists>k e ls header p. stored_entry D j t k = Some (e, ls) \<and> find_header j t k = Some header \<and>
        je_prev_hash header = Some p \<and> b = chain_buffer D e ls p}"

definition content_fits :: "decimal_ops \<Rightarrow> journal \<Rightarrow> uuid \<Rightarrow> bool" where
  "content_fits D j t \<longleftrightarrow>
     (\<forall>k e ls. stored_entry D j t k = Some (e, ls) \<longrightarrow> entry_fits e \<and> (\<forall>l\<in>set ls. line_fits D l) \<and> length ls < 2 ^ 64)"

lemma genesis_buffer_differs:
  assumes "uuid_fits t" "entry_fits e"
  shows "genesis_buffer t \<noteq> chain_buffer D e ls p"
proof
  assume "genesis_buffer t = chain_buffer D e ls p"
  then obtain u where u: "put_uuid t @ put ''GENESIS'' = put_uuid (ne_tenant_id e) @ put_uuid (ne_entry_id e) @ u"
    by (auto simp: genesis_buffer_def chain_buffer_def chain_entry_def Let_def put_str_def)
  have "uuid_fits (ne_tenant_id e)" using assms(2) by (simp add: entry_fits_def)
  from uuid_field.reading [OF assms(1) this u] have "put ''GENESIS'' @ [] = put (be_bytes 16 (ne_entry_id e)) @ u"
    by (simp add: put_uuid_def)
  from put_split [OF _ _ this] have "''GENESIS'' = be_bytes 16 (ne_entry_id e)" by (simp add: field_fits_def)
  then have "length ''GENESIS'' = length (be_bytes 16 (ne_entry_id e))" by (rule arg_cong)
  then show False by simp
qed

lemma reconstruct_ids:
  "reconstruct D header rows = Some (e, ls) \<Longrightarrow> ne_entry_id e = je_entry_id header \<and> ne_tenant_id e = je_tenant_id header \<and>
     ne_period_id e = je_period_id header"
  by (auto simp: reconstruct_def Let_def split: sum.splits)

lemma find_header_key:
  "find_header j t k = Some header \<Longrightarrow> je_entry_id header = fst k \<and> je_tenant_id header = t \<and> je_period_id header = snd k"
  by (auto simp: find_header_def find_Some_iff)

lemma parent_of_Inr: "parent_of H t header prev = Inr (parent, p) \<Longrightarrow> p = prev \<and> (parent = None \<longrightarrow> prev = genesis_prev_hash H t)"
  by (auto simp: parent_of_def split: option.splits if_splits)

lemma check_entry_Inr:
  assumes "check_entry D H j t k link = Inr (parent, prev)"
  shows "\<exists>header e ls. find_header j t k = Some header \<and> stored_entry D j t k = Some (e, ls) \<and> je_prev_hash header = Some prev \<and>
    stored_hash j t k = Some (H (chain_buffer D e ls prev)) \<and> length prev = 32 \<and>
    (link = None \<or> link = Some (H (chain_buffer D e ls prev))) \<and> (parent = None \<longrightarrow> prev = genesis_prev_hash H t) \<and>
    k = (ne_entry_id e, ne_period_id e)"
proof -
  obtain header rh e ls where *: "find_header j t k = Some header" "je_row_hash header = Some rh" "je_prev_hash header = Some prev"
    "length prev = 32" "reconstruct D header (entry_lines j t (snd k) (fst k)) = Some (e, ls)"
    "chain_row_hash D H e ls prev = rh" "link = None \<or> link = Some rh" "parent = None \<longrightarrow> prev = genesis_prev_hash H t"
    using assms parent_of_Inr unfolding check_entry_eq_Inr by blast
  have "stored_entry D j t k = Some (e, ls)" "stored_hash j t k = Some rh" using * by (simp_all add: stored_entry_def stored_hash_def)
  then show ?thesis
    using * find_header_key [OF *(1)] reconstruct_ids [OF *(5)]
    by (intro exI [of _ header] exI [of _ e] exI [of _ ls]) (simp add: chain_row_hash_def)
qed

lemma check_entry_links:
  "check_entry D H j t k link = Inr (parent, prev) \<Longrightarrow> stored_links j t k = Some (Some prev, map_option fst parent, map_option snd parent)"
  unfolding check_entry_eq_Inr by (auto simp: stored_links_def parent_of_def split: option.splits if_splits)

lemma check_entry_anchor:
  "check_entry D H j t k None = Inr y \<Longrightarrow> check_entry D H j t k (stored_hash j t k) = Inr y"
  unfolding check_entry_eq_Inr by (auto simp: stored_hash_def)

section \<open>Two clean walks\<close>

definition no_collision :: "decimal_ops \<Rightarrow> (bytes \<Rightarrow> bytes) \<Rightarrow> uuid \<Rightarrow> journal \<Rightarrow> journal \<Rightarrow> bool" where
  "no_collision D H t j j' \<longleftrightarrow> inj_on H (chain_inputs D j t \<union> chain_inputs D j' t)"

lemma checks_agree:
  assumes free: "no_collision D H t j j'" and fits: "content_fits D j t" "content_fits D j' t"
    and run: "check_entry D H j t k (Some a) = Inr (parent, prev)" "check_entry D H j' t k' (Some a) = Inr (parent', prev')"
  shows "k = k' \<and> prev = prev' \<and> stored_content D j t k = stored_content D j' t k"
proof -
  obtain header e ls where c: "find_header j t k = Some header" "stored_entry D j t k = Some (e, ls)" "je_prev_hash header = Some prev"
    "a = H (chain_buffer D e ls prev)" "length prev = 32" "k = (ne_entry_id e, ne_period_id e)"
    using check_entry_Inr [OF run(1)] by simp blast
  obtain header' e' ls' where c': "find_header j' t k' = Some header'" "stored_entry D j' t k' = Some (e', ls')" "je_prev_hash header' = Some prev'"
    "a = H (chain_buffer D e' ls' prev')" "length prev' = 32" "k' = (ne_entry_id e', ne_period_id e')"
    using check_entry_Inr [OF run(2)] by simp blast
  have "chain_buffer D e ls prev \<in> chain_inputs D j t" "chain_buffer D e' ls' prev' \<in> chain_inputs D j' t"
    unfolding chain_inputs_def using c(1-3) c'(1-3) by blast+
  with free c(4) c'(4) have eq: "chain_buffer D e ls prev = chain_buffer D e' ls' prev'"
    unfolding no_collision_def by (metis UnI1 UnI2 inj_onD)
  have f: "entry_fits e" "\<forall>l\<in>set ls. line_fits D l" "length ls < 2 ^ 64"
    "entry_fits e'" "\<forall>l\<in>set ls'. line_fits D l" "length ls' < 2 ^ 64"
    using fits c(2) c'(2) unfolding content_fits_def by blast+
  have "field_fits prev" "field_fits prev'" using c(5) c'(5) by (simp_all add: field_fits_def)
  note R = chain_buffer_reading [OF f(1,4,2,5,3,6) this eq]
  have "ne_entry_id e = ne_entry_id (covered_entry e)" "ne_period_id e = ne_period_id (covered_entry e)" for e
    by (simp_all add: covered_entry_def)
  with R c(6) c'(6) have "k = k'" by metis
  moreover have "stored_content D j t k = stored_content D j' t k'" using R c(2) c'(2) by (simp add: stored_content_def)
  ultimately show ?thesis using R by simp
qed

text \<open>An entry cannot carry the hash of the seed.\<close>

lemma check_not_genesis:
  assumes free: "no_collision D H t j j'" and fits: "content_fits D j t" and t: "uuid_fits t"
  shows "check_entry D H j t k (Some (genesis_prev_hash H t)) \<noteq> Inr y"
proof
  assume run: "check_entry D H j t k (Some (genesis_prev_hash H t)) = Inr y"
  obtain parent prev where y: "y = (parent, prev)" by (cases y)
  obtain header e ls where c: "find_header j t k = Some header" "stored_entry D j t k = Some (e, ls)" "je_prev_hash header = Some prev"
    "genesis_prev_hash H t = H (chain_buffer D e ls prev)"
    using check_entry_Inr [OF run [unfolded y]] by simp blast
  have "chain_buffer D e ls prev \<in> chain_inputs D j t" "genesis_buffer t \<in> chain_inputs D j t"
    unfolding chain_inputs_def using c(1-3) by blast+
  moreover have "H (genesis_buffer t) = H (chain_buffer D e ls prev)"
    using c(4) by (simp add: genesis_prev_hash_def genesis_buffer_def)
  ultimately have "genesis_buffer t = chain_buffer D e ls prev"
    using free unfolding no_collision_def by (metis UnI1 inj_onD)
  moreover have "entry_fits e" using fits c(2) unfolding content_fits_def by blast
  ultimately show False using genesis_buffer_differs [OF t] by metis
qed

lemma no_collision_sym: "no_collision D H t j j' \<Longrightarrow> no_collision D H t j' j"
  by (simp add: no_collision_def Un_commute)

text \<open>The parents agree: the next round of each walk expects the same hash.\<close>

lemma walk_head:
  assumes "verify_walk D H j t c (Some a) seen = (ks, None)"
  shows "c = None \<or> (\<exists>k y. c = Some k \<and> check_entry D H j t k (Some a) = Inr y)"
  using assms by (cases c) (auto split: if_splits sum.splits prod.splits)

lemma parents_agree:
  assumes "no_collision D H t j j'" "content_fits D j t" "content_fits D j' t" "uuid_fits t"
    and walks: "verify_walk D H j t c (Some a) seen = (ks, None)" "verify_walk D H j' t c' (Some a) seen' = (ks', None)"
    and roots: "c = None \<Longrightarrow> a = genesis_prev_hash H t" "c' = None \<Longrightarrow> a = genesis_prev_hash H t"
  shows "c = c'"
proof (cases c)
  case None
  then show ?thesis
    using walk_head [OF walks(2)] roots(1) check_not_genesis [OF no_collision_sym [OF assms(1)] assms(3,4)] by metis
next
  case (Some k)
  then obtain y where y: "check_entry D H j t k (Some a) = Inr y" using walk_head [OF walks(1)] by auto
  then obtain k' y' where k': "c' = Some k'" "check_entry D H j' t k' (Some a) = Inr y'"
    using walk_head [OF walks(2)] roots(2) check_not_genesis [OF assms(1,2,4)] by metis
  with checks_agree [OF assms(1-3), of k a "fst y" "snd y" k' "fst y'" "snd y'"] y Some show ?thesis by simp
qed

lemma walks_agree:
  assumes "no_collision D H t j j'" "content_fits D j t" "content_fits D j' t" "uuid_fits t"
    and "verify_walk D H j t c link seen = (ks, None)" "verify_walk D H j' t c' link seen = (ks', None)" "link = Some a"
    and "c = None \<Longrightarrow> a = genesis_prev_hash H t" "c' = None \<Longrightarrow> a = genesis_prev_hash H t"
  shows "ks = ks' \<and> (\<forall>k\<in>set ks. k \<in> set seen \<or> stored_content D j t k = stored_content D j' t k \<and> stored_links j t k = stored_links j' t k)"
  using assms
proof (induction D H j t c link seen arbitrary: a c' rule: verify_walk.induct)
  case (1 D H j t link seen)
  show ?case
  proof (cases c')
    case (Some k')
    then obtain y where "check_entry D H j' t k' (Some (genesis_prev_hash H t)) = Inr y"
      using 1 by (auto split: if_splits sum.splits prod.splits)
    with check_not_genesis [OF no_collision_sym [OF 1(1)] 1(3,4)] show ?thesis by blast
  qed (use 1 in auto)
next
  case (2 D H j t k link seen)
  note prems = 2(2-)
  obtain parent prev where run: "check_entry D H j t k (Some a) = Inr (parent, prev)" and new: "k \<notin> set seen"
    and rest: "verify_walk D H j t parent (Some prev) (k # seen) = (ks, None)"
    using prems(5,7) by (auto split: if_splits sum.splits prod.splits)
  obtain k' where c': "c' = Some k'"
    using prems(9) run check_not_genesis [OF prems(1,2,4)] by (cases c') auto
  obtain parent' prev' where run': "check_entry D H j' t k' (Some a) = Inr (parent', prev')"
    and rest': "verify_walk D H j' t parent' (Some prev') (k' # seen) = (ks', None)"
    using prems(6,7) c' by (auto split: if_splits sum.splits prod.splits)
  note A = checks_agree [OF prems(1-3) run run']
  have roots: "parent = None \<Longrightarrow> prev = genesis_prev_hash H t" "parent' = None \<Longrightarrow> prev = genesis_prev_hash H t"
    using check_entry_Inr [OF run] check_entry_Inr [OF run'] A by blast+
  have "parent = parent'"
    using parents_agree [OF prems(1-4) rest _ roots] rest' A by blast
  then have links: "stored_links j t k = stored_links j' t k"
    using check_entry_links [OF run] check_entry_links [OF run'] A by simp
  have "ks = ks' \<and> (\<forall>x\<in>set ks. x \<in> set (k # seen) \<or> stored_content D j t x = stored_content D j' t x \<and> stored_links j t x = stored_links j' t x)"
    using 2(1) [OF new _ refl prems(1-4) rest _ refl roots, of parent'] run prems(7) rest' A by simp
  with A links show ?case by auto
qed

text \<open>The verifier starts without an expected hash; a clean walk is also clean from the hash its first entry stores.\<close>

lemma walk_anchor:
  "verify_walk D H j t (Some k) None [] = (ks, None) \<Longrightarrow> verify_walk D H j t (Some k) (stored_hash j t k) [] = (ks, None)"
  using check_entry_anchor [of D H j t k] by (auto split: sum.splits)

lemma verify_tenant_walk:
  "db_tips db t = Some tip \<Longrightarrow> snd (verify_tenant D H db later t) = None \<Longrightarrow>
     \<exists>ks. verify_walk D H (db_journal db) t (Some (tip_cursor tip)) None [] = (ks, None)"
  by (auto simp: verify_tenant_def Let_def split: prod.splits if_splits)

lemma tampering_shows:
  assumes books: "posted_ledger D H db h" and tip: "db_tips db t = Some tip"
    and forged: "db_tips forged t = Some tip" "stored_hash (db_journal forged) t (tip_cursor tip) = Some (last_row_hash tip)"
      "snd (verify_tenant D H forged later t) = None"
    and free: "no_collision D H t (db_journal db) (db_journal forged)"
    and fits: "content_fits D (db_journal db) t" "content_fits D (db_journal forged) t" "uuid_fits t"
    and k: "k \<in> set (tenant_keys t h)"
  shows "stored_content D (db_journal db) t k = stored_content D (db_journal forged) t k \<and>
    stored_links (db_journal db) t k = stored_links (db_journal forged) t k"
proof -
  have tips: "advance_tips D H h Map.empty t = Some tip"
    using tip posted_books.journal(3) [OF posted_ledger.axioms(1) [OF books]] by simp
  have own: "verify_walk D H (db_journal db) t (Some (tip_cursor tip)) (Some (last_row_hash tip)) [] = (tenant_keys t h, None)"
    using posted_ledger.walk_clean [OF books, of h "[]" t "[]" "Some (last_row_hash tip)"] tips by simp
  obtain ks where "verify_walk D H (db_journal forged) t (Some (tip_cursor tip)) None [] = (ks, None)"
    using verify_tenant_walk [OF forged(1,3)] by blast
  from walk_anchor [OF this] forged(2)
  have other: "verify_walk D H (db_journal forged) t (Some (tip_cursor tip)) (Some (last_row_hash tip)) [] = (ks, None)" by simp
  from walks_agree [OF free fits own other refl] k show ?thesis by simp
qed

end
