(* ===== verification/Frozen_Ledger.thy ===== *)
theory Frozen_Ledger
  imports Verifier Ledger_State
begin

text \<open>
  A ledger under a tenant-wide freeze.  Along every run that leaves the freeze active no attempt writes an entry
  of the tenant, be it a posting or a reversal; other tenants go on.
\<close>

section \<open>Attempts under a freeze\<close>

text \<open>An attempt that is refused, or that replays an entry and leaves the database alone.\<close>

definition writes_nothing :: "'x ledger_db \<Rightarrow> db_error + posting_ref \<times> 'x ledger_db \<Rightarrow> bool" where
  "writes_nothing db outcome \<longleftrightarrow> (case outcome of Inl _ \<Rightarrow> True | Inr (r, db') \<Rightarrow> pr_replayed r \<and> db' = db)"

abbreviation tenant_frozen :: "uuid \<Rightarrow> 'x ledger_db \<Rightarrow> bool" where
  "tenant_frozen t db \<equiv> active_freeze (db_freezes db) t PERIOD_ALL"

lemma tenant_frozen_period: "tenant_frozen t db \<Longrightarrow> active_freeze (db_freezes db) t period"
  by (auto simp: active_freeze_def list_ex_iff)

lemma attempt_frozen:
  assumes "decimal_contract D" "tenant_frozen (ne_tenant_id e) db"
  shows "writes_nothing db (attempt_post D env sc spec origin e ls db)"
proof (cases "attempt_post D env sc spec origin e ls db")
  case (Inr y)
  obtain r db' where y: "y = (r, db')" by (cases y)
  have "\<not> posted_gates origin e ls db" using tenant_frozen_period [OF assms(2)] by (simp add: posted_gates_def)
  with attempt_post_Inr [OF assms(1) Inr [unfolded y]] Inr y show ?thesis by (simp add: writes_nothing_def)
qed (simp add: writes_nothing_def)

lemma post_once_frozen:
  "decimal_contract D \<Longrightarrow> tenant_frozen (ne_tenant_id e) db \<Longrightarrow> writes_nothing db (post_once D env sc spec e ls db)"
  unfolding post_once_def using attempt_frozen by (auto simp: writes_nothing_def)

text \<open>What a reversal posts, when it gets that far.\<close>

lemma post_reversal_once_Inr:
  assumes "post_reversal_once D env sc spec e db = Inr (r, db')"
  shows "\<exists>snapshot ls. attempt_post D env sc spec StoredReversal (e\<lparr>ne_rate_snapshot_ref := snapshot\<rparr>) ls db = Inr (r, db')"
  using assms by (auto simp: post_reversal_once_def split: if_splits)

lemma post_reversal_frozen:
  assumes D: "decimal_contract D" and frozen: "tenant_frozen (ne_tenant_id e) db"
  shows "writes_nothing db (post_reversal_once D env sc spec e db)"
proof (cases "post_reversal_once D env sc spec e db")
  case (Inr y)
  obtain r db' where y: "y = (r, db')" by (cases y)
  from post_reversal_once_Inr [OF Inr [unfolded y]] obtain snapshot ls where
    run: "attempt_post D env sc spec StoredReversal (e\<lparr>ne_rate_snapshot_ref := snapshot\<rparr>) ls db = Inr (r, db')" by blast
  have "writes_nothing db (attempt_post D env sc spec StoredReversal (e\<lparr>ne_rate_snapshot_ref := snapshot\<rparr>) ls db)"
    by (rule attempt_frozen [OF D]) (simp add: frozen)
  then show ?thesis unfolding run Inr y .
qed (simp add: writes_nothing_def)

section \<open>Runs under a freeze\<close>

definition tenant_books :: "uuid \<Rightarrow> 'x ledger_db \<Rightarrow> entry_row list \<times> line_row list \<times> tip_row option" where
  "tenant_books t db =
     (filter (\<lambda>r. je_tenant_id r = t) (j_entries (db_journal db)), filter (\<lambda>r. jl_tenant_id r = t) (j_lines (db_journal db)), db_tips db t)"

text \<open>A step that does not clear the freeze.\<close>

definition frozen_step :: "decimal_ops \<Rightarrow> (bytes \<Rightarrow> bytes) \<Rightarrow> uuid \<Rightarrow> 'x ledger_db \<Rightarrow> 'x ledger_db \<Rightarrow> bool" where
  "frozen_step D H t db db' \<longleftrightarrow> ledger_step D H db db' \<and> tenant_frozen t db'"

lemma posting_step_books:
  assumes "posting_step D H seq e ls db db'" "ne_tenant_id e \<noteq> t"
  shows "tenant_books t db' = tenant_books t db"
proof -
  have "db_journal db' = \<lparr>j_entries = j_entries (db_journal db) @ [sealed_row D H seq e ls (db_tips db (ne_tenant_id e))],
       j_lines = j_lines (db_journal db) @ map (line_row_of D e) ls\<rparr>"
    "db_tips db' = (db_tips db)(ne_tenant_id e \<mapsto> tip_of D H seq e ls (db_tips db (ne_tenant_id e)))"
    using assms(1) by (simp_all only: posting_step_def)
  moreover have "filter (\<lambda>r. jl_tenant_id r = t) (map (line_row_of D e) ls) = []"
    using assms(2) by (simp add: filter_empty_conv line_row_of_def)
  ultimately show ?thesis using assms(2) by (simp add: tenant_books_def)
qed

lemma attempt_books:
  assumes D: "decimal_contract D" and frozen: "tenant_frozen t db" and run: "attempt_post D env sc spec origin e ls db = Inr (r, db')"
  shows "tenant_books t db' = tenant_books t db"
proof (cases "ne_tenant_id e = t")
  case True
  then show ?thesis using attempt_frozen [OF D, where e = e and db = db and env = env and sc = sc and spec = spec and origin = origin and ls = ls] frozen run
    by (simp add: writes_nothing_def)
next
  case False
  from attempt_post_Inr [OF D run] show ?thesis using posting_step_books [OF _ False] by blast
qed

lemma frozen_step_books:
  assumes D: "decimal_contract D" and frozen: "tenant_frozen t db" and step: "ledger_step D H db db'"
  shows "tenant_books t db' = tenant_books t db"
  using step
proof cases
  case (posting env ls sc spec e r)
  then have "attempt_post D env sc spec Current e ls db = Inr (r, db')" by (simp add: post_once_def split: if_splits)
  then show ?thesis by (rule attempt_books [OF D frozen])
next
  case (reversal env sc spec e r)
  from post_reversal_once_Inr [OF reversal(3)] show ?thesis using attempt_books [OF D frozen] by blast
qed (simp_all add: tenant_books_def upkeep_def)

lemma frozen_run:
  assumes D: "decimal_contract D" and frozen: "tenant_frozen t db" and run: "(frozen_step D H t)\<^sup>*\<^sup>* db db'"
  shows "tenant_frozen t db' \<and> tenant_books t db' = tenant_books t db"
  using run
proof induction
  case (step y z)
  then show ?case using frozen_step_books [OF D, where t = t and db = y and H = H and db' = z] by (simp add: frozen_step_def)
qed (use frozen in simp)

section \<open>What the verifier leaves\<close>

lemma freeze_tenant_frozen:
  assumes "\<forall>r\<in>set (db_freezes db). freeze_key r = (t, SCOPE_KIND_TENANT, PERIOD_ALL) \<longrightarrow> fz_cleared_at r = None"
  shows "tenant_frozen t (freeze_tenant now reason t db)"
  using assms by (auto simp: freeze_tenant_def freeze_set_def active_freeze_def list_ex_iff freeze_key_def)

lemma freeze_tenant_books: "tenant_books t (freeze_tenant now reason s db) = tenant_books t db"
  by (simp add: tenant_books_def freeze_tenant_def)

end
