(* ===== verification/Composite.thy ===== *)
theory Composite
  imports Verifier
begin

text \<open>
  \<open>CreditNoteHandler::apply_in_txn\<close> of \<open>ledger/src/infra/adjustment/credit_note_service.rs\<close>: the credit
  note that a composite refund posts as a second entry inside the transaction of the refund.  It claims,
  inserts, projects, runs its sidecar and finalizes; it takes no step on the hash chain.
\<close>

fun map_project_err :: "project_error \<Rightarrow> domain_error" where
  "map_project_err (P_Repo e) = repo_to_domain e"
| "map_project_err P_Conflict = D_ConcurrentModification"
| "map_project_err (P_NegativeBalance a b) = D_NegativeBalance"
| "map_project_err (P_MissingNormalSide a) = D_AccountClosed"
| "map_project_err (P_MissingCreditEventType l) = D_Internal"
| "map_project_err P_Db = D_Internal"
| "map_project_err (P_Arithmetic e) = D_Internal"

definition apply_in_txn ::
  "decimal_ops \<Rightarrow> engine_env \<Rightarrow> (uuid \<times> side) list \<Rightarrow> (posted_facts \<Rightarrow> 'x \<Rightarrow> domain_error + 'x) \<Rightarrow> new_entry \<Rightarrow> new_line list
   \<Rightarrow> 'x ledger_db \<Rightarrow> domain_error + uuid \<times> 'x ledger_db" where
  "apply_in_txn D env sides sidecar e ls db =
     (let k = (ne_tenant_id e, source_doc_type_as_str CreditNote, ne_source_business_id e);
          hash = payload_hash D (ee_digest env) (ee_date_text env) e ls; seq = ee_seq env
      in case claim k hash (db_dedup db) of
           (Replay row, _) \<Rightarrow>
             if dr_payload_hash row \<noteq> hash then Inl D_IdempotencyConflict
             else rbind (ok_or D_Internal (dr_result_entry_id row)) (\<lambda>entry. Inr (entry, db))
         | (Claimed, dedup) \<Rightarrow>
             rbind (map_err (\<lambda>_. D_Internal) (insert_entry_with_lines D seq e ls (db_journal db))) (\<lambda>j.
             rbind (map_err map_project_err (project D e ls sides seq (db_caches db))) (\<lambda>caches.
             rbind (sidecar \<lparr>pf_entry_id = ne_entry_id e, pf_created_seq = seq\<rparr> (db_counters db)) (\<lambda>x.
             rbind (map_err (\<lambda>_. D_Internal) (finalize (ee_now env) k (ne_entry_id e) dedup)) (\<lambda>dedup'.
               Inr (ne_entry_id e, db\<lparr>db_dedup := dedup', db_journal := j, db_caches := caches, db_counters := x\<rparr>))))))"

section \<open>The entry stays outside the chain\<close>

definition unsealed_addition :: "journal \<Rightarrow> journal \<Rightarrow> entry_row \<Rightarrow> bool" where
  "unsealed_addition j j' r \<longleftrightarrow>
     je_row_hash r = None \<and> entry_key r \<notin> entry_key ` set (j_entries j) \<and> j_entries j' = j_entries j @ [r] \<and>
     (\<exists>rows. j_lines j' = j_lines j @ rows \<and>
        (\<forall>l\<in>set rows. (jl_tenant_id l, jl_period_id l, jl_entry_id l) = entry_key r))"

lemma find_append: "find P (xs @ ys) = (case find P xs of Some x \<Rightarrow> Some x | None \<Rightarrow> find P ys)"
  by (induction xs) auto

lemma check_entry_unsealed:
  assumes "unsealed_addition j j' r"
  shows "check_entry D H j' t k link = check_entry D H j t k link"
proof (cases "find_header j t k")
  case None
  then have "find_header j' t k = None \<or> find_header j' t k = Some r"
    using assms by (auto simp: unsealed_addition_def find_header_def find_append)
  then show ?thesis using None assms by (auto simp: check_entry_def unsealed_addition_def)
next
  case (Some header)
  then have same: "find_header j' t k = Some header"
    using assms by (auto simp: unsealed_addition_def find_header_def find_append)
  have "header \<in> set (j_entries j)" "entry_key header = (t, snd k, fst k)"
    using Some by (auto simp: find_header_def find_Some_iff entry_key_def)
  then have "entry_key r \<noteq> (t, snd k, fst k)" using assms by (metis imageI unsealed_addition_def)
  then have lines: "entry_lines j' t (snd k) (fst k) = entry_lines j t (snd k) (fst k)"
    using assms by (fastforce simp: unsealed_addition_def entry_lines_def filter_empty_conv)
  show ?thesis unfolding check_entry_def same Some lines ..
qed

lemma verify_walk_unsealed:
  "unsealed_addition j j' r \<Longrightarrow> verify_walk D H j' t c link seen = verify_walk D H j t c link seen"
proof (induction D H j t c link seen rule: verify_walk.induct)
  case (2 D H j t k link seen)
  show ?case
    using 2 check_entry_unsealed [OF 2(2)] by (auto split: sum.splits)
qed simp

lemma sealed_count_unsealed: "unsealed_addition j j' r \<Longrightarrow> sealed_count j' t = sealed_count j t"
  by (simp add: unsealed_addition_def sealed_count_def)

lemma verify_tenant_unsealed:
  assumes "unsealed_addition (db_journal db) (db_journal db') r" "db_tips db' = db_tips db"
  shows "verify_tenant D H db' db' t = verify_tenant D H db db t"
  unfolding verify_tenant_def verify_walk_unsealed [OF assms(1)] sealed_count_unsealed [OF assms(1)] assms(2) ..

lemma apply_in_txn_unsealed:
  assumes run: "apply_in_txn D env sides sidecar e ls db = Inr (entry, db')"
    and new: "db_dedup db (ne_tenant_id e, source_doc_type_as_str CreditNote, ne_source_business_id e) = None"
  shows "unsealed_addition (db_journal db) (db_journal db') (entry_row_of (ee_seq env) e) \<and> db_tips db' = db_tips db"
proof -
  obtain j where j: "insert_entry_with_lines D (ee_seq env) e ls (db_journal db) = Inr j" and db': "db_journal db' = j" "db_tips db' = db_tips db"
    using run new by (auto simp: apply_in_txn_def Let_def claim_def claim_with_status_def)
  have "entry_key (entry_row_of (ee_seq env) e) \<notin> entry_key ` set (j_entries (db_journal db))"
    using insert_entry_with_lines_Inr [OF j] by (simp add: entry_admitted_def)
  then show ?thesis
    using insert_entry_with_lines_Inr [OF j] db' by (auto simp: unsealed_addition_def entry_row_of_def line_row_of_def entry_key_def)
qed

end
