(* ===== verification/Retry.thy ===== *)
theory Retry
  imports Engine
begin

text \<open>
  \<open>ledger/src/infra/posting/retry.rs\<close> and the entry points of the posting service: a posting runs as a
  serializable transaction that is tried at most three times.  Each attempt meets the database as it is at
  that moment, so the attempts are a function of their number; whether the driver fails an attempt, and
  whether it reports contention, is an argument.  The delay between attempts and the logging are left out.
\<close>

definition MAX_ATTEMPTS :: nat where
  "MAX_ATTEMPTS = 3"

text \<open>The flag of a database failure is what \<open>is_driver_contention\<close> answers for it.\<close>

datatype attempt_error = AttemptConflict | AttemptBusiness domain_error | AttemptDatabase bool

fun attempt_of_domain :: "domain_error \<Rightarrow> attempt_error" where
  "attempt_of_domain D_ConcurrentModification = AttemptConflict"
| "attempt_of_domain e = AttemptBusiness e"

fun attempt_of :: "db_error \<Rightarrow> attempt_error" where
  "attempt_of (Business e) = attempt_of_domain e"
| "attempt_of Infra = AttemptDatabase False"

fun retryable :: "attempt_error \<Rightarrow> bool" where
  "retryable AttemptConflict = True"
| "retryable (AttemptDatabase contended) = contended"
| "retryable (AttemptBusiness e) = False"

fun final_error :: "attempt_error \<Rightarrow> domain_error" where
  "final_error (AttemptBusiness e) = e"
| "final_error (AttemptDatabase contended) = D_Internal"
| "final_error AttemptConflict = D_ConcurrentModification"

fun retry_from :: "(nat \<Rightarrow> attempt_error + 'a) \<Rightarrow> nat \<Rightarrow> nat \<Rightarrow> domain_error + 'a" where
  "retry_from body attempt 0 = Inl D_ConcurrentModification"
| "retry_from body attempt (Suc left) =
     (case body attempt of
        Inr v \<Rightarrow> Inr v
      | Inl e \<Rightarrow> if retryable e then retry_from body (Suc attempt) left else Inl (final_error e))"

definition retry_transaction_for :: "(nat \<Rightarrow> attempt_error + 'a) \<Rightarrow> domain_error + 'a" where
  "retry_transaction_for body = retry_from body 0 MAX_ATTEMPTS"

text \<open>
  One attempt of a posting on the state it meets.  A failure of the driver, at a statement of the body or at
  the commit, ends the attempt; the flag tells whether it is contention.  Every error rolls back.
\<close>

definition post_attempt ::
  "decimal_ops \<Rightarrow> 'x post_sidecar option \<Rightarrow> claim_spec \<Rightarrow> new_entry \<Rightarrow> new_line list
   \<Rightarrow> (nat \<Rightarrow> engine_env) \<Rightarrow> (nat \<Rightarrow> 'x ledger_db) \<Rightarrow> (nat \<Rightarrow> bool option) \<Rightarrow> nat
   \<Rightarrow> attempt_error + posting_ref \<times> 'x ledger_db" where
  "post_attempt D sc spec e ls envs dbs driver_failure i =
     (case driver_failure i of
        Some contended \<Rightarrow> Inl (AttemptDatabase contended)
      | None \<Rightarrow> map_err attempt_of (post_once D (envs i) sc spec e ls (dbs i)))"

text \<open>\<open>run_post\<close>: the clock gate, then the retried transaction.  Alarms do not change the answer.\<close>

definition run_post ::
  "decimal_ops \<Rightarrow> 'x post_sidecar option \<Rightarrow> claim_spec \<Rightarrow> new_entry \<Rightarrow> new_line list \<Rightarrow> offset_date_time
   \<Rightarrow> (nat \<Rightarrow> engine_env) \<Rightarrow> (nat \<Rightarrow> 'x ledger_db) \<Rightarrow> (nat \<Rightarrow> bool option)
   \<Rightarrow> domain_error + posting_ref \<times> 'x ledger_db" where
  "run_post D sc spec e ls now envs dbs driver_failure =
     (if classify_clock_skew (ne_posted_at_utc e) now = SkewReject then Inl D_ClockSkewQuarantine
      else retry_transaction_for (post_attempt D sc spec e ls envs dbs driver_failure))"

lemma retry_from_Inr:
  "retry_from body i n = Inr v \<longleftrightarrow>
     (\<exists>k<n. body (i + k) = Inr v \<and> (\<forall>j<k. \<exists>e. body (i + j) = Inl e \<and> retryable e))"
proof (induction n arbitrary: i)
  case (Suc n)
  show ?case
  proof (cases "body i")
    case (Inl e)
    have "(\<exists>k<Suc n. body (i + k) = Inr v \<and> (\<forall>j<k. \<exists>e. body (i + j) = Inl e \<and> retryable e)) \<longleftrightarrow>
        retryable e \<and> (\<exists>k<n. body (Suc i + k) = Inr v \<and> (\<forall>j<k. \<exists>e. body (Suc i + j) = Inl e \<and> retryable e))"
      using Inl by (auto simp: Ex_less_Suc2 All_less_Suc2)
    then show ?thesis using Inl Suc.IH [of "Suc i"] by simp
  next
    case (Inr w)
    then show ?thesis by (auto simp: Ex_less_Suc2 All_less_Suc2)
  qed
qed simp

lemma retry_from_Inl:
  "retry_from body i n = Inl d \<longleftrightarrow>
     (\<exists>k<n. \<exists>e. body (i + k) = Inl e \<and> \<not> retryable e \<and> d = final_error e \<and> (\<forall>j<k. \<exists>e. body (i + j) = Inl e \<and> retryable e)) \<or>
     d = D_ConcurrentModification \<and> (\<forall>j<n. \<exists>e. body (i + j) = Inl e \<and> retryable e)"
proof (induction n arbitrary: i)
  case (Suc n)
  show ?case
  proof (cases "body i")
    case (Inl e)
    then show ?thesis using Suc.IH [of "Suc i"] by (auto simp: Ex_less_Suc2 All_less_Suc2)
  next
    case (Inr w)
    then show ?thesis by (auto simp: Ex_less_Suc2 All_less_Suc2)
  qed
qed auto

end
