(* ===== verification/Chain_Properties.thy ===== *)
theory Chain_Properties
  imports Ledger_Example Tamper_Evidence Frozen_Ledger Composite Retry
begin

text \<open>
  The properties of the tamper-evidence chain and its verifier, of the freeze the verifier sets, and of the retry around
  a posting.
\<close>

section \<open>The hash chain\<close>

text \<open>C6: the chain verifier raises no false alarm.  On every reachable ledger, also when postings commit while it
  runs, the verifier walks every sealed entry of the tenant exactly once and reports no break.\<close>

theorem verifier_accepts:
  assumes "decimal_contract D" "text_contract D" "digest_contract H" "reachable D H db" "ledger_run D H db later"
  shows "verify_tenant D H db later t = (sealed_count (db_journal db) t, None)"
proof -
  obtain h where h: "implements D H db h" by (rule reachable_implements [OF assms(1,2,4)])
  from ledger_run_extends [OF assms(1,2) h assms(5)] obtain g where g: "implements D H later (h @ g)" by (auto simp: extends_def)
  note books = posted_booksI(2) [OF assms(1,2) h assms(3)] posted_booksI(2) [OF assms(1,2) g assms(3)]
  from verify_tenant_clean [OF books] posted_ledger.sealed_count_posted [OF books(1)] show ?thesis by simp
qed

theorem verifier_accepts_witness:
  "verify_tenant reference_decimal flat_digest (usd_posted_db flat_digest) (usd_posted_db flat_digest) 1 = (1, None)"
  using verifier_accepts [OF reference_contracts flat_digest_contract usd_reachable rtranclp.rtrancl_refl, of 1]
    usd_books.sealed_count_posted [of 1] by (simp add: tenant_keys_def usd_entry_def)

text \<open>C17: the walk ends.  On any journal, however its back-pointers were changed, the verifier visits every entry at most
  once and no more entries than the journal has.\<close>

theorem verifier_walk_bounded:
  "distinct (fst (verify_walk D H j t c link [])) \<and> length (fst (verify_walk D H j t c link [])) \<le> Suc (length (j_entries j))"
proof -
  have walk: "distinct ks \<and> (ks = [] \<or> set (tl ks) \<subseteq> walk_keys j)"
    if "verify_walk D H j t c link seen = (ks, b)" "distinct seen" "set seen \<subseteq> walk_keys j" for c link seen ks b
    using that
  proof (induction D H j t c link seen rule: verify_walk.induct)
    case (1 D H j t link seen)
    then show ?case by (auto dest: list.set_sel(2))
  next
    case (2 D H j t k link seen)
    show ?case
    proof (cases "k \<in> set seen")
      case False
      show ?thesis
      proof (cases "check_entry D H j t k link")
        case (Inr y)
        then have "k \<in> walk_keys j" by (rule check_entry_key)
        with 2 False Inr show ?thesis by (cases y) auto
      qed (use 2 False in auto)
    qed (use 2 in \<open>auto dest: list.set_sel(2)\<close>)
  qed
  obtain ks b where ks: "verify_walk D H j t c link [] = (ks, b)" by (cases "verify_walk D H j t c link []")
  from walk [OF ks] have w: "distinct ks" "ks = [] \<or> set (tl ks) \<subseteq> walk_keys j" by simp_all
  have "length (tl ks) = card (set (tl ks))" using w(1) by (metis distinct_card distinct_tl)
  also have "\<dots> \<le> card (walk_keys j)" using w(2) by (auto intro!: card_mono simp: walk_keys_def)
  also have "\<dots> \<le> length (j_entries j)" unfolding walk_keys_def by (meson card_image_le card_length finite_set order_trans)
  finally show ?thesis using ks w(1) by (simp add: length_tl)
qed

text \<open>C3: the chain is tamper-evident.  Take the journal of a reachable ledger and any other journal with the same tip
  that the verifier accepts and whose newest entry still has the hash the tip records.  If the digest does not collide on
  the hashed buffers, then every entry of the tenant has the content it was posted with: header, lines and links, except for
  what the encoding leaves out (\<open>covered_entry\<close>, \<open>covered_line\<close>).\<close>

theorem tamper_evident:
  assumes "decimal_contract D" "text_contract D" "digest_contract H" "reachable D H db" "db_tips db t = Some tip"
    and "db_tips forged t = Some tip" "stored_hash (db_journal forged) t (tip_cursor tip) = Some (last_row_hash tip)"
      "snd (verify_tenant D H forged later t) = None"
    and "no_collision D H t (db_journal db) (db_journal forged)"
    and "content_fits D (db_journal db) t" "content_fits D (db_journal forged) t" "uuid_fits t"
    and "r \<in> set (j_entries (db_journal db))" "je_tenant_id r = t"
  shows "stored_content D (db_journal db) t (je_entry_id r, je_period_id r) =
      stored_content D (db_journal forged) t (je_entry_id r, je_period_id r) \<and>
    stored_links (db_journal db) t (je_entry_id r, je_period_id r) =
      stored_links (db_journal forged) t (je_entry_id r, je_period_id r)"
proof -
  obtain h where h: "implements D H db h" by (rule reachable_implements [OF assms(1,2,4)])
  then have "r \<in> set (sealed_rows D H h Map.empty)" using assms(13) by (simp add: implements_def)
  then obtain seq e ls tip where "(seq, e, ls) \<in> set h" "r = sealed_row D H seq e ls tip" using sealed_rows_set by blast
  then have "(je_entry_id r, je_period_id r) \<in> set (tenant_keys t h)"
    using assms(14) by (force simp: tenant_keys_def)
  then show ?thesis by (rule tampering_shows [OF posted_booksI(2) [OF assms(1,2) h assms(3)] assms(5-12)])
qed

text \<open>A digest that tells the seed of the chain from everything else.\<close>

definition seed_digest :: "bytes \<Rightarrow> bytes" where
  "seed_digest b = replicate 32 (if b = genesis_buffer 1 then CHR 0x41 else CHR 0x42)"

interpretation seed_books: posted_ledger reference_decimal seed_digest "usd_posted_db seed_digest" "[(1, usd_entry, usd_lines)]"
  by unfold_locales (simp_all add: reference_contracts usd_implements digest_contract_def seed_digest_def)

abbreviation seed_db :: "unit ledger_db" where
  "seed_db \<equiv> usd_posted_db seed_digest"

lemma seed_row: "j_entries (db_journal seed_db) = [sealed_row reference_decimal seed_digest 1 usd_entry usd_lines None]"
  using seed_books.journal(1) by simp

lemma seed_header:
  "find_header (db_journal seed_db) 1 k = Some header \<longleftrightarrow>
     k = (40, ''202611'') \<and> header = sealed_row reference_decimal seed_digest 1 usd_entry usd_lines None"
  by (cases k) (auto simp: find_header_def seed_row usd_entry_def)

lemma seed_stored: "stored_entry reference_decimal (db_journal seed_db) 1 k = Some (e, ls) \<longleftrightarrow> k = (40, ''202611'') \<and> e = usd_entry \<and> ls = usd_lines"
proof -
  have "entry_lines (db_journal seed_db) 1 ''202611'' 40 = map (line_row_of reference_decimal usd_entry) usd_lines"
    using seed_books.lines_found [of "[]" 1 usd_entry usd_lines "[]"] by (simp add: usd_entry_def)
  moreover have "usd_entry\<lparr>ne_rate_snapshot_ref := None\<rparr> = usd_entry" by (simp add: usd_entry_def)
  ultimately show ?thesis
    using reconstruct_sealed [OF reference_contracts usd_lines_storable, of seed_digest 1 usd_entry None]
    by (auto simp: stored_entry_def seed_header bind_eq_Some_conv simp del: One_nat_def)
qed

lemma usd_text_fits: "field_fits (encode_amount reference_decimal (usd_amount 125))"
proof -
  have "parse_decimal reference_decimal (encode_amount reference_decimal (usd_amount 125)) = Inr (Decimal 125 2)"
    using parse_canonical_decimal [OF reference_contracts] reference_validated by (simp add: encode_amount_def)
  then show ?thesis by (auto simp: parse_decimal_def field_fits_def MAX_DECIMAL_BYTES_def split: if_splits)
qed

lemma usd_fits: "entry_fits usd_entry" "\<forall>l\<in>set usd_lines. line_fits reference_decimal l"
proof -
  show "entry_fits usd_entry"
    by (simp add: entry_fits_def usd_entry_def uuid_fits_def field_fits_def uuid_field.opt_fits_def field.opt_fits_def i32_fits_def num_days_from_ce_def)
  have "money_fits reference_decimal (usd_amount 125)"
    by (simp add: money_fits_def reference_contracts usd_amount_ok usd_spec_ok usd_text_fits)
  then show "\<forall>l\<in>set usd_lines. line_fits reference_decimal l"
    by (simp add: usd_lines_def line_fits_def uuid_fits_def field_fits_def uuid_field.opt_fits_def field.opt_fits_def opt_money_fits_def)
      (simp add: usd_new_line_def field_fits_def)
qed

lemma seed_fits: "content_fits reference_decimal (db_journal seed_db) 1"
  using usd_fits by (auto simp: content_fits_def seed_stored usd_lines_def simp del: One_nat_def)

lemma seed_no_collision: "no_collision reference_decimal seed_digest 1 (db_journal seed_db) (db_journal seed_db)"
proof -
  let ?b = "chain_buffer reference_decimal usd_entry usd_lines (link_hash seed_digest 1 None)"
  have inputs: "chain_inputs reference_decimal (db_journal seed_db) 1 \<subseteq> {genesis_buffer 1, ?b}"
    by (auto simp: chain_inputs_def seed_stored seed_header usd_entry_def simp del: One_nat_def)
  have "genesis_buffer 1 \<noteq> ?b" by (rule genesis_buffer_differs) (simp_all add: usd_fits uuid_fits_def)
  then have "inj_on seed_digest {genesis_buffer 1, ?b}" by (auto simp: seed_digest_def)
  then show ?thesis unfolding no_collision_def using inputs by (auto intro: inj_on_subset)
qed

text \<open>The same ledger with a header of another tenant put beside the entry.\<close>

definition stray_db :: "unit ledger_db" where
  "stray_db = seed_db\<lparr>db_journal := (db_journal seed_db)\<lparr>j_entries := j_entries (db_journal seed_db) @
     [entry_row_of 9 (usd_entry\<lparr>ne_tenant_id := 2\<rparr>)]\<rparr>\<rparr>"

lemma stray_header: "find_header (db_journal stray_db) 1 k = find_header (db_journal seed_db) 1 k"
  by (simp add: find_header_def find_append stray_db_def entry_row_of_def split: option.split)

lemma stray_stored: "stored_entry reference_decimal (db_journal stray_db) 1 k = stored_entry reference_decimal (db_journal seed_db) 1 k"
  unfolding stored_entry_def stray_header by (simp add: stray_db_def entry_lines_def)

lemma stray_clean: "verify_tenant reference_decimal seed_digest stray_db stray_db 1 = (1, None)"
proof -
  have add: "unsealed_addition (db_journal seed_db) (db_journal stray_db) (entry_row_of 9 (usd_entry\<lparr>ne_tenant_id := 2\<rparr>))"
    by (simp add: unsealed_addition_def stray_db_def entry_row_of_def entry_key_def seed_row usd_entry_def)
  have "verify_tenant reference_decimal seed_digest stray_db stray_db 1 = verify_tenant reference_decimal seed_digest seed_db seed_db 1"
    by (rule verify_tenant_unsealed [OF add]) (simp add: stray_db_def)
  then show ?thesis
    using verify_tenant_clean [OF seed_books.posted_ledger_axioms, of seed_db "[]" 1] seed_books.posted_ledger_axioms
    by (simp add: tenant_keys_def usd_entry_def)
qed

theorem tamper_evident_witness:
  "db_journal stray_db \<noteq> db_journal seed_db \<and>
   stored_content reference_decimal (db_journal stray_db) 1 (40, ''202611'') =
     Some (covered_entry usd_entry, map covered_line (sort_key line_id usd_lines)) \<and>
   stored_links (db_journal stray_db) 1 (40, ''202611'') = Some (Some (genesis_prev_hash seed_digest 1), None, None)"
proof -
  let ?tip = "tip_of reference_decimal seed_digest 1 usd_entry usd_lines None"
  let ?row = "sealed_row reference_decimal seed_digest 1 usd_entry usd_lines None"
  have tip: "db_tips seed_db 1 = Some ?tip" using seed_books.journal(3) by (simp add: usd_entry_def)
  then have tip': "db_tips stray_db 1 = Some ?tip" by (simp add: stray_db_def)
  have "find_header (db_journal stray_db) 1 (tip_cursor ?tip) = Some ?row"
    by (simp add: stray_header tip_cursor_def tip_of_def seed_header usd_entry_def del: One_nat_def)
  then have hash: "stored_hash (db_journal stray_db) 1 (tip_cursor ?tip) = Some (last_row_hash ?tip)"
    by (simp add: stored_hash_def tip_of_def)
  have fits: "content_fits reference_decimal (db_journal stray_db) 1"
    using seed_fits unfolding content_fits_def stray_stored .
  have free: "no_collision reference_decimal seed_digest 1 (db_journal seed_db) (db_journal stray_db)"
    using seed_no_collision unfolding no_collision_def chain_inputs_def stray_stored stray_header .
  have clean: "snd (verify_tenant reference_decimal seed_digest stray_db stray_db 1) = None" using stray_clean by simp
  have "stored_content reference_decimal (db_journal seed_db) 1 (je_entry_id ?row, je_period_id ?row) =
      stored_content reference_decimal (db_journal stray_db) 1 (je_entry_id ?row, je_period_id ?row) \<and>
    stored_links (db_journal seed_db) 1 (je_entry_id ?row, je_period_id ?row) =
      stored_links (db_journal stray_db) 1 (je_entry_id ?row, je_period_id ?row)"
    by (rule tamper_evident [OF reference_contracts seed_books.digest usd_reachable tip tip' hash clean free seed_fits fits])
      (simp_all add: seed_row uuid_fits_def usd_entry_def)
  moreover have "stored_content reference_decimal (db_journal seed_db) 1 (40, ''202611'') =
      Some (covered_entry usd_entry, map covered_line (sort_key line_id usd_lines))"
    using seed_stored [of "(40, ''202611'')" usd_entry usd_lines] by (simp add: stored_content_def)
  moreover have "find_header (db_journal seed_db) 1 (40, ''202611'') = Some ?row" using seed_header by blast
  then have "stored_links (db_journal seed_db) 1 (40, ''202611'') = Some (Some (genesis_prev_hash seed_digest 1), None, None)"
    by (simp add: stored_links_def link_hash_def usd_entry_def)
  moreover have "j_entries (db_journal stray_db) \<noteq> j_entries (db_journal seed_db)" by (simp add: stray_db_def)
  ultimately show ?thesis by (auto simp: usd_entry_def)
qed

section \<open>The freeze after a break\<close>

text \<open>C14: a break stops the tenant.  When the verifier finds a break, up to three transactions try to freeze the tenant.  If
  one of them commits and the freeze was not cleared before, then along every run that leaves the freeze active the
  entries, the lines and the chain tip of the tenant stay what they were when the freeze was
  written, and every posting and every reversal for the
  tenant is refused or replays an entry that was posted before.  If none commits, the ledger is left as it was, not frozen.\<close>

theorem break_stops_posting:
  assumes "decimal_contract D" "snd (verify_tenant D H db later t) = Some b"
    and "\<forall>r\<in>set (db_freezes met). freeze_key r = (t, SCOPE_KIND_TENANT, PERIOD_ALL) \<longrightarrow> fz_cleared_at r = None"
    and "verify_and_freeze D H now reason False commits db later met t = (outcome, after)" "(frozen_step D H t)\<^sup>*\<^sup>* after db'" "ne_tenant_id e = t"
  shows "if commits 1 \<or> commits 2 \<or> commits 3
    then outcome = Frozen \<and> tenant_books t db' = tenant_books t met \<and>
      writes_nothing db' (post_once D env sc spec e ls db') \<and> writes_nothing db' (post_reversal_once D env sc spec e db')
    else outcome = FreezeFailed \<and> after = met"
proof (cases "commits 1 \<or> commits 2 \<or> commits 3")
  case True
  then have after: "outcome = Frozen" "after = freeze_tenant now (reason b) t met"
    using assms(2,4) by (simp_all add: verify_and_freeze_def try_freeze_with_retry_eq)
  have "tenant_frozen t after" unfolding after(2) by (rule freeze_tenant_frozen [OF assms(3)])
  note run = frozen_run [OF assms(1) this assms(5)]
  have "tenant_frozen (ne_tenant_id e) db'" using run assms(6) by simp
  note refused = post_once_frozen [OF assms(1) this] post_reversal_frozen [OF assms(1) this]
  show ?thesis using True after run refused freeze_tenant_books by simp
next
  case False
  then show ?thesis using assms(2,4) by (simp add: verify_and_freeze_def try_freeze_with_retry_eq)
qed

text \<open>A ledger whose newest entry was removed from the journal; the third attempt freezes it and then the period closes.\<close>

definition cut_db :: "unit ledger_db" where
  "cut_db = usd_db\<lparr>db_tips := [1 \<mapsto> tip_of reference_decimal flat_digest 1 usd_entry usd_lines None]\<rparr>"

definition frozen_db :: "unit ledger_db" where
  "frozen_db = freeze_tenant 0 ''break'' 1 cut_db"

theorem break_stops_posting_witness:
  "verify_and_freeze reference_decimal flat_digest 0 (\<lambda>_. ''break'') False (\<lambda>i. i = 3) cut_db cut_db cut_db 1 = (Frozen, frozen_db) \<and>
   writes_nothing (frozen_db\<lparr>db_periods := Map.empty\<rparr>)
     (post_once reference_decimal (usd_env flat_digest) None fresh_claim usd_entry usd_lines (frozen_db\<lparr>db_periods := Map.empty\<rparr>)) \<and>
   fst (tenant_books 1 (frozen_db\<lparr>db_periods := Map.empty\<rparr>)) = []"
proof -
  let ?db = "frozen_db\<lparr>db_periods := Map.empty\<rparr>"
  obtain b where b: "snd (verify_tenant reference_decimal flat_digest cut_db cut_db 1) = Some b"
    by (simp add: verify_tenant_def cut_db_def check_entry_def find_header_def usd_db_def)
  then have run: "verify_and_freeze reference_decimal flat_digest 0 (\<lambda>_. ''break'') False (\<lambda>i. i = 3) cut_db cut_db cut_db 1 = (Frozen, frozen_db)"
    by (simp add: verify_and_freeze_def try_freeze_with_retry_eq frozen_db_def del: One_nat_def)
  have clear: "\<forall>r\<in>set (db_freezes cut_db). freeze_key r = (1, SCOPE_KIND_TENANT, PERIOD_ALL) \<longrightarrow> fz_cleared_at r = None"
    by (simp add: cut_db_def usd_db_def)
  have "ledger_step reference_decimal flat_digest frozen_db ?db" by (rule ledger_step.other) (simp add: upkeep_def)
  moreover have "tenant_frozen 1 ?db" using freeze_tenant_frozen [OF clear] by (simp add: frozen_db_def)
  ultimately have step: "(frozen_step reference_decimal flat_digest 1)\<^sup>*\<^sup>* frozen_db ?db"
    by (intro r_into_rtranclp) (simp add: frozen_step_def)
  have "ne_tenant_id usd_entry = 1" by (simp add: usd_entry_def)
  from break_stops_posting [OF reference_decimal_contract b clear run step this, of "usd_env flat_digest" None fresh_claim usd_lines]
  have "tenant_books 1 ?db = tenant_books 1 cut_db"
    "writes_nothing ?db (post_once reference_decimal (usd_env flat_digest) None fresh_claim usd_entry usd_lines ?db)" by simp_all
  moreover have "fst (tenant_books 1 cut_db) = []" by (simp add: tenant_books_def cut_db_def usd_db_def)
  ultimately show ?thesis using run by simp
qed

text \<open>C39: a cleared freeze is not set again.  Once a freeze was set and cleared, a later call for the same scope inserts
  nothing, reports that no row was inserted, and leaves no active row of that scope.\<close>

theorem cleared_freeze_stays_cleared:
  "let frozen = snd (freeze_set n t s p reason by rows); cleared = freeze_clear m t s p who frozen
   in freeze_set n' t s p reason' by' cleared = (False, cleared) \<and>
      filter (\<lambda>r. freeze_key r = (t, s, p) \<and> fz_cleared_at r = None) cleared = []"
proof -
  have keys: "freeze_key ` set (freeze_clear m t s p who fs) = freeze_key ` set fs" for fs
    unfolding freeze_clear_def set_map image_image by (intro image_cong) (simp_all add: freeze_key_def)
  have "(t, s, p) \<in> freeze_key ` set (snd (freeze_set n t s p reason by rows))"
    by (auto simp: freeze_set_def freeze_key_def)
  then show ?thesis
    by (auto simp: Let_def keys freeze_set_def [of n'] filter_empty_conv) (auto simp: freeze_clear_def freeze_key_def split: if_splits)
qed

section \<open>Retries\<close>

text \<open>C16: a posting ends after at most three attempts.  It succeeds exactly when one of the first three transactions
  commits after contention only; an error of the business is returned at once, and contention in all three is reported
  as a concurrent modification.\<close>

theorem run_post_outcome:
  assumes "classify_clock_skew (ne_posted_at_utc e) now \<noteq> SkewReject"
  shows "(run_post D sc spec e ls now envs dbs commits = Inr v \<longleftrightarrow>
      (\<exists>k<3. post_attempt D sc spec e ls envs dbs commits k = Inr v \<and>
         (\<forall>j<k. \<exists>err. post_attempt D sc spec e ls envs dbs commits j = Inl err \<and> retryable err))) \<and>
    (run_post D sc spec e ls now envs dbs commits = Inl d \<longleftrightarrow>
      (\<exists>k<3. \<exists>err. post_attempt D sc spec e ls envs dbs commits k = Inl err \<and> \<not> retryable err \<and> d = final_error err \<and>
         (\<forall>j<k. \<exists>err. post_attempt D sc spec e ls envs dbs commits j = Inl err \<and> retryable err)) \<or>
      d = D_ConcurrentModification \<and>
        (\<forall>j<3. \<exists>err. post_attempt D sc spec e ls envs dbs commits j = Inl err \<and> retryable err))"
  using assms unfolding run_post_def retry_transaction_for_def MAX_ATTEMPTS_def
  by (simp only: if_False retry_from_Inr retry_from_Inl add_0)

theorem run_post_outcome_witness:
  "run_post reference_decimal None fresh_claim usd_entry usd_lines 0 (\<lambda>_. usd_env flat_digest) (\<lambda>_. usd_db) (\<lambda>i. if i = 0 then Some True else None) =
     Inr (\<lparr>pr_entry_id = 40, pr_created_seq = 1, pr_replayed = False\<rparr>, usd_posted_db flat_digest)"
proof -
  have skew: "classify_clock_skew (ne_posted_at_utc usd_entry) 0 \<noteq> SkewReject" by (simp add: usd_entry_def classify_clock_skew_def)
  show ?thesis
    unfolding run_post_outcome [OF skew, THEN conjunct1]
    by (intro exI [of _ 1]) (simp add: post_attempt_def usd_posting)
qed

section \<open>The credit note of a composite refund\<close>

text \<open>C38: the credit note of a composite refund stays outside the hash chain.  A credit note that \<open>apply_in_txn\<close> posts
  for the first time is appended to the journal without a row hash, and the verifier answers for every tenant as if
  it were not there.\<close>

theorem composite_note_unsealed:
  assumes "apply_in_txn D env sides sidecar e ls db = Inr (entry, db')"
    and "db_dedup db (ne_tenant_id e, source_doc_type_as_str CreditNote, ne_source_business_id e) = None"
  shows "verify_tenant D H db' db' t = verify_tenant D H db db t \<and>
    (\<exists>r. j_entries (db_journal db') = j_entries (db_journal db) @ [r] \<and> je_entry_id r = ne_entry_id e \<and> je_row_hash r = None)"
proof -
  note add = apply_in_txn_unsealed [OF assms]
  have "verify_tenant D H db' db' t = verify_tenant D H db db t" by (rule verify_tenant_unsealed [OF add [THEN conjunct1] add [THEN conjunct2]])
  with add show ?thesis by (auto simp: unsealed_addition_def entry_row_of_def)
qed

definition usd_note :: new_entry where
  "usd_note = usd_entry\<lparr>ne_source_doc_type := CreditNote, ne_source_business_id := ''cn-1''\<rparr>"

lemma usd_note_applied:
  "\<exists>db. apply_in_txn reference_decimal (usd_env H) [(101, Debit), (102, Credit)] (\<lambda>_. Inr) usd_note usd_lines usd_db = Inr (40, db)"
proof -
  have "derive_grains reference_decimal usd_note usd_lines [(101, Debit), (102, Credit)] =
      derive_grains reference_decimal usd_entry usd_lines [(101, Debit), (102, Credit)]"
    by (simp add: derive_grains_def usd_lines_def line_grains_def base_grain_def usd_note_def usd_entry_def)
  then have "project reference_decimal usd_note usd_lines [(101, Debit), (102, Credit)] 1 empty_caches = Inr usd_caches"
    using usd_projected by (simp add: project_def)
  moreover have "\<exists>j. insert_entry_with_lines reference_decimal 1 usd_note usd_lines (db_journal usd_db) = Inr j"
    by (simp add: insert_entry_with_lines_def entry_admitted_def insert_line_def line_admitted_def line_key_def usd_lines_def usd_db_def
        entry_row_of_def usd_note_def usd_entry_def) (simp add: line_row_of_def)
  moreover have "ne_entry_id usd_note = 40" "ee_seq (usd_env H) = 1" "db_dedup usd_db = Map.empty" "db_caches usd_db = empty_caches"
    by (simp_all add: usd_note_def usd_entry_def usd_env_def usd_db_def)
  ultimately show ?thesis by (auto simp: apply_in_txn_def Let_def claim_def claim_with_status_def finalize_def)
qed

theorem composite_note_unsealed_witness:
  "\<exists>db. apply_in_txn reference_decimal (usd_env flat_digest) [(101, Debit), (102, Credit)] (\<lambda>_. Inr) usd_note usd_lines usd_db = Inr (40, db) \<and>
     verify_tenant reference_decimal flat_digest db db 1 = (0, None) \<and> map je_row_hash (j_entries (db_journal db)) = [None]"
proof -
  obtain db where db: "apply_in_txn reference_decimal (usd_env flat_digest) [(101, Debit), (102, Credit)] (\<lambda>_. Inr) usd_note usd_lines usd_db = Inr (40, db)"
    using usd_note_applied by blast
  moreover have "verify_tenant reference_decimal flat_digest usd_db usd_db 1 = (0, None)" "j_entries (db_journal usd_db) = []"
    by (simp_all add: verify_tenant_def usd_db_def)
  ultimately show ?thesis using composite_note_unsealed [OF db, of flat_digest 1] by (auto simp: usd_db_def)
qed

end
