(* ===== verification/Spec2Isabelle.thy ===== *)
theory Spec2Isabelle
  imports Ledger_Properties Chain_Properties
begin

text \<open>
  A verification development of the billing stack of the repository (paths below are relative to
  \<open>src/gears/bss\<close>): the money crate \<open>libs/money\<close>, the domain layer of the ledger
  \<open>ledger/ledger/src/domain\<close>, and the part of \<open>ledger/ledger/src/infra\<close> that writes the journal,
  keeps the balance caches and seals and verifies the hash chain.

  \<^bold>\<open>The program.\<close>  A business event (an invoice, a settlement, an allocation, a dispute phase, a credit) is
  turned by a pure builder into a balanced entry of debit and credit lines over validated decimal money.  The posting
  service writes the entry in one serializable transaction: it claims the idempotency key, passes the currency, freeze,
  period and evidence gates, appends the header and the lines, adds the signed amounts to the cached balances, links the
  entry to the hash chain of its tenant and finalizes the claim.  A job walks the chain of every tenant and freezes the
  tenant when a link is broken.

  \<^bold>\<open>Money\<close> (\<open>libs/money/src\<close>).
  \<^item> \<open>Prelude\<close>, \<open>Digits\<close>: results as sums, the error operator, folds that stop at an error, ordered and hash
    maps behind the locale \<open>keyed_store\<close>, decimal digits in text.
  \<^item> \<open>Decimal_Carrier\<close>: the value of \<open>rust_decimal::Decimal\<close> as a type, its operations as the record
    \<open>decimal_ops\<close>, what the crate documents of them as \<open>decimal_contract\<close>.  \<open>Reference_Decimal\<close> is a concrete
    instance that meets this contract and the one on text; the witnesses run with it.
  \<^item> \<open>Money\<close>, \<open>Money_Text\<close> (\<open>money.rs\<close>), \<open>Exact\<close>, \<open>Exact_Text\<close>, \<open>Rounding\<close>,
    \<open>Scaled_Sum\<close> (\<open>exact.rs\<close>), \<open>Allocate\<close> (\<open>allocate.rs\<close>), \<open>Iso\<close> (\<open>iso.rs\<close>).  The lemmas
    show that the bounded fractions compute rational arithmetic or report an overflow, that rounding is half to even, that
    text forms round trip, that the integer fast path agrees with the exact sum and that an allocation loses nothing.
    \<open>Money_Properties\<close> states them.

  \<^bold>\<open>Entries\<close> (\<open>ledger/ledger/src/domain\<close>).
  \<^item> \<open>Ledger_Types\<close>, \<open>Status\<close>: enums with their stored literals (locale \<open>stored_enum\<close>), the data of an entry,
    the errors.  \<open>Posting\<close>: \<open>validate_balanced_entry\<close> against its specification \<open>balanced_lines\<close>, and
    the locale \<open>entry_builder\<close>, the contract of every builder below: what it returns is accepted by the check.
  \<^item> \<open>Settlement\<close>, \<open>Precedence\<close>, \<open>Allocation\<close>, \<open>Credit\<close>, \<open>Dispute\<close>, \<open>Chargeback\<close>
    (\<open>payment\<close>), with \<open>Payment_Properties\<close> and \<open>Dispute_Properties\<close>.  The dispute row is a state machine
    under optimistic concurrency: \<open>Versioned_Row\<close> models attempts that read an old state and write with a
    compare-and-set, as the step relation of the locale \<open>versioned_row\<close>.  \<open>Stored_Money\<close> is money in columns.
  \<^item> \<open>Period\<close>, \<open>Invoice\<close>, \<open>Invoice_Entry\<close>, \<open>Recognition\<close>, \<open>Straight_Line\<close>, \<open>Reversal\<close>,
    \<open>Aging\<close>, \<open>Aging_Totals\<close> (\<open>period.rs\<close>, \<open>invoice\<close>, \<open>recognition\<close>), with
    \<open>Billing_Properties\<close>.

  \<^bold>\<open>Balances\<close> (\<open>infra/posting/projector.rs\<close>).  \<open>Projector\<close> is the code: deltas per grain in lock order and the
  version-guarded write of six cache tables.  \<open>Line_Grains\<close> and \<open>Grain_Deltas\<close> show what the deltas are,
  \<open>Cache_Views\<close> sees the six tables as one store, \<open>Projection\<close> shows that every grain moves by exactly what the
  lines add to it and that guarded balances stay non-negative.

  \<^bold>\<open>The posting transaction\<close> (\<open>infra/posting\<close>, \<open>infra/storage\<close>).
  \<^item> \<open>Canonical\<close>, \<open>Chain\<close>: the byte encodings (\<open>domain/canonical.rs\<close>, \<open>domain/chain.rs\<close>).  The locale
    \<open>framed\<close> states that a buffer has one reading; it is interpreted for every field kind and for the lines of an entry.
  \<^item> \<open>Journal\<close> (\<open>journal_repo.rs\<close> and the schema), \<open>Gates\<close> (\<open>idempotency.rs\<close>,
    \<open>freeze.rs\<close>, \<open>period.rs\<close>, \<open>currency_scale.rs\<close>, \<open>policy_version.rs\<close>, \<open>error_transport.rs\<close>),
    \<open>Engine\<close> (\<open>service.rs\<close>, \<open>chain.rs\<close>): \<open>post_once\<close> and \<open>post_reversal_once\<close> are functions from the
    database \<open>ledger_db\<close> to an error or the outcome with the new database.
  \<^item> \<open>Retry\<close> (\<open>retry.rs\<close>, \<open>run_post\<close>), \<open>Verifier\<close> (\<open>infra/jobs/verifier.rs\<close>), \<open>Composite\<close>
    (\<open>apply_in_txn\<close> of \<open>infra/adjustment/credit_note_service.rs\<close>).

  \<^bold>\<open>The ledger over time.\<close>  \<open>Post_Steps\<close> reduces an attempt to a refusal, a replay or one \<open>posting_step\<close>.
  \<open>Ledger_State\<close> has the step relation \<open>ledger_step\<close> (postings, reversals, queued claims, and upkeep: changes of the
  reference tables, freezes, counters, and claims of other services such as a schedule change) and the abstract ledger, a list of postings; \<open>implements\<close> is the simulation relation, and every reachable
  database implements a list.  \<open>Verified_Chain\<close>, \<open>Tie_Out\<close>, \<open>Trial_Balance\<close> and \<open>Tamper_Evidence\<close>
  derive from it that the verifier accepts, that the caches add up to the journal, that the books balance and that an
  accepted chain has one content; \<open>Frozen_Ledger\<close> shows that nothing of a frozen tenant is written along any run.  The locales \<open>posted_books\<close> and \<open>posted_ledger\<close> hold the lemmas on a database
  with its list; \<open>posted_booksI\<close> gives them for every database that implements one.  \<open>Ledger_Properties\<close> and
  \<open>Chain_Properties\<close> state the results; \<open>Ledger_Example\<close> and \<open>Reversal_Example\<close> run the engine on an invoice
  and its reversal for the witnesses.

  \<^bold>\<open>What is taken from outside.\<close>  The decimal carrier is under its contract.  SHA-256 is a function argument;
  \<open>digest_contract\<close> says it returns 32 bytes and \<open>no_collision\<close> that it does not collide on the buffers of the two
  journals compared.  The clock, fresh identifiers, the text of a date and of an identifier, and the sequence numbers of
  the database are arguments; \<open>fresh_seq\<close> says the numbers grow.  A sidecar of a posting is an argument that acts on
  \<open>db_counters\<close> and may claim free idempotency keys (the schedule builder does); it does not write the journal.
  Which attempts of a transaction the database lets commit is an argument of the retry and of the freeze.  An identifier is a number, an instant a count of nanoseconds, a date a count of days.

  \<^bold>\<open>Bounds.\<close>  Integers carry their width where the code checks it: the budget of an exact fraction, the \<open>i128\<close> of
  the running sum, the \<open>i64\<close> of versions and instants, the \<open>i32\<close> of cycles, the 28 decimals of an amount, the 1000
  lines of an entry.  No definition needs fuel: loops are structural recursion, except the fill of a split and the walk of
  the verifier, which have termination proofs; the retry counts down its three attempts.

  \<^bold>\<open>Limits worth knowing.\<close>  The hash does not cover the rate snapshot and the due date of a line.  The verifier does not
  compare the hash stored in the tip with the hash of the newest entry, so \<open>tamper_evident\<close> has this as a hypothesis.
  The credit note of a composite refund is not sealed and is therefore no \<open>ledger_step\<close>: the reachable states
  are those of a ledger without composite refunds.  A freeze that was cleared once cannot be set again, and a freeze
  whose three writes fail leaves the tenant open; \<open>break_stops_posting\<close> covers both the committed and the failed freeze.

  \<^bold>\<open>Not modelled.\<close>  HTTP handlers and clients, access scopes, migrations beyond the constraints of the journal, event
  publishing, alarms, metrics and audit records (input and output, or writes that no modelled code reads); the counter tables
  and the handlers that read them before a posting; refunds, notes, foreign-exchange runs, period close and the jobs
  other than the verifier; the gears outside billing and the toolkit libraries, which share no code with the ledger core.
  The text carried by an error is dropped.
\<close>

end
